(* ===== verification/Prelude.thy ===== *)
theory Prelude
  imports Main "HOL-Library.Word" "HOL-Library.Multiset" "HOL-Library.AList"
begin

text \<open>
  What every component of the development shares: the machine integers of the Go code and of
  PostgreSQL, UUIDs with the byte order the code sorts them by, the sort of Go's standard
  library, operations that pass a state and may fail (Go's \<open>(value, error)\<close> results), Go maps,
  and generic lemmas on them.
\<close>

named_theorems op_simps \<open>what an operation combinator returns\<close>
named_theorems keeps_intros \<open>an operation keeps a predicate on the state\<close>

section \<open>Machine integers\<close>

text \<open>
  Go's \<open>int\<close> and \<open>int64\<close> are 64 bits wide on the platforms the service is built for, PostgreSQL's
  \<open>BIGINT\<close> has 64 bits and its \<open>INT\<close> 32. All of them are two's complement words, read with
  \<^const>\<open>sint\<close> and compared with the signed orders. The conversion \<open>int32(x)\<close> of Go keeps the
  low 32 bits; \<open>int(x)\<close> of a 32-bit value extends the sign.
\<close>

type_synonym int32 = "32 word"
type_synonym int64 = "64 word"
type_synonym goint = "64 word"

text \<open>
  A point in time and a duration, in microseconds: the resolution of PostgreSQL's \<open>timestamptz\<close>, which
  the driver rounds the times of Go down to.
\<close>

type_synonym time = int

definition int32_of :: "goint \<Rightarrow> int32" where
  "int32_of x = ucast x"

definition goint_of :: "int32 \<Rightarrow> goint" where
  "goint_of x = scast x"

lemma int32_range: "- (2 ^ 31) \<le> sint (x :: int32)" "sint (x :: int32) < 2 ^ 31"
  using sint_range_size [of x] by (simp_all add: word_size)

lemma int64_range: "- (2 ^ 63) \<le> sint (x :: int64)" "sint (x :: int64) < 2 ^ 63"
  using sint_range_size [of x] by (simp_all add: word_size)

lemma sint_goint_of [simp]: "sint (goint_of x) = sint x"
  using int32_range [of x]
  by (simp add: goint_of_def signed_scast_eq signed_take_bit_int_eq_self)

lemma int32_of_goint_of [simp]: "int32_of (goint_of x) = x"
  unfolding int32_of_def goint_of_def by transfer (simp add: take_bit_signed_take_bit)

lemma sint_int32_of_eq: "sint (int32_of x) = signed_take_bit 31 (sint x)"
  unfolding int32_of_def by transfer (simp add: signed_take_bit_signed_take_bit signed_take_bit_take_bit)

lemma sint_int32_of: "- (2 ^ 31) \<le> sint x \<Longrightarrow> sint x < 2 ^ 31 \<Longrightarrow> sint (int32_of x) = sint x"
  by (simp add: sint_int32_of_eq signed_take_bit_int_eq_self)

text \<open>
  PostgreSQL raises \<open>22003 numeric_value_out_of_range\<close> where an \<open>INT\<close> sum or difference leaves the
  32-bit range; nothing wraps around on that side.
\<close>

definition int4_add :: "int32 \<Rightarrow> int32 \<Rightarrow> int32 option" where
  "int4_add a b =
     (if - (2 ^ 31) \<le> sint a + sint b \<and> sint a + sint b < 2 ^ 31 then Some (a + b) else None)"

definition int4_sub :: "int32 \<Rightarrow> int32 \<Rightarrow> int32 option" where
  "int4_sub a b =
     (if - (2 ^ 31) \<le> sint a - sint b \<and> sint a - sint b < 2 ^ 31 then Some (a - b) else None)"

lemma int4_add_sint: "int4_add a b = Some c \<Longrightarrow> sint c = sint a + sint b"
  by (auto simp: int4_add_def sint_word_ariths(1) signed_take_bit_int_eq_self split: if_splits)

lemma int4_sub_sint: "int4_sub a b = Some c \<Longrightarrow> sint c = sint a - sint b"
  by (auto simp: int4_sub_def sint_word_ariths(2) signed_take_bit_int_eq_self split: if_splits)

section \<open>UUIDs\<close>

text \<open>
  A \<open>uuid.UUID\<close> is a \<open>[16]byte\<close>, here the 128-bit number its bytes spell with the most significant
  byte first. The code orders UUIDs by \<open>bytes.Compare\<close> on the 16 bytes; on arrays of equal length
  that is the order of the numbers (\<open>uuid_bytes_less\<close>).
\<close>

type_synonym uuid = "128 word"

definition uuid_bytes :: "uuid \<Rightarrow> 8 word list" where
  "uuid_bytes u = map (\<lambda>i. ucast (drop_bit (8 * (15 - i)) u)) [0..<16]"

fun bytes_less :: "8 word list \<Rightarrow> 8 word list \<Rightarrow> bool" where
  "bytes_less [] ys \<longleftrightarrow> ys \<noteq> []"
| "bytes_less (x # xs) [] \<longleftrightarrow> False"
| "bytes_less (x # xs) (y # ys) \<longleftrightarrow> x < y \<or> (x = y \<and> bytes_less xs ys)"

text \<open>The number a list of bytes spells, and its value for a prefix of a UUID's bytes.\<close>

fun be_val :: "8 word list \<Rightarrow> nat" where
  "be_val [] = 0"
| "be_val (b # bs) = unat b * 256 ^ length bs + be_val bs"

lemma digit_less: "(d :: nat) < e \<Longrightarrow> m < B \<Longrightarrow> d * B + m < e * B + n"
proof -
  assume d: "d < e" and m: "m < B"
  from d have "Suc d * B \<le> e * B" by (intro mult_le_mono1) simp
  with m show ?thesis unfolding mult_Suc by linarith
qed

lemma be_val_bound: "be_val bs < 256 ^ length bs"
proof (induction bs)
  case Nil
  then show ?case by simp
next
  case (Cons b bs)
  have "unat b < 256" using unsigned_less [of b, where ?'a = nat] by simp
  from digit_less [OF this Cons.IH, of 0] show ?case by simp
qed

lemma bytes_less_be_val:
  "length xs = length ys \<Longrightarrow> bytes_less xs ys \<longleftrightarrow> be_val xs < be_val ys"
proof (induction xs ys rule: list_induct2)
  case Nil
  then show ?case by simp
next
  case (Cons x xs y ys)
  let ?B = "(256 :: nat) ^ length ys"
  have vx: "be_val xs < ?B" and vy: "be_val ys < ?B"
    using be_val_bound [of xs] be_val_bound [of ys] Cons.hyps by simp_all
  have lt: "unat a * ?B + m < unat b * ?B + n" if "a < b" "m < ?B" for a b :: "8 word" and m n
    using that by (intro digit_less) (simp_all add: word_less_nat_alt)
  consider "x < y" | "x = y" | "y < x" by (rule linorder_cases)
  then show ?case
  proof cases
    case 1
    with lt [OF 1 vx] Cons.hyps show ?thesis by simp
  next
    case 2
    with Cons show ?thesis by simp
  next
    case 3
    with lt [OF 3 vy, of "be_val xs"] Cons.hyps show ?thesis by auto
  qed
qed

lemma be_val_uuid_prefix:
  "k \<le> 16 \<Longrightarrow>
   be_val (map (\<lambda>i. ucast (drop_bit (8 * (15 - i)) u)) [16 - k..<16]) = unat (u :: uuid) mod 256 ^ k"
proof (induction k)
  case 0
  then show ?case by simp
next
  case (Suc k)
  then have k: "k < 16" by simp
  have up: "[16 - Suc k..<16] = (15 - k) # [16 - k..<16]"
    using k upt_conv_Cons [of "16 - Suc k" 16] Suc_diff_Suc [of k 16] by simp
  have pw: "(2 :: nat) ^ (8 * k) = 256 ^ k" by (simp add: power_mult)
  have dp: "unat (drop_bit (8 * k) u) = unat u div 256 ^ k"
    by (simp only: unat_drop_bit_eq) (simp only: drop_bit_eq_div pw)
  have "unat (ucast (drop_bit (8 * k) u) :: 8 word) = unat u div 256 ^ k mod 256"
    by (simp add: unsigned_ucast_eq take_bit_eq_mod dp)
  moreover have "8 * (15 - (15 - k)) = 8 * k" using k by simp
  moreover have "unat u mod 256 ^ Suc k = 256 ^ k * (unat u div 256 ^ k mod 256) + unat u mod 256 ^ k"
    using mod_mult2_eq [of "unat u" "256 ^ k" 256] by (simp add: mult.commute)
  ultimately show ?case
    using Suc.IH k by (simp only: up list.map be_val.simps) simp
qed

lemma uuid_bytes_less: "bytes_less (uuid_bytes a) (uuid_bytes b) \<longleftrightarrow> a < b"
proof -
  have "be_val (uuid_bytes u) = unat u" for u
    using be_val_uuid_prefix [of 16 u] unsigned_less [of u, where ?'a = nat] by (simp add: uuid_bytes_def)
  then show ?thesis
    by (simp add: bytes_less_be_val uuid_bytes_def word_less_nat_alt)
qed

section \<open>Sorting\<close>

text \<open>
  \<open>sort.Slice(xs, less)\<close> of Go's standard library, as an insertion sort by the comparison it is
  given. Go's sort is not stable; where two elements compare equal the order below (that of the
  input) is one of those it may produce.
\<close>

fun insert_by :: "('a \<Rightarrow> 'a \<Rightarrow> bool) \<Rightarrow> 'a \<Rightarrow> 'a list \<Rightarrow> 'a list" where
  "insert_by lt x [] = [x]"
| "insert_by lt x (y # ys) = (if lt y x then y # insert_by lt x ys else x # y # ys)"

definition sort_slice :: "('a \<Rightarrow> 'a \<Rightarrow> bool) \<Rightarrow> 'a list \<Rightarrow> 'a list" where
  "sort_slice lt xs = foldr (insert_by lt) xs []"

lemma sort_slice_eq:
  assumes "\<And>x y. lt x y \<longleftrightarrow> key x < (key y :: 'k :: linorder)"
  shows "sort_slice lt xs = sort_key key xs"
proof -
  have "insert_by lt x ys = insort_key key x ys" for x ys
    by (induction ys) (auto simp: assms not_le)
  then have "insert_by lt = insort_key key" by (intro ext)
  then show ?thesis by (simp add: sort_slice_def sort_key_def)
qed

section \<open>Go maps\<close>

text \<open>
  A Go map is an association list without duplicate keys; reading a key that is absent gives the
  element type's zero value. Ranging over a map visits the keys in an unspecified order: the
  models that range take the order of the list, and are shown not to depend on it.
\<close>

type_synonym ('k, 'v) go_map = "('k \<times> 'v) list"

definition go_get :: "('k, 'v :: zero) go_map \<Rightarrow> 'k \<Rightarrow> 'v" where
  "go_get m k = (case map_of m k of None \<Rightarrow> 0 | Some v \<Rightarrow> v)"

definition go_set :: "'k \<Rightarrow> 'v \<Rightarrow> ('k, 'v) go_map \<Rightarrow> ('k, 'v) go_map" where
  "go_set k v m = AList.update k v m"

definition go_keys :: "('k, 'v) go_map \<Rightarrow> 'k list" where
  "go_keys m = map fst m"

lemma go_get_empty [simp]: "go_get [] k = 0"
  by (simp add: go_get_def)

lemma go_get_set [simp]: "go_get (go_set k v m) k' = (if k' = k then v else go_get m k')"
  by (simp add: go_get_def go_set_def update_conv')

lemma set_go_keys_set [simp]: "set (go_keys (go_set k v m)) = insert k (set (go_keys m))"
  by (simp add: go_keys_def go_set_def dom_update)

lemma distinct_go_keys_set [simp]: "distinct (go_keys m) \<Longrightarrow> distinct (go_keys (go_set k v m))"
  unfolding go_keys_def go_set_def by (rule distinct_update)

lemma go_get_absent: "k \<notin> set (go_keys m) \<Longrightarrow> go_get m k = 0"
  by (force simp: go_get_def go_keys_def split: option.splits dest: map_of_SomeD)

section \<open>Operations\<close>

text \<open>
  A Go function \<open>f(...) (T, error)\<close> that works on some state is an operation: it takes the state
  and returns either an error or a value, and the state it leaves. \<open>and_then f g\<close> is the idiom
  \<open>x, err := f(); if err != nil { return err }; g(x)\<close>; \<open>map_err h f\<close> is
  \<open>if err != nil { return h(err) }\<close>.
\<close>

type_synonym ('s, 'e, 'a) op = "'s \<Rightarrow> ('e + 'a) \<times> 's"

definition ret :: "'a \<Rightarrow> ('s, 'e, 'a) op" where
  "ret a s = (Inr a, s)"

definition fail :: "'e \<Rightarrow> ('s, 'e, 'a) op" where
  "fail e s = (Inl e, s)"

definition and_then :: "('s, 'e, 'a) op \<Rightarrow> ('a \<Rightarrow> ('s, 'e, 'b) op) \<Rightarrow> ('s, 'e, 'b) op" where
  "and_then f g s = (case f s of (Inl e, s') \<Rightarrow> (Inl e, s') | (Inr a, s') \<Rightarrow> g a s')"

definition map_err :: "('e \<Rightarrow> 'e) \<Rightarrow> ('s, 'e, 'a) op \<Rightarrow> ('s, 'e, 'a) op" where
  "map_err h f s = (case f s of (Inl e, s') \<Rightarrow> (Inl (h e), s') | (Inr a, s') \<Rightarrow> (Inr a, s'))"

definition map_ok :: "('a \<Rightarrow> 'b) \<Rightarrow> ('s, 'e, 'a) op \<Rightarrow> ('s, 'e, 'b) op" where
  "map_ok h f = and_then f (\<lambda>a. ret (h a))"

lemma ret_Inr [op_simps]: "ret a s = (Inr b, s') \<longleftrightarrow> b = a \<and> s' = s"
  by (auto simp: ret_def)

lemma ret_Inl [op_simps]: "ret a s = (Inl e, s') \<longleftrightarrow> False"
  by (simp add: ret_def)

lemma fail_Inr [op_simps]: "fail e s = (Inr b, s') \<longleftrightarrow> False"
  by (simp add: fail_def)

lemma fail_Inl [op_simps]: "fail e s = (Inl d, s') \<longleftrightarrow> d = e \<and> s' = s"
  by (auto simp: fail_def)

lemma and_then_Inr [op_simps]:
  "and_then f g s = (Inr b, s'') \<longleftrightarrow> (\<exists>a s'. f s = (Inr a, s') \<and> g a s' = (Inr b, s''))"
  by (auto simp: and_then_def split: prod.splits sum.splits)

lemma and_then_Inl [op_simps]:
  "and_then f g s = (Inl e, s'') \<longleftrightarrow>
     f s = (Inl e, s'') \<or> (\<exists>a s'. f s = (Inr a, s') \<and> g a s' = (Inl e, s''))"
  by (auto simp: and_then_def split: prod.splits sum.splits)

lemma map_err_Inr [op_simps]: "map_err h f s = (Inr a, s') \<longleftrightarrow> f s = (Inr a, s')"
  by (auto simp: map_err_def split: prod.splits sum.splits)

lemma map_err_Inl [op_simps]:
  "map_err h f s = (Inl e, s') \<longleftrightarrow> (\<exists>d. f s = (Inl d, s') \<and> e = h d)"
  by (auto simp: map_err_def split: prod.splits sum.splits)

lemma map_ok_Inr [op_simps]: "map_ok h f s = (Inr b, s') \<longleftrightarrow> (\<exists>a. f s = (Inr a, s') \<and> b = h a)"
  by (auto simp: map_ok_def op_simps)

lemma map_ok_Inl [op_simps]: "map_ok h f s = (Inl e, s') \<longleftrightarrow> f s = (Inl e, s')"
  by (auto simp: map_ok_def op_simps)

lemma map_result:
  "map_ok g (map_err h f) w = (r, w') \<longleftrightarrow>
   (\<exists>q. f w = (q, w') \<and> r = (case q of Inl e \<Rightarrow> Inl (h e) | Inr a \<Rightarrow> Inr (g a)))"
  by (auto simp: map_ok_def map_err_def and_then_def ret_def split: prod.splits sum.splits)

text \<open>
  An operation keeps a predicate when it holds in the state the operation leaves whenever it held
  in the state it started from, whether the operation failed or not.
\<close>

definition keeps :: "('s \<Rightarrow> bool) \<Rightarrow> ('s, 'e, 'a) op \<Rightarrow> bool" where
  "keeps I f \<longleftrightarrow> (\<forall>s. I s \<longrightarrow> I (snd (f s)))"

lemma keepsI: "(\<And>s r s'. I s \<Longrightarrow> f s = (r, s') \<Longrightarrow> I s') \<Longrightarrow> keeps I f"
  unfolding keeps_def by (metis prod.collapse)

lemma keepsD: "keeps I f \<Longrightarrow> I s \<Longrightarrow> f s = (r, s') \<Longrightarrow> I s'"
  unfolding keeps_def by (metis snd_conv)

lemma keeps_ret [keeps_intros]: "keeps I (ret a)"
  by (simp add: keeps_def ret_def)

lemma keeps_fail [keeps_intros]: "keeps I (fail e)"
  by (simp add: keeps_def fail_def)

lemma keeps_and_then [keeps_intros]: "keeps I f \<Longrightarrow> (\<And>a. keeps I (g a)) \<Longrightarrow> keeps I (and_then f g)"
  by (auto simp: keeps_def and_then_def split: prod.splits sum.splits)

lemma keeps_map_err [keeps_intros]: "keeps I f \<Longrightarrow> keeps I (map_err h f)"
  by (auto simp: keeps_def map_err_def split: prod.splits sum.splits)

lemma keeps_map_ok [keeps_intros]: "keeps I f \<Longrightarrow> keeps I (map_ok h f)"
  by (simp add: map_ok_def keeps_intros)

lemma keeps_if [keeps_intros]: "keeps I f \<Longrightarrow> keeps I g \<Longrightarrow> keeps I (if b then f else g)"
  by simp

end
