(* ===== verification/Database.thy ===== *)
theory Database
  imports Prelude
begin

text \<open>
  The PostgreSQL database as the Go code sees it: the rows of the six tables (\<open>sqlc/models.go\<close>,
  \<open>migrations/\<close>), the constraints the migrations declare, statements that may fail, and
  transactions. SQL statements are modelled by what they do to the tables; what the code cannot
  determine (which statement fails, the UUIDs and times the server draws, the order an
  unordered \<open>SELECT\<close> returns rows in) is read from an environment, an arbitrary value of the
  model, so a theorem without a hypothesis on it holds whatever the environment does.
\<close>

section \<open>Errors\<close>

text \<open>The sentinel errors of the packages, and what the driver returns.\<close>

datatype product_err =
    ErrNoProduct
  | ErrExistingProductName
  | ErrProductNotFound
  | ErrInsufficientStock

datatype order_err =
    ErrOrderNotFound
  | ErrOrderItemsUnvailable
  | ErrOrderNotPending

datatype payment_err =
    ErrNoPaymentFound
  | ErrNoOrderFound
  | ErrOrderNotPayable

datatype idempotency_err =
    ErrNoIdempotencyFound
  | ErrIdempotencyKeyExists

datatype user_err =
    ErrEmailRegistered
  | ErrLoginGeneric

datatype sqlstate =
    UniqueViolation
  | CheckViolation
  | ForeignKeyViolation
  | NumericValueOutOfRange
  | StringDataRightTruncation
  | InvalidRowCountInLimit
  | InvalidRowCountInOffset
  | InvalidTextRepresentation

text \<open>
  \<open>ErrNoRows\<close> is \<open>pgx.ErrNoRows\<close>, \<open>PgError\<close> a \<open>*pgconn.PgError\<close> with its code, \<open>ErrConn\<close> any
  failure of the connection or of the request's context, \<open>Wrapped\<close> an error made by
  \<open>fmt.Errorf("...: %w", err)\<close>.
\<close>

datatype go_error =
    ErrNoRows
  | PgError sqlstate
  | ErrConn
  | ProductErr product_err
  | OrderErr order_err
  | PaymentErr payment_err
  | IdempotencyErr idempotency_err
  | UserErr user_err
  | OtherErr string
  | Wrapped string go_error

fun errors_Is :: "go_error \<Rightarrow> go_error \<Rightarrow> bool" where
  "errors_Is (Wrapped msg e) target \<longleftrightarrow> Wrapped msg e = target \<or> errors_Is e target"
| "errors_Is e target \<longleftrightarrow> e = target"

section \<open>Tables\<close>

record user_row =
  u_id :: uuid
  u_email :: string
  u_password_hash :: string
  u_created_at :: time
  u_updated_at :: time

record product_row =
  p_id :: uuid
  p_name :: string
  p_description :: string
  p_price :: int64
  p_stock :: int32
  p_created_at :: time
  p_updated_at :: time

record order_row =
  o_id :: uuid
  o_user_id :: uuid
  o_status :: string
  o_total_amount :: int64
  o_created_at :: time
  o_updated_at :: time

record item_row =
  i_id :: uuid
  i_order_id :: uuid
  i_product_id :: uuid
  i_quantity :: int32
  i_price :: int64
  i_subtotal :: int64
  i_created_at :: time
  i_updated_at :: time

record payment_row =
  y_id :: uuid
  y_order_id :: uuid
  y_amount :: int64
  y_status :: string
  y_provider :: string
  y_transaction_id :: "string option"
  y_created_at :: time
  y_updated_at :: time

record key_row =
  k_key :: string
  k_user_id :: uuid
  k_request_hash :: string
  k_response :: "string option"
  k_created_at :: time
  k_updated_at :: time

record tables =
  t_users :: "user_row list"
  t_products :: "product_row list"
  t_orders :: "order_row list"
  t_items :: "item_row list"
  t_payments :: "payment_row list"
  t_keys :: "key_row list"

text \<open>
  The constraints of the migrations, row by row and table by table. A table is the list of its
  rows; primary keys and \<open>UNIQUE\<close> columns are distinct along it.
\<close>

definition order_statuses :: "string list" where
  "order_statuses = [''pending'', ''paid'', ''cancelled'']"

definition payment_statuses :: "string list" where
  "payment_statuses = [''pending'', ''success'', ''failed'']"

definition product_check :: "product_row \<Rightarrow> bool" where
  "product_check r \<longleftrightarrow> 0 \<le> sint (p_stock r) \<and> 0 \<le> sint (p_price r)"

definition order_check :: "order_row \<Rightarrow> bool" where
  "order_check r \<longleftrightarrow> o_status r \<in> set order_statuses \<and> 0 \<le> sint (o_total_amount r)"

definition item_check :: "item_row \<Rightarrow> bool" where
  "item_check r \<longleftrightarrow> 0 < sint (i_quantity r) \<and> 0 \<le> sint (i_price r) \<and> 0 \<le> sint (i_subtotal r)"

definition payment_check :: "payment_row \<Rightarrow> bool" where
  "payment_check r \<longleftrightarrow> y_status r \<in> set payment_statuses \<and> 0 \<le> sint (y_amount r)"

definition user_check :: "(string \<Rightarrow> string) \<Rightarrow> user_row \<Rightarrow> bool" where
  "user_check lower r \<longleftrightarrow> u_email r = lower (u_email r)"

text \<open>The partial unique index \<open>unique_provider_transaction\<close>: the rows whose transaction is known.\<close>

definition transaction_keys :: "payment_row list \<Rightarrow> (string \<times> string) list" where
  "transaction_keys rs =
     List.map_filter (\<lambda>r. map_option (Pair (y_provider r)) (y_transaction_id r)) rs"

definition schema_ok :: "tables \<Rightarrow> bool" where
  "schema_ok t \<longleftrightarrow>
     distinct (map u_id (t_users t)) \<and> distinct (map u_email (t_users t)) \<and>
     distinct (map p_id (t_products t)) \<and> distinct (map p_name (t_products t)) \<and>
     (\<forall>r \<in> set (t_products t). product_check r) \<and>
     distinct (map o_id (t_orders t)) \<and> (\<forall>r \<in> set (t_orders t). order_check r) \<and>
     (\<forall>r \<in> set (t_orders t). o_user_id r \<in> u_id ` set (t_users t)) \<and>
     distinct (map i_id (t_items t)) \<and> (\<forall>r \<in> set (t_items t). item_check r) \<and>
     (\<forall>r \<in> set (t_items t). i_order_id r \<in> o_id ` set (t_orders t)) \<and>
     (\<forall>r \<in> set (t_items t). i_product_id r \<in> p_id ` set (t_products t)) \<and>
     distinct (map y_id (t_payments t)) \<and> distinct (map y_order_id (t_payments t)) \<and>
     distinct (transaction_keys (t_payments t)) \<and> (\<forall>r \<in> set (t_payments t). payment_check r) \<and>
     (\<forall>r \<in> set (t_payments t). y_order_id r \<in> o_id ` set (t_orders t)) \<and>
     distinct (map k_key (t_keys t)) \<and> (\<forall>r \<in> set (t_keys t). k_user_id r \<in> u_id ` set (t_users t))"

section \<open>The world and its environment\<close>

text \<open>
  What happens to a statement: it works, it fails without effect, or it takes effect on the server
  while its acknowledgement is lost, so the client sees an error.
\<close>

datatype fault = Works | Fails | AckLost

text \<open>
  The environment is indexed by the number of the statement (or draw): the fault that hits it, the
  database's clock, the application's clock, the order of an unordered scan of \<open>m\<close> rows as a list of
  indices, \<open>gen_random_uuid()\<close>, the pseudo-random numbers and transaction ids the fake payment
  provider draws, how \<open>JSONB\<close> stores a text (\<open>None\<close> when it is no JSON), and \<open>LOWER\<close> under the
  database's locale.
\<close>

record environment =
  env_fault :: "nat \<Rightarrow> fault"
  env_db_clock :: "nat \<Rightarrow> time"
  env_app_clock :: "nat \<Rightarrow> time"
  env_scan :: "nat \<Rightarrow> nat \<Rightarrow> nat list"
  env_uuid :: "nat \<Rightarrow> uuid"
  env_rand :: "nat \<Rightarrow> nat"
  env_txid :: "nat \<Rightarrow> string"
  env_jsonb :: "string \<Rightarrow> string option"
  env_lower :: "string \<Rightarrow> string"

text \<open>Row locks, as \<open>SELECT ... FOR UPDATE\<close> and \<open>UPDATE\<close> take them.\<close>

datatype row_lock = OrderLock uuid | PaymentLock uuid | ProductLock uuid

text \<open>A call of the payment provider: the order it is for, the amount, the transaction id, the answer.\<close>

record charge =
  c_order :: uuid
  c_amount :: goint
  c_txid :: string
  c_success :: bool

text \<open>
  The state every operation passes: the tables as the current transaction sees them, the tables
  to return to when it is rolled back (\<open>None\<close> outside a transaction), the row locks the latest
  transaction has taken in their order, the calls of the payment provider (which no rollback takes
  back), the numbers of statements and draws so far, the time \<open>now()\<close> returns, and the environment.
  \<open>locks\<close> and \<open>charges\<close> are records of what happened; no code reads them.
\<close>

record world =
  tables :: tables
  tx :: "tables option"
  locks :: "row_lock list"
  charges :: "charge list"
  stmt_no :: nat
  draw_no :: nat
  db_now :: time
  env :: environment

type_synonym 'a db_op = "(world, go_error, 'a) op"

section \<open>Statements\<close>

text \<open>
  Every statement has a number, which picks its fault. Outside a transaction \<open>now()\<close> is the time of
  the statement; inside, the time the transaction began.
\<close>

definition next_stmt :: "world \<Rightarrow> world" where
  "next_stmt w = w\<lparr>stmt_no := Suc (stmt_no w),
     db_now := (if tx w = None then env_db_clock (env w) (stmt_no w) else db_now w)\<rparr>"

definition sql_stmt :: "'a db_op \<Rightarrow> 'a db_op" where
  "sql_stmt body w =
     (let w1 = next_stmt w in
      case env_fault (env w) (stmt_no w) of
        Works \<Rightarrow> body w1
      | Fails \<Rightarrow> (Inl ErrConn, w1)
      | AckLost \<Rightarrow> (Inl ErrConn, snd (body w1)))"

text \<open>
  The meaning of a statement: from the time and the tables, an error that leaves the tables alone,
  or a result, the new tables and the rows it locked.
\<close>

type_synonym 'a sql = "time \<Rightarrow> tables \<Rightarrow> go_error + 'a \<times> tables \<times> row_lock list"

definition on_tables :: "'a sql \<Rightarrow> 'a db_op" where
  "on_tables f w =
     (case f (db_now w) (tables w) of
        Inl e \<Rightarrow> (Inl e, w)
      | Inr (a, t, ls) \<Rightarrow> (Inr a, w\<lparr>tables := t, locks := locks w @ ls\<rparr>))"

definition exec_sql :: "'a sql \<Rightarrow> 'a db_op" where
  "exec_sql f = sql_stmt (on_tables f)"

text \<open>An \<open>INSERT\<close> whose primary key is \<open>gen_random_uuid()\<close> draws a UUID first.\<close>

definition exec_insert :: "(uuid \<Rightarrow> 'a sql) \<Rightarrow> 'a db_op" where
  "exec_insert f =
     sql_stmt (\<lambda>w. on_tables (f (env_uuid (env w) (draw_no w))) (w\<lparr>draw_no := Suc (draw_no w)\<rparr>))"

text \<open>
  A \<open>SELECT\<close> without \<open>ORDER BY\<close> returns its rows in an order SQL does not fix: the environment
  proposes a list of indices, which counts if it is a permutation of them.
\<close>

definition permute :: "nat list \<Rightarrow> 'r list \<Rightarrow> 'r list" where
  "permute p rs = (if mset p = mset [0..<length rs] then map ((!) rs) p else rs)"

definition query_rows :: "(tables \<Rightarrow> 'r list) \<Rightarrow> ('r list \<Rightarrow> go_error + 'a) \<Rightarrow> 'a db_op" where
  "query_rows sel f =
     sql_stmt (\<lambda>w. (let rs = sel (tables w)
                    in f (permute (env_scan (env w) (stmt_no w) (length rs)) rs), w))"

text \<open>A \<open>:one\<close> query scans the first row it gets, and is \<open>pgx.ErrNoRows\<close> when there is none.\<close>

definition one_row :: "'r list \<Rightarrow> go_error + 'r" where
  "one_row rs = (case rs of [] \<Rightarrow> Inl ErrNoRows | r # _ \<Rightarrow> Inr r)"

text \<open>
  \<open>UPDATE ... SET ... WHERE\<close>: every row that satisfies the condition is replaced, unless replacing
  one of them raises. The second list is what \<open>RETURNING *\<close> returns.
\<close>

fun update_where :: "('r \<Rightarrow> bool) \<Rightarrow> ('r \<Rightarrow> sqlstate + 'r) \<Rightarrow> 'r list \<Rightarrow> sqlstate + 'r list \<times> 'r list" where
  "update_where P f [] = Inr ([], [])"
| "update_where P f (r # rs) =
     (if P r then
        (case f r of
           Inl e \<Rightarrow> Inl e
         | Inr r' \<Rightarrow> (case update_where P f rs of
                        Inl e \<Rightarrow> Inl e
                      | Inr (rs', out) \<Rightarrow> Inr (r' # rs', r' # out)))
      else
        (case update_where P f rs of Inl e \<Rightarrow> Inl e | Inr (rs', out) \<Rightarrow> Inr (r # rs', out)))"

definition checked :: "('r \<Rightarrow> bool) \<Rightarrow> 'r \<Rightarrow> sqlstate + 'r" where
  "checked c r = (if c r then Inr r else Inl CheckViolation)"

text \<open>
  The shapes of statement the queries have: \<open>SELECT ... FOR UPDATE\<close>, \<open>UPDATE\<close> of one table with the
  rows it changed, and the \<open>:one\<close> and \<open>:execrows\<close> results of a statement.
\<close>

definition select_for_update :: "('r \<Rightarrow> row_lock) \<Rightarrow> (tables \<Rightarrow> 'r list) \<Rightarrow> 'r sql" where
  "select_for_update lk sel now t =
     (case one_row (sel t) of Inl e \<Rightarrow> Inl e | Inr r \<Rightarrow> Inr (r, t, map lk (sel t)))"

definition update_table ::
  "('r \<Rightarrow> row_lock list) \<Rightarrow> (tables \<Rightarrow> 'r list) \<Rightarrow> ('r list \<Rightarrow> tables \<Rightarrow> tables) \<Rightarrow>
   ('r \<Rightarrow> bool) \<Rightarrow> (time \<Rightarrow> 'r \<Rightarrow> sqlstate + 'r) \<Rightarrow> 'r list sql" where
  "update_table lk get put P f now t =
     (case update_where P (f now) (get t) of
        Inl e \<Rightarrow> Inl (PgError e)
      | Inr (rs, out) \<Rightarrow> Inr (out, put rs t, concat (map lk out)))"

definition returning_one :: "'r list sql \<Rightarrow> 'r sql" where
  "returning_one f now t =
     (case f now t of
        Inl e \<Rightarrow> Inl e
      | Inr (out, t', ls) \<Rightarrow> (case one_row out of Inl e \<Rightarrow> Inl e | Inr r \<Rightarrow> Inr (r, t', ls)))"

definition rows_affected :: "'r list sql \<Rightarrow> int64 sql" where
  "rows_affected f now t =
     (case f now t of Inl e \<Rightarrow> Inl e | Inr (out, t', ls) \<Rightarrow> Inr (of_nat (length out), t', ls))"

text \<open>A unique index: the statement raises if the tables it leaves break the index.\<close>

definition unique_after :: "(tables \<Rightarrow> bool) \<Rightarrow> 'a sql \<Rightarrow> 'a sql" where
  "unique_after uniq f now t =
     (case f now t of
        Inl e \<Rightarrow> Inl e
      | Inr (a, t', ls) \<Rightarrow> if uniq t' then Inr (a, t', ls) else Inl (PgError UniqueViolation))"

section \<open>Transactions\<close>

text \<open>
  \<open>BEGIN\<close> remembers the tables, \<open>ROLLBACK\<close> returns to them. A \<open>COMMIT\<close> that fails rolls back; a
  \<open>COMMIT\<close> whose acknowledgement is lost has taken effect though the client gets an error.
\<close>

definition BeginTx :: "unit db_op" where
  "BeginTx w =
     (let w1 = next_stmt w in
      if env_fault (env w) (stmt_no w) = Works
      then (Inr (), w1\<lparr>tx := Some (tables w1), locks := []\<rparr>)
      else (Inl ErrConn, w1))"

definition RollbackTx :: "world \<Rightarrow> world" where
  "RollbackTx w = (case tx w of None \<Rightarrow> w | Some t \<Rightarrow> w\<lparr>tables := t, tx := None\<rparr>)"

definition CommitTx :: "unit db_op" where
  "CommitTx w =
     (let w1 = next_stmt w in
      case env_fault (env w) (stmt_no w) of
        Works \<Rightarrow> (Inr (), w1\<lparr>tx := None\<rparr>)
      | Fails \<Rightarrow> (Inl ErrConn, RollbackTx w1)
      | AckLost \<Rightarrow> (Inl ErrConn, w1\<lparr>tx := None\<rparr>))"

section \<open>Rows found by a key\<close>

definition row_by :: "('r \<Rightarrow> 'k) \<Rightarrow> 'k \<Rightarrow> 'r list \<Rightarrow> 'r option" where
  "row_by key k rs = find (\<lambda>r. key r = k) rs"

lemma row_by_Nil [simp]: "row_by key k [] = None"
  by (simp add: row_by_def)

lemma row_by_Cons [simp]: "row_by key k (r # rs) = (if key r = k then Some r else row_by key k rs)"
  by (simp add: row_by_def)

lemma row_by_append: "row_by key k (rs @ qs) = (case row_by key k rs of None \<Rightarrow> row_by key k qs | Some r \<Rightarrow> Some r)"
  by (induction rs) auto

lemma row_by_None: "row_by key k rs = None \<longleftrightarrow> k \<notin> key ` set rs"
  by (induction rs) auto

lemma row_by_SomeD: "row_by key k rs = Some r \<Longrightarrow> r \<in> set rs \<and> key r = k"
  by (induction rs) (auto split: if_splits)

lemma row_by_Some: "distinct (map key rs) \<Longrightarrow> row_by key k rs = Some r \<longleftrightarrow> r \<in> set rs \<and> key r = k"
  by (induction rs) (auto simp: row_by_None rev_image_eqI)

lemma row_by_update:
  "(\<And>r. key (g r) = key r) \<Longrightarrow>
   row_by key k (map (\<lambda>r. if P r then g r else r) rs) =
     map_option (\<lambda>r. if P r then g r else r) (row_by key k rs)"
  by (induction rs) auto

lemma filter_row_by:
  "distinct (map key rs) \<Longrightarrow>
   filter (\<lambda>r. key r = k) rs = (case row_by key k rs of None \<Rightarrow> [] | Some r \<Rightarrow> [r])"
proof (induction rs)
  case Nil
  then show ?case by simp
next
  case (Cons r rs)
  show ?case
  proof (cases "key r = k")
    case True
    with Cons.prems have "row_by key k rs = None" by (auto simp: row_by_None)
    with Cons True show ?thesis by simp
  next
    case False
    with Cons show ?thesis by simp
  qed
qed

lemma one_row_Inr [op_simps]: "one_row rs = Inr r \<longleftrightarrow> (\<exists>qs. rs = r # qs)"
  by (cases rs) (auto simp: one_row_def)

lemma one_row_Inl [op_simps]: "one_row rs = Inl e \<longleftrightarrow> rs = [] \<and> e = ErrNoRows"
  by (cases rs) (auto simp: one_row_def)

lemma set_permute [simp]: "set (permute p rs) = set rs"
  and mset_permute [simp]: "mset (permute p rs) = mset rs"
  and length_permute [simp]: "length (permute p rs) = length rs"
proof -
  have "mset (permute p rs) = mset rs"
  proof (cases "mset p = mset [0..<length rs]")
    case True
    then have "mset (map ((!) rs) p) = mset (map ((!) rs) [0..<length rs])"
      by simp
    moreover have "permute p rs = map ((!) rs) p"
      using True by (simp add: permute_def)
    ultimately show ?thesis by (simp add: map_nth)
  qed (simp add: permute_def)
  then show "mset (permute p rs) = mset rs" "set (permute p rs) = set rs"
    "length (permute p rs) = length rs"
    by (auto dest: mset_eq_setD mset_eq_length)
qed

text \<open>An \<open>UPDATE\<close> that succeeds is a map over the rows.\<close>

lemma update_where_ok:
  "(\<forall>r \<in> set rs. P r \<longrightarrow> f r = Inr (g r)) \<Longrightarrow>
   update_where P f rs = Inr (map (\<lambda>r. if P r then g r else r) rs, map g (filter P rs))"
  by (induction rs) auto

lemma update_where_error:
  "r \<in> set rs \<Longrightarrow> P r \<Longrightarrow> f r = Inl e \<Longrightarrow> \<exists>d. update_where P f rs = Inl d"
proof (induction rs)
  case Nil
  then show ?case by simp
next
  case (Cons q rs)
  then show ?case
    by (cases "r = q"; cases "f q") (auto split: sum.splits)
qed

lemma update_where_Inr:
  "update_where P f rs = Inr (rs', out) \<longleftrightarrow>
     (\<forall>r \<in> set rs. P r \<longrightarrow> \<not> isl (f r)) \<and>
     rs' = map (\<lambda>r. if P r then projr (f r) else r) rs \<and>
     out = map (\<lambda>r. projr (f r)) (filter P rs)"
proof (cases "\<forall>r \<in> set rs. P r \<longrightarrow> \<not> isl (f r)")
  case True
  have "update_where P f rs =
      Inr (map (\<lambda>r. if P r then projr (f r) else r) rs, map (\<lambda>r. projr (f r)) (filter P rs))"
    by (rule update_where_ok) (use True in auto)
  with True show ?thesis by auto
next
  case False
  then obtain r e where r: "r \<in> set rs" "P r" "f r = Inl e"
    by (auto simp: isl_def)
  obtain d where "update_where P f rs = Inl d"
    using update_where_error [where P = P and f = f, OF r] ..
  with False show ?thesis by simp
qed

lemma checked_Inr [op_simps]: "checked c r = Inr r' \<longleftrightarrow> c r \<and> r' = r"
  by (auto simp: checked_def)

text \<open>What is true of every row before, and of every row the update makes, is true after.\<close>

lemma update_where_all:
  "update_where P f rs = Inr (rs', out) \<Longrightarrow> (\<forall>r \<in> set rs. C r) \<Longrightarrow>
   (\<And>r r'. r \<in> set rs \<Longrightarrow> P r \<Longrightarrow> f r = Inr r' \<Longrightarrow> C r') \<Longrightarrow> (\<forall>r \<in> set rs'. C r)"
  by (auto simp: update_where_Inr)

lemma update_where_key:
  "update_where P f rs = Inr (rs', out) \<Longrightarrow>
   (\<And>r r'. r \<in> set rs \<Longrightarrow> P r \<Longrightarrow> f r = Inr r' \<Longrightarrow> key r' = key r) \<Longrightarrow> map key rs' = map key rs"
  by (auto simp: update_where_Inr)

text \<open>An \<open>UPDATE\<close> of the one row a key names.\<close>

lemma row_by_unique:
  "distinct (map key rs) \<Longrightarrow> row_by key k rs = Some r \<Longrightarrow> x \<in> set rs \<Longrightarrow> key x = k \<Longrightarrow> x = r"
  by (metis option.inject row_by_Some)

lemma filter_row_by_and:
  "distinct (map key rs) \<Longrightarrow> row_by key k rs = Some r \<Longrightarrow>
   filter (\<lambda>r. key r = k \<and> C r) rs = (if C r then [r] else [])"
proof -
  assume d: "distinct (map key rs)" "row_by key k rs = Some r"
  have "filter (\<lambda>r. key r = k \<and> C r) rs = filter C (filter (\<lambda>r. key r = k) rs)"
    by (auto intro: filter_cong)
  with filter_row_by [OF d(1), of k] d(2) show ?thesis by simp
qed

lemma update_by_key:
  assumes d: "distinct (map key rs)"
    and u: "update_where (\<lambda>r. key r = k \<and> C r) f rs = Inr (rs', out)" and "out \<noteq> []"
  shows "\<exists>r r'. row_by key k rs = Some r \<and> C r \<and> f r = Inr r' \<and> out = [r'] \<and>
           rs' = map (\<lambda>x. if key x = k then r' else x) rs"
proof -
  from u \<open>out \<noteq> []\<close> have "filter (\<lambda>r. key r = k \<and> C r) rs \<noteq> []"
    by (auto simp: update_where_Inr)
  then obtain r where r: "row_by key k rs = Some r" "C r"
    using d by (auto simp: filter_empty_conv row_by_Some)
  with filter_row_by_and [OF d r(1), of C] have fl: "filter (\<lambda>r. key r = k \<and> C r) rs = [r]"
    by simp
  from u r have "\<not> isl (f r)" by (auto simp: update_where_Inr dest: row_by_SomeD)
  then obtain r' where r': "f r = Inr r'" by (cases "f r") auto
  have "(if key x = k \<and> C x then projr (f x) else x) = (if key x = k then r' else x)"
    if "x \<in> set rs" for x
    using row_by_unique [OF d r(1) that] r(2) r' by auto
  with u have "rs' = map (\<lambda>x. if key x = k then r' else x) rs"
    by (auto simp: update_where_Inr)
  moreover have "out = [r']" using u fl r' by (simp add: update_where_Inr)
  ultimately show ?thesis using r r' by blast
qed

lemma map_at_key:
  "distinct (map key rs) \<Longrightarrow> row_by key k rs = Some r \<Longrightarrow> r' = g r \<Longrightarrow>
   map (\<lambda>x. if key x = k then r' else x) rs = map (\<lambda>x. if key x = k then g x else x) rs"
  by (auto dest: row_by_unique)

section \<open>What statements and transactions keep\<close>

definition holds :: "(tables \<Rightarrow> bool) \<Rightarrow> world \<Rightarrow> bool" where
  "holds I w \<longleftrightarrow> I (tables w) \<and> (\<forall>t. tx w = Some t \<longrightarrow> I t)"

definition sql_keeps :: "(tables \<Rightarrow> bool) \<Rightarrow> 'a sql \<Rightarrow> bool" where
  "sql_keeps I f \<longleftrightarrow> (\<forall>now t a t' ls. I t \<longrightarrow> f now t = Inr (a, t', ls) \<longrightarrow> I t')"

lemma next_stmt_simps [simp]:
  "tables (next_stmt w) = tables w" "tx (next_stmt w) = tx w" "locks (next_stmt w) = locks w"
  "charges (next_stmt w) = charges w" "env (next_stmt w) = env w"
  "stmt_no (next_stmt w) = Suc (stmt_no w)" "draw_no (next_stmt w) = draw_no w"
  by (simp_all add: next_stmt_def)

lemma db_now_next_stmt: "tx w \<noteq> None \<Longrightarrow> db_now (next_stmt w) = db_now w"
  by (auto simp: next_stmt_def)

lemma holds_next_stmt [simp]: "holds I (next_stmt w) = holds I w"
  by (simp add: holds_def)

lemma keeps_sql_stmt:
  "keeps (holds I) body \<Longrightarrow> keeps (holds I) (sql_stmt body)"
  by (auto simp: keeps_def sql_stmt_def Let_def split: fault.splits)

lemma keeps_on_tables: "sql_keeps I f \<Longrightarrow> keeps (holds I) (on_tables f)"
  by (simp add: keeps_def sql_keeps_def on_tables_def holds_def split: sum.splits prod.splits) blast

lemma keeps_exec_sql [keeps_intros]: "sql_keeps I f \<Longrightarrow> keeps (holds I) (exec_sql f)"
  unfolding exec_sql_def by (intro keeps_sql_stmt keeps_on_tables)

lemma keeps_exec_insert [keeps_intros]:
  "(\<And>u. sql_keeps I (f u)) \<Longrightarrow> keeps (holds I) (exec_insert f)"
  unfolding exec_insert_def
proof (rule keeps_sql_stmt, rule keepsI)
  fix w r w'
  assume f: "\<And>u. sql_keeps I (f u)" and w: "holds I w"
    and r: "on_tables (f (env_uuid (env w) (draw_no w))) (w\<lparr>draw_no := Suc (draw_no w)\<rparr>) = (r, w')"
  from w have "holds I (w\<lparr>draw_no := Suc (draw_no w)\<rparr>)" by (simp add: holds_def)
  from keepsD [OF keeps_on_tables [OF f] this r] show "holds I w'" .
qed

lemma keeps_query_rows [keeps_intros]: "keeps (holds I) (query_rows sel f)"
  unfolding query_rows_def by (rule keeps_sql_stmt) (simp add: keeps_def Let_def)

lemma keeps_BeginTx [keeps_intros]: "keeps (holds I) BeginTx"
  by (auto simp: keeps_def BeginTx_def Let_def holds_def)

lemma keeps_CommitTx [keeps_intros]: "keeps (holds I) CommitTx"
  by (auto simp: keeps_def CommitTx_def Let_def holds_def RollbackTx_def split: fault.splits option.splits)

lemma holds_RollbackTx: "holds I w \<Longrightarrow> holds I (RollbackTx w)"
  by (auto simp: holds_def RollbackTx_def split: option.splits)

section \<open>What a statement that succeeds has done\<close>

text \<open>
  \<open>same_tx w w'\<close>: the statements between \<open>w\<close> and \<open>w'\<close> belong to one transaction, so it has the
  same tables to return to and the same \<open>now()\<close>, nobody charged a payment, and draws only went on.
\<close>

definition same_tx :: "world \<Rightarrow> world \<Rightarrow> bool" where
  "same_tx w w' \<longleftrightarrow> tx w' = tx w \<and> env w' = env w \<and> charges w' = charges w \<and>
     (tx w \<noteq> None \<longrightarrow> db_now w' = db_now w) \<and> draw_no w \<le> draw_no w'"

definition stays :: "'a db_op \<Rightarrow> bool" where
  "stays f \<longleftrightarrow> (\<forall>w r w'. f w = (r, w') \<longrightarrow> same_tx w w')"

named_theorems stays_intros \<open>an operation that stays in its transaction\<close>

lemma same_tx_refl [simp]: "same_tx w w"
  by (simp add: same_tx_def)

lemma same_tx_trans: "same_tx w w' \<Longrightarrow> same_tx w' w'' \<Longrightarrow> same_tx w w''"
  by (simp add: same_tx_def)

lemma same_tx_next_stmt [simp]: "same_tx w (next_stmt w)"
  by (auto simp: same_tx_def db_now_next_stmt)

lemma staysI: "(\<And>w r w'. f w = (r, w') \<Longrightarrow> same_tx w w') \<Longrightarrow> stays f"
  by (simp add: stays_def)

lemma staysD: "stays f \<Longrightarrow> f w = (r, w') \<Longrightarrow> same_tx w w'"
  by (simp add: stays_def)

lemma stays_ret [stays_intros]: "stays (ret a)"
  by (simp add: stays_def ret_def)

lemma stays_fail [stays_intros]: "stays (fail e)"
  by (simp add: stays_def fail_def)

lemma stays_and_then [stays_intros]: "stays f \<Longrightarrow> (\<And>a. stays (g a)) \<Longrightarrow> stays (and_then f g)"
  unfolding stays_def and_then_def
  by (auto split: prod.splits sum.splits) (metis same_tx_trans)

lemma stays_map_err [stays_intros]: "stays f \<Longrightarrow> stays (map_err h f)"
  unfolding stays_def map_err_def by (auto split: prod.splits sum.splits)

lemma stays_map_ok [stays_intros]: "stays f \<Longrightarrow> stays (map_ok h f)"
  by (simp add: map_ok_def stays_intros)

lemma stays_if [stays_intros]: "stays f \<Longrightarrow> stays g \<Longrightarrow> stays (if b then f else g)"
  by simp

lemma same_tx_on_tables: "on_tables f w = (r, w') \<Longrightarrow> same_tx w w'"
  by (auto simp: on_tables_def same_tx_def split: sum.splits prod.splits)

lemma stays_sql_stmt: "stays body \<Longrightarrow> stays (sql_stmt body)"
proof (rule staysI)
  fix w r w'
  assume body: "stays body" and r: "sql_stmt body w = (r, w')"
  obtain r1 w1 where b: "body (next_stmt w) = (r1, w1)" by (cases "body (next_stmt w)")
  from staysD [OF body b] have "same_tx w w1"
    using same_tx_trans same_tx_next_stmt by blast
  with r b show "same_tx w w'"
    by (auto simp: sql_stmt_def Let_def split: fault.splits)
qed

lemma stays_exec_sql [stays_intros]: "stays (exec_sql f)"
  unfolding exec_sql_def by (intro stays_sql_stmt staysI) (rule same_tx_on_tables)

lemma stays_exec_insert [stays_intros]: "stays (exec_insert f)"
  unfolding exec_insert_def
proof (intro stays_sql_stmt staysI)
  fix w r w'
  assume "on_tables (f (env_uuid (env w) (draw_no w))) (w\<lparr>draw_no := Suc (draw_no w)\<rparr>) = (r, w')"
  from same_tx_on_tables [OF this] show "same_tx w w'" by (simp add: same_tx_def)
qed

lemma stays_query_rows [stays_intros]: "stays (query_rows sel f)"
  unfolding query_rows_def by (intro stays_sql_stmt staysI) (simp add: Let_def)

lemma sql_stmt_Inr: "sql_stmt body w = (Inr a, w') \<Longrightarrow> body (next_stmt w) = (Inr a, w')"
  by (auto simp: sql_stmt_def Let_def split: fault.splits)

lemma sql_stmt_Inl:
  "sql_stmt body w = (Inl e, w') \<Longrightarrow> e = ErrConn \<or> body (next_stmt w) = (Inl e, w')"
  by (auto simp: sql_stmt_def Let_def split: fault.splits)

lemma exec_sql_Inr:
  "exec_sql f w = (Inr a, w') \<Longrightarrow>
   \<exists>t ls. f (db_now w') (tables w) = Inr (a, t, ls) \<and> tables w' = t \<and> locks w' = locks w @ ls"
  unfolding exec_sql_def
  by (drule sql_stmt_Inr) (auto simp: on_tables_def split: sum.splits prod.splits)

lemma exec_sql_Inl:
  "exec_sql f w = (Inl e, w') \<Longrightarrow> e = ErrConn \<or> (\<exists>now. f now (tables w) = Inl e)"
  unfolding exec_sql_def
  by (drule sql_stmt_Inl) (auto simp: on_tables_def split: sum.splits prod.splits)

lemma exec_insert_Inr:
  "exec_insert f w = (Inr a, w') \<Longrightarrow>
   \<exists>u t ls. f u (db_now w') (tables w) = Inr (a, t, ls) \<and> tables w' = t \<and> locks w' = locks w @ ls"
  unfolding exec_insert_def
  by (drule sql_stmt_Inr) (auto simp: on_tables_def split: sum.splits prod.splits)

lemma query_rows_Inr:
  "query_rows sel f w = (Inr a, w') \<Longrightarrow>
   \<exists>rs. mset rs = mset (sel (tables w)) \<and> f rs = Inr a \<and> tables w' = tables w \<and> locks w' = locks w"
  unfolding query_rows_def
  by (drule sql_stmt_Inr) (auto simp: Let_def intro: mset_permute)

lemma query_rows_cases:
  "query_rows sel f w = (r, w') \<Longrightarrow>
   tables w' = tables w \<and> (r = Inl ErrConn \<or> (\<exists>rs. mset rs = mset (sel (tables w)) \<and> r = f rs))"
  by (auto simp: query_rows_def sql_stmt_def Let_def split: fault.splits intro: mset_permute)

text \<open>Every way a statement can go: without effect, with an error or none, or with its effect.\<close>

lemma exec_sql_elim [consumes 1, case_names none error effect]:
  assumes "exec_sql f w = (r, w')"
  obtains "tables w' = tables w" "r = Inl ErrConn"
    | now e where "tables w' = tables w" "f now (tables w) = Inl e" "r = Inl e"
    | now a ls where "f now (tables w) = Inr (a, tables w', ls)" "r = Inr a \<or> r = Inl ErrConn"
proof -
  from assms have "(tables w' = tables w \<and> (r = Inl ErrConn \<or> (\<exists>now e. f now (tables w) = Inl e \<and> r = Inl e))) \<or>
     (\<exists>now a ls. f now (tables w) = Inr (a, tables w', ls) \<and> (r = Inr a \<or> r = Inl ErrConn))"
    by (auto simp: exec_sql_def sql_stmt_def Let_def on_tables_def split: fault.splits sum.splits prod.splits)
  then show thesis using that by blast
qed

lemma exec_insert_elim [consumes 1, case_names none error effect]:
  assumes "exec_insert f w = (r, w')"
  obtains "tables w' = tables w" "r = Inl ErrConn"
    | u now e where "tables w' = tables w" "f u now (tables w) = Inl e" "r = Inl e"
    | u now a ls where "f u now (tables w) = Inr (a, tables w', ls)" "r = Inr a \<or> r = Inl ErrConn"
proof -
  from assms have "(tables w' = tables w \<and> (r = Inl ErrConn \<or> (\<exists>u now e. f u now (tables w) = Inl e \<and> r = Inl e))) \<or>
     (\<exists>u now a ls. f u now (tables w) = Inr (a, tables w', ls) \<and> (r = Inr a \<or> r = Inl ErrConn))"
    by (auto simp: exec_insert_def sql_stmt_def Let_def on_tables_def split: fault.splits sum.splits prod.splits)
  then show thesis using that by blast
qed

lemma exec_insert_frame:
  "exec_insert f w = (r, w') \<Longrightarrow>
   tx w' = tx w \<and> env w' = env w \<and> charges w' = charges w \<and> stmt_no w' = Suc (stmt_no w) \<and>
   draw_no w \<le> draw_no w'"
  by (auto simp: exec_insert_def sql_stmt_def Let_def on_tables_def split: fault.splits sum.splits prod.splits)

lemma exec_sql_frame:
  "exec_sql f w = (r, w') \<Longrightarrow>
   tx w' = tx w \<and> env w' = env w \<and> charges w' = charges w \<and> stmt_no w' = Suc (stmt_no w) \<and>
   draw_no w \<le> draw_no w'"
  by (auto simp: exec_sql_def sql_stmt_def Let_def on_tables_def split: fault.splits sum.splits prod.splits)

lemma query_rows_frame:
  "query_rows sel f w = (r, w') \<Longrightarrow>
   tx w' = tx w \<and> env w' = env w \<and> charges w' = charges w \<and> stmt_no w' = Suc (stmt_no w) \<and>
   draw_no w \<le> draw_no w'"
  by (auto simp: query_rows_def sql_stmt_def Let_def split: fault.splits)

lemma select_for_update_Inr [op_simps]:
  "select_for_update lk sel now t = Inr (r, t', ls) \<longleftrightarrow>
     (\<exists>rs. sel t = r # rs) \<and> t' = t \<and> ls = map lk (sel t)"
  by (auto simp: select_for_update_def one_row_def split: list.splits)

lemma select_for_update_Inl [op_simps]:
  "select_for_update lk sel now t = Inl e \<longleftrightarrow> sel t = [] \<and> e = ErrNoRows"
  by (auto simp: select_for_update_def one_row_def split: list.splits)

lemma sql_keeps_select_for_update [keeps_intros]: "sql_keeps I (select_for_update lk sel)"
  by (simp add: sql_keeps_def op_simps)

lemma update_table_Inr [op_simps]:
  "update_table lk get put P f now t = Inr (out, t', ls) \<longleftrightarrow>
     (\<exists>rs. update_where P (f now) (get t) = Inr (rs, out) \<and> t' = put rs t \<and> ls = concat (map lk out))"
  by (auto simp: update_table_def split: sum.splits prod.splits)

lemma update_table_Inl [op_simps]:
  "update_table lk get put P f now t = Inl e \<longleftrightarrow>
     (\<exists>d. update_where P (f now) (get t) = Inl d \<and> e = PgError d)"
  by (auto simp: update_table_def split: sum.splits prod.splits)

lemma returning_one_Inr [op_simps]:
  "returning_one f now t = Inr (r, t', ls) \<longleftrightarrow> (\<exists>rs. f now t = Inr (r # rs, t', ls))"
  by (auto simp: returning_one_def one_row_def split: sum.splits prod.splits list.splits)

lemma returning_one_Inl [op_simps]:
  "returning_one f now t = Inl e \<longleftrightarrow>
     f now t = Inl e \<or> (\<exists>t' ls. f now t = Inr ([], t', ls) \<and> e = ErrNoRows)"
  by (auto simp: returning_one_def one_row_def split: sum.splits prod.splits list.splits)

lemma rows_affected_Inr [op_simps]:
  "rows_affected f now t = Inr (n, t', ls) \<longleftrightarrow> (\<exists>out. f now t = Inr (out, t', ls) \<and> n = of_nat (length out))"
  by (auto simp: rows_affected_def split: sum.splits prod.splits)

lemma rows_affected_Inl [op_simps]: "rows_affected f now t = Inl e \<longleftrightarrow> f now t = Inl e"
  by (auto simp: rows_affected_def split: sum.splits prod.splits)

lemma unique_after_Inr [op_simps]:
  "unique_after uniq f now t = Inr (a, t', ls) \<longleftrightarrow> f now t = Inr (a, t', ls) \<and> uniq t'"
  by (auto simp: unique_after_def split: sum.splits prod.splits)

lemma unique_after_Inl [op_simps]:
  "unique_after uniq f now t = Inl e \<longleftrightarrow>
     f now t = Inl e \<or> (\<exists>a t' ls. f now t = Inr (a, t', ls) \<and> \<not> uniq t' \<and> e = PgError UniqueViolation)"
  by (auto simp: unique_after_def split: sum.splits prod.splits)

lemma sql_keeps_returning_one [keeps_intros]: "sql_keeps I f \<Longrightarrow> sql_keeps I (returning_one f)"
  unfolding sql_keeps_def by (auto simp: op_simps) blast

lemma sql_keeps_rows_affected [keeps_intros]: "sql_keeps I f \<Longrightarrow> sql_keeps I (rows_affected f)"
  unfolding sql_keeps_def by (auto simp: op_simps) blast

section \<open>Updates that keep the schema\<close>

lemma schema_ok_update_products:
  assumes "schema_ok t" and upd: "update_where P f (t_products t) = Inr (rs, out)"
    and id: "\<And>r r'. f r = Inr r' \<Longrightarrow> p_id r' = p_id r \<and> product_check r'"
    and "distinct (map p_name rs)"
  shows "schema_ok (t\<lparr>t_products := rs\<rparr>)"
proof -
  have ids: "map p_id rs = map p_id (t_products t)"
    using update_where_key [OF upd] id by blast
  then have "p_id ` set rs = p_id ` set (t_products t)"
    by (metis set_map)
  moreover have "\<forall>r \<in> set rs. product_check r"
    by (rule update_where_all [OF upd]) (use assms in \<open>auto simp: schema_ok_def\<close>)
  ultimately show ?thesis
    using assms ids by (simp add: schema_ok_def)
qed

lemma schema_ok_update_orders:
  assumes "schema_ok t" and upd: "update_where P f (t_orders t) = Inr (rs, out)"
    and id: "\<And>r r'. f r = Inr r' \<Longrightarrow> o_id r' = o_id r \<and> o_user_id r' = o_user_id r \<and> order_check r'"
  shows "schema_ok (t\<lparr>t_orders := rs\<rparr>)"
proof -
  have ids: "map o_id rs = map o_id (t_orders t)"
    using update_where_key [OF upd] id by blast
  then have "o_id ` set rs = o_id ` set (t_orders t)"
    by (metis set_map)
  moreover have "\<forall>r \<in> set rs. order_check r \<and> o_user_id r \<in> u_id ` set (t_users t)"
    by (rule update_where_all [OF upd]) (use assms in \<open>auto simp: schema_ok_def\<close>)
  ultimately show ?thesis
    using assms ids by (simp add: schema_ok_def)
qed

lemma schema_ok_update_payments:
  assumes "schema_ok t" and upd: "update_where P f (t_payments t) = Inr (rs, out)"
    and id: "\<And>r r'. f r = Inr r' \<Longrightarrow> y_id r' = y_id r \<and> y_order_id r' = y_order_id r \<and> payment_check r'"
    and "distinct (transaction_keys rs)"
  shows "schema_ok (t\<lparr>t_payments := rs\<rparr>)"
proof -
  have ids: "map y_id rs = map y_id (t_payments t)" "map y_order_id rs = map y_order_id (t_payments t)"
    using update_where_key [OF upd] id by blast+
  moreover have "\<forall>r \<in> set rs. payment_check r \<and> y_order_id r \<in> o_id ` set (t_orders t)"
    by (rule update_where_all [OF upd]) (use assms in \<open>auto simp: schema_ok_def\<close>)
  ultimately show ?thesis
    using assms by (simp add: schema_ok_def)
qed

lemma schema_ok_update_keys:
  assumes "schema_ok t" and upd: "update_where P f (t_keys t) = Inr (rs, out)"
    and id: "\<And>r r'. f r = Inr r' \<Longrightarrow> k_key r' = k_key r \<and> k_user_id r' = k_user_id r"
  shows "schema_ok (t\<lparr>t_keys := rs\<rparr>)"
proof -
  have ids: "map k_key rs = map k_key (t_keys t)"
    using update_where_key [OF upd] id by blast
  moreover have "\<forall>r \<in> set rs. k_user_id r \<in> u_id ` set (t_users t)"
    by (rule update_where_all [OF upd]) (use assms in \<open>auto simp: schema_ok_def\<close>)
  ultimately show ?thesis
    using assms by (simp add: schema_ok_def)
qed

section \<open>Outside and inside a transaction\<close>

definition idle :: "world \<Rightarrow> bool" where
  "idle w \<longleftrightarrow> tx w = None \<and> schema_ok (tables w)"

lemma idle_exec:
  "idle w \<Longrightarrow> sql_keeps schema_ok f \<Longrightarrow> exec_sql f w = (r, w') \<Longrightarrow> idle w'"
  using exec_sql_frame [of f w r w'] keepsD [OF keeps_exec_sql, of schema_ok f w r w']
  by (auto simp: idle_def holds_def)

lemma idle_insert:
  "idle w \<Longrightarrow> (\<And>u. sql_keeps schema_ok (f u)) \<Longrightarrow> exec_insert f w = (r, w') \<Longrightarrow> idle w'"
  using exec_insert_frame [of f w r w'] keepsD [OF keeps_exec_insert, of schema_ok f w r w']
  by (auto simp: idle_def holds_def)

definition live :: "world \<Rightarrow> bool" where
  "live w \<longleftrightarrow> tx w \<noteq> None \<and> holds schema_ok w"

lemma liveD: "live w \<Longrightarrow> schema_ok (tables w)"
  by (simp add: live_def holds_def)

lemma live_step:
  "live w \<Longrightarrow> stays f \<Longrightarrow> keeps (holds schema_ok) f \<Longrightarrow> f w = (r, w') \<Longrightarrow> live w' \<and> db_now w' = db_now w"
  by (auto simp: live_def same_tx_def dest: staysD keepsD)

lemma distinct_ids:
  "schema_ok t \<Longrightarrow> distinct (map p_id (t_products t))"
  "schema_ok t \<Longrightarrow> distinct (map o_id (t_orders t))"
  by (simp_all add: schema_ok_def)

lemma live_begin: "BeginTx w = (Inr (), w') \<Longrightarrow> idle w \<Longrightarrow>
  live w' \<and> tables w' = tables w \<and> tx w' = Some (tables w) \<and> locks w' = [] \<and>
  env w' = env w \<and> charges w' = charges w \<and> draw_no w' = draw_no w"
  by (auto simp: BeginTx_def Let_def live_def idle_def holds_def split: if_splits)

lemma BeginTx_Inl: "BeginTx w = (Inl e, w') \<Longrightarrow>
  tables w' = tables w \<and> tx w' = tx w \<and> env w' = env w \<and> charges w' = charges w \<and>
  draw_no w' = draw_no w"
  by (auto simp: BeginTx_def Let_def split: if_splits)

lemma CommitTx_Inr: "CommitTx w = (Inr (), w') \<Longrightarrow>
  tables w' = tables w \<and> tx w' = None \<and> locks w' = locks w \<and> env w' = env w \<and> charges w' = charges w \<and>
  draw_no w' = draw_no w"
  by (auto simp: CommitTx_def Let_def split: fault.splits)

lemma CommitTx_Inl: "CommitTx w = (Inl e, w') \<Longrightarrow>
  (tables w' = tables w \<or> tx w = Some (tables w')) \<and> (tx w \<noteq> None \<longrightarrow> tx w' = None) \<and>
  env w' = env w \<and> charges w' = charges w \<and> draw_no w' = draw_no w"
  by (auto simp: CommitTx_def RollbackTx_def Let_def split: fault.splits option.splits)

lemma RollbackTx_simps:
  "tx w = Some t \<Longrightarrow> tables (RollbackTx w) = t"
  "tx (RollbackTx w) = None"
  "env (RollbackTx w) = env w" "charges (RollbackTx w) = charges w" "draw_no (RollbackTx w) = draw_no w"
  by (auto simp: RollbackTx_def split: option.splits)

section \<open>Without faults\<close>

definition faultless :: "world \<Rightarrow> bool" where
  "faultless w \<longleftrightarrow> (\<forall>n. env_fault (env w) n = Works)"

lemma faultless_env: "env w' = env w \<Longrightarrow> faultless w' = faultless w"
  by (simp add: faultless_def)

lemma faultless_exec_Inl:
  "faultless w \<Longrightarrow> exec_sql f w = (Inl e, w') \<Longrightarrow> f (db_now w') (tables w) = Inl e \<and> tables w' = tables w"
  by (auto simp: exec_sql_def sql_stmt_def Let_def faultless_def on_tables_def split: sum.splits prod.splits)

lemma faultless_insert_Inl:
  "faultless w \<Longrightarrow> exec_insert f w = (Inl e, w') \<Longrightarrow>
   f (env_uuid (env w) (draw_no w)) (db_now w') (tables w) = Inl e \<and> tables w' = tables w"
  by (auto simp: exec_insert_def sql_stmt_def Let_def faultless_def on_tables_def split: sum.splits prod.splits)

lemma faultless_query_Inl:
  "faultless w \<Longrightarrow> query_rows sel f w = (Inl e, w') \<Longrightarrow>
   \<exists>rs. mset rs = mset (sel (tables w)) \<and> f rs = Inl e"
  by (auto simp: query_rows_def sql_stmt_def Let_def faultless_def intro: mset_permute)

lemma faultless_BeginTx: "faultless w \<Longrightarrow> fst (BeginTx w) = Inr ()"
  by (simp add: faultless_def BeginTx_def Let_def)

lemma faultless_CommitTx: "faultless w \<Longrightarrow> fst (CommitTx w) = Inr ()"
  by (simp add: faultless_def CommitTx_def Let_def)

lemma faultless_lock_Inl:
  assumes "faultless w" and "exec_sql (select_for_update lk sel) w = (Inl e, w')"
  shows "sel (tables w) = [] \<and> e = ErrNoRows"
  using faultless_exec_Inl [OF assms] by (simp add: op_simps)

end
