(* ===== verification/Order_Store.thy ===== *)
theory Order_Store
  imports Database
begin

text \<open>
  The persistence side of the order package: its model structs (\<open>order_model.go\<close>), the SQL
  statements (\<open>order/sqlc/orders.sql.go\<close>), the repository functions that call them and the
  transaction wrapper \<open>WithinTx\<close> (\<open>order_store.go\<close>). The interface \<open>Store\<close> the service is written
  against is a record of operations, and the locale \<open>order_store\<close> says what they promise.
\<close>

section \<open>Model structs\<close>

record Order =
  Order_ID :: uuid
  Order_UserID :: uuid
  Order_Status :: string
  Order_TotalAmount :: goint
  Order_CreatedAt :: time
  Order_UpdatedAt :: time

record OrderItem =
  OrderItem_ID :: uuid
  OrderItem_OrderID :: uuid
  OrderItem_ProductID :: uuid
  OrderItem_Quantity :: goint
  OrderItem_Price :: goint
  OrderItem_SubTotal :: goint
  OrderItem_CreatedAt :: time
  OrderItem_UpdatedAt :: time

record Product =
  Product_ID :: uuid
  Product_Name :: string
  Product_Description :: string
  Product_Price :: goint
  Product_Stock :: goint
  Product_CreatedAt :: time
  Product_UpdatedAt :: time

record Payment =
  Payment_ID :: uuid
  Payment_OrderID :: uuid
  Payment_Amount :: goint
  Payment_Status :: string
  Payment_TransactionID :: "string option"
  Payment_Provider :: string
  Payment_CreatedAt :: time
  Payment_UpdatedAt :: time

record CreateOrderItemRequest =
  req_ProductID :: uuid
  req_Quantity :: goint

record CreateOrderItemParams =
  prm_OrderID :: uuid
  prm_ProductID :: uuid
  prm_Quantity :: goint
  prm_Price :: goint

section \<open>The SQL statements\<close>

text \<open>
  \<open>LockProductForUpdate\<close>, \<open>DecreaseProductStock\<close>, \<open>IncreaseProductStock\<close>: the products table. The
  parameter \<open>$1\<close> of the stock updates is an \<open>INT\<close>, so the sum or difference is computed in 32 bits
  and raises outside them.
\<close>

definition lockProductForUpdate :: "uuid \<Rightarrow> product_row sql" where
  "lockProductForUpdate pid =
     select_for_update (\<lambda>r. ProductLock (p_id r)) (\<lambda>t. filter (\<lambda>r. p_id r = pid) (t_products t))"

definition sql_LockProductForUpdate :: "uuid \<Rightarrow> product_row db_op" where
  "sql_LockProductForUpdate pid = exec_sql (lockProductForUpdate pid)"

definition set_stock :: "int32 option \<Rightarrow> time \<Rightarrow> product_row \<Rightarrow> sqlstate + product_row" where
  "set_stock s now r =
     (case s of
        None \<Rightarrow> Inl NumericValueOutOfRange
      | Some n \<Rightarrow> checked product_check (r\<lparr>p_stock := n, p_updated_at := now\<rparr>))"

definition update_products ::
  "(product_row \<Rightarrow> bool) \<Rightarrow> (time \<Rightarrow> product_row \<Rightarrow> sqlstate + product_row) \<Rightarrow> product_row list sql" where
  "update_products =
     update_table (\<lambda>r. [ProductLock (p_id r)]) t_products (\<lambda>rs t. t\<lparr>t_products := rs\<rparr>)"

definition decreaseProductStock :: "int32 \<Rightarrow> uuid \<Rightarrow> int64 sql" where
  "decreaseProductStock stock pid =
     rows_affected
       (update_products (\<lambda>r. p_id r = pid \<and> stock \<le>s p_stock r)
          (\<lambda>now r. set_stock (int4_sub (p_stock r) stock) now r))"

definition sql_DecreaseProductStock :: "int32 \<Rightarrow> uuid \<Rightarrow> int64 db_op" where
  "sql_DecreaseProductStock stock pid = exec_sql (decreaseProductStock stock pid)"

definition increaseProductStock :: "int32 \<Rightarrow> uuid \<Rightarrow> int64 sql" where
  "increaseProductStock stock pid =
     rows_affected
       (update_products (\<lambda>r. p_id r = pid)
          (\<lambda>now r. set_stock (int4_add (p_stock r) stock) now r))"

definition sql_IncreaseProductStock :: "int32 \<Rightarrow> uuid \<Rightarrow> int64 db_op" where
  "sql_IncreaseProductStock stock pid = exec_sql (increaseProductStock stock pid)"

text \<open>
  The inserts. A row the constraints refuse raises: the \<open>CHECK\<close>s first, then the unique indexes,
  then the foreign keys.
\<close>

definition new_order :: "uuid \<Rightarrow> int64 \<Rightarrow> uuid \<Rightarrow> time \<Rightarrow> order_row" where
  "new_order user_id total_amount u now =
     \<lparr>o_id = u, o_user_id = user_id, o_status = ''pending'', o_total_amount = total_amount,
      o_created_at = now, o_updated_at = now\<rparr>"

definition createOrder :: "uuid \<Rightarrow> int64 \<Rightarrow> uuid \<Rightarrow> order_row sql" where
  "createOrder user_id total_amount u now t =
     (let r = new_order user_id total_amount u now in
      if \<not> order_check r then Inl (PgError CheckViolation)
      else if u \<in> o_id ` set (t_orders t) then Inl (PgError UniqueViolation)
      else if user_id \<notin> u_id ` set (t_users t) then Inl (PgError ForeignKeyViolation)
      else Inr (r, t\<lparr>t_orders := t_orders t @ [r]\<rparr>, []))"

definition sql_CreateOrder :: "uuid \<Rightarrow> int64 \<Rightarrow> order_row db_op" where
  "sql_CreateOrder user_id total_amount = exec_insert (createOrder user_id total_amount)"

definition new_item :: "uuid \<Rightarrow> uuid \<Rightarrow> int32 \<Rightarrow> int64 \<Rightarrow> int64 \<Rightarrow> uuid \<Rightarrow> time \<Rightarrow> item_row" where
  "new_item order_id product_id quantity price subtotal u now =
     \<lparr>i_id = u, i_order_id = order_id, i_product_id = product_id, i_quantity = quantity,
      i_price = price, i_subtotal = subtotal, i_created_at = now, i_updated_at = now\<rparr>"

definition createOrderItem ::
  "uuid \<Rightarrow> uuid \<Rightarrow> int32 \<Rightarrow> int64 \<Rightarrow> int64 \<Rightarrow> uuid \<Rightarrow> item_row sql" where
  "createOrderItem order_id product_id quantity price subtotal u now t =
     (let r = new_item order_id product_id quantity price subtotal u now in
      if \<not> item_check r then Inl (PgError CheckViolation)
      else if u \<in> i_id ` set (t_items t) then Inl (PgError UniqueViolation)
      else if order_id \<notin> o_id ` set (t_orders t) \<or> product_id \<notin> p_id ` set (t_products t)
      then Inl (PgError ForeignKeyViolation)
      else Inr (r, t\<lparr>t_items := t_items t @ [r]\<rparr>, []))"

definition sql_CreateOrderItem ::
  "uuid \<Rightarrow> uuid \<Rightarrow> int32 \<Rightarrow> int64 \<Rightarrow> int64 \<Rightarrow> item_row db_op" where
  "sql_CreateOrderItem order_id product_id quantity price subtotal =
     exec_insert (createOrderItem order_id product_id quantity price subtotal)"

definition new_payment :: "uuid \<Rightarrow> int64 \<Rightarrow> string \<Rightarrow> string option \<Rightarrow> uuid \<Rightarrow> time \<Rightarrow> payment_row" where
  "new_payment order_id amount provider transaction_id u now =
     \<lparr>y_id = u, y_order_id = order_id, y_amount = amount, y_status = ''pending'',
      y_provider = provider, y_transaction_id = transaction_id,
      y_created_at = now, y_updated_at = now\<rparr>"

definition createPayment ::
  "uuid \<Rightarrow> int64 \<Rightarrow> string \<Rightarrow> string option \<Rightarrow> uuid \<Rightarrow> payment_row sql" where
  "createPayment order_id amount provider transaction_id u now t =
     (let r = new_payment order_id amount provider transaction_id u now;
          rs = t_payments t @ [r] in
      if \<not> payment_check r then Inl (PgError CheckViolation)
      else if u \<in> y_id ` set (t_payments t) \<or> order_id \<in> y_order_id ` set (t_payments t) \<or>
              \<not> distinct (transaction_keys rs)
      then Inl (PgError UniqueViolation)
      else if order_id \<notin> o_id ` set (t_orders t) then Inl (PgError ForeignKeyViolation)
      else Inr (r, t\<lparr>t_payments := rs\<rparr>, []))"

definition sql_CreatePayment ::
  "uuid \<Rightarrow> int64 \<Rightarrow> string \<Rightarrow> string option \<Rightarrow> payment_row db_op" where
  "sql_CreatePayment order_id amount provider transaction_id =
     exec_insert (createPayment order_id amount provider transaction_id)"

text \<open>Reading, locking and updating orders.\<close>

definition getOrderByID :: "uuid \<Rightarrow> uuid \<Rightarrow> tables \<Rightarrow> order_row list" where
  "getOrderByID oid user_id t = filter (\<lambda>r. o_id r = oid \<and> o_user_id r = user_id) (t_orders t)"

definition sql_GetOrderByID :: "uuid \<Rightarrow> uuid \<Rightarrow> order_row db_op" where
  "sql_GetOrderByID oid user_id = query_rows (getOrderByID oid user_id) one_row"

definition getOrderItemsByOrderID :: "uuid \<Rightarrow> tables \<Rightarrow> item_row list" where
  "getOrderItemsByOrderID order_id t = filter (\<lambda>r. i_order_id r = order_id) (t_items t)"

definition sql_GetOrderItemsByOrderID :: "uuid \<Rightarrow> item_row list db_op" where
  "sql_GetOrderItemsByOrderID order_id = query_rows (getOrderItemsByOrderID order_id) Inr"

definition getOrders :: "uuid \<Rightarrow> tables \<Rightarrow> order_row list" where
  "getOrders user_id t = filter (\<lambda>r. o_user_id r = user_id) (t_orders t)"

definition sql_GetOrders :: "uuid \<Rightarrow> order_row list db_op" where
  "sql_GetOrders user_id = query_rows (getOrders user_id) Inr"

definition lockOrderForUpdate :: "uuid \<Rightarrow> uuid \<Rightarrow> order_row sql" where
  "lockOrderForUpdate user_id oid =
     select_for_update (\<lambda>r. OrderLock (o_id r)) (\<lambda>t. filter (\<lambda>r. o_user_id r = user_id \<and> o_id r = oid) (t_orders t))"

definition sql_LockOrderForUpdate :: "uuid \<Rightarrow> uuid \<Rightarrow> order_row db_op" where
  "sql_LockOrderForUpdate user_id oid = exec_sql (lockOrderForUpdate user_id oid)"

definition update_orders ::
  "(order_row \<Rightarrow> bool) \<Rightarrow> string \<Rightarrow> order_row list sql" where
  "update_orders P status =
     update_table (\<lambda>r. [OrderLock (o_id r)]) t_orders (\<lambda>rs t. t\<lparr>t_orders := rs\<rparr>) P
       (\<lambda>now r. checked order_check (r\<lparr>o_status := status, o_updated_at := now\<rparr>))"

definition updateOrderStatus :: "string \<Rightarrow> uuid \<Rightarrow> uuid \<Rightarrow> order_row sql" where
  "updateOrderStatus status oid user_id =
     returning_one (update_orders (\<lambda>r. o_id r = oid \<and> o_user_id r = user_id) status)"

definition sql_UpdateOrderStatus :: "string \<Rightarrow> uuid \<Rightarrow> uuid \<Rightarrow> order_row db_op" where
  "sql_UpdateOrderStatus status oid user_id = exec_sql (updateOrderStatus status oid user_id)"

section \<open>The repository\<close>

text \<open>
  Each function calls its query and converts: \<open>pgx.ErrNoRows\<close> becomes the domain's error, a row
  becomes the model struct (\<open>INT\<close> columns are sign-extended to \<open>int\<close>), an \<open>int\<close> argument for an
  \<open>INT\<close> column is truncated to 32 bits.
\<close>

definition not_found :: "go_error \<Rightarrow> go_error \<Rightarrow> go_error" where
  "not_found target err = (if errors_Is err ErrNoRows then target else err)"

definition productFromSqlc :: "product_row \<Rightarrow> Product" where
  "productFromSqlc r = \<lparr>Product_ID = p_id r, Product_Name = p_name r,
     Product_Description = p_description r, Product_Price = p_price r,
     Product_Stock = goint_of (p_stock r), Product_CreatedAt = p_created_at r,
     Product_UpdatedAt = p_updated_at r\<rparr>"

definition orderFromSqlc :: "order_row \<Rightarrow> Order" where
  "orderFromSqlc r = \<lparr>Order_ID = o_id r, Order_UserID = o_user_id r, Order_Status = o_status r,
     Order_TotalAmount = o_total_amount r, Order_CreatedAt = o_created_at r,
     Order_UpdatedAt = o_updated_at r\<rparr>"

definition itemFromSqlc :: "item_row \<Rightarrow> OrderItem" where
  "itemFromSqlc r = \<lparr>OrderItem_ID = i_id r, OrderItem_OrderID = i_order_id r,
     OrderItem_ProductID = i_product_id r, OrderItem_Quantity = goint_of (i_quantity r),
     OrderItem_Price = i_price r, OrderItem_SubTotal = i_subtotal r,
     OrderItem_CreatedAt = i_created_at r, OrderItem_UpdatedAt = i_updated_at r\<rparr>"

definition store_LockProductForUpdate :: "uuid \<Rightarrow> Product db_op" where
  "store_LockProductForUpdate productID =
     map_ok productFromSqlc
       (map_err (not_found (ProductErr ErrProductNotFound)) (sql_LockProductForUpdate productID))"

definition store_DecreaseProductStock :: "uuid \<Rightarrow> goint \<Rightarrow> int64 db_op" where
  "store_DecreaseProductStock productID quantity =
     sql_DecreaseProductStock (int32_of quantity) productID"

definition store_IncreaseProductStock :: "uuid \<Rightarrow> goint \<Rightarrow> int64 db_op" where
  "store_IncreaseProductStock productID quantity =
     sql_IncreaseProductStock (int32_of quantity) productID"

definition store_CreateOrder :: "uuid \<Rightarrow> goint \<Rightarrow> Order db_op" where
  "store_CreateOrder userID totalAmount = map_ok orderFromSqlc (sql_CreateOrder userID totalAmount)"

text \<open>\<open>Subtotal: int64(params.Price) * int64(params.Quantity)\<close>: the 64-bit product, not the truncated one.\<close>

definition store_CreateOrderItem :: "CreateOrderItemParams \<Rightarrow> OrderItem db_op" where
  "store_CreateOrderItem params =
     map_ok itemFromSqlc
       (sql_CreateOrderItem (prm_OrderID params) (prm_ProductID params)
          (int32_of (prm_Quantity params)) (prm_Price params)
          (prm_Price params * prm_Quantity params))"

text \<open>
  \<open>TransactionID: &sqlcPayment.TransactionID.String\<close> points to the empty string when the column is
  \<open>NULL\<close>: the pointer is never nil.
\<close>

definition paymentFromSqlc_order :: "payment_row \<Rightarrow> Payment" where
  "paymentFromSqlc_order r = \<lparr>Payment_ID = y_id r, Payment_OrderID = y_order_id r,
     Payment_Amount = y_amount r, Payment_Status = y_status r,
     Payment_TransactionID = Some (case y_transaction_id r of None \<Rightarrow> [] | Some s \<Rightarrow> s),
     Payment_Provider = y_provider r, Payment_CreatedAt = y_created_at r,
     Payment_UpdatedAt = y_updated_at r\<rparr>"

definition store_CreatePayment :: "uuid \<Rightarrow> goint \<Rightarrow> Payment db_op" where
  "store_CreatePayment orderID amount =
     map_ok paymentFromSqlc_order (sql_CreatePayment orderID amount ''fake'' None)"

definition store_LockOrderForUpdate :: "uuid \<Rightarrow> uuid \<Rightarrow> Order db_op" where
  "store_LockOrderForUpdate userID orderID =
     map_ok orderFromSqlc
       (map_err (not_found (OrderErr ErrOrderNotFound)) (sql_LockOrderForUpdate userID orderID))"

definition store_GetOrderItemsByOrderID :: "uuid \<Rightarrow> OrderItem list db_op" where
  "store_GetOrderItemsByOrderID orderID =
     map_ok (map itemFromSqlc) (sql_GetOrderItemsByOrderID orderID)"

definition store_UpdateOrderStatus :: "uuid \<Rightarrow> uuid \<Rightarrow> string \<Rightarrow> Order db_op" where
  "store_UpdateOrderStatus userID orderID status =
     map_ok orderFromSqlc
       (map_err (not_found (OrderErr ErrOrderNotFound)) (sql_UpdateOrderStatus status orderID userID))"

text \<open>\<open>GetOrders\<close> fills in the user it was asked for instead of the column.\<close>

definition store_GetOrders :: "uuid \<Rightarrow> Order list db_op" where
  "store_GetOrders userID =
     map_ok (map (\<lambda>r. (orderFromSqlc r)\<lparr>Order_UserID := userID\<rparr>)) (sql_GetOrders userID)"

definition store_GetOrderByID :: "uuid \<Rightarrow> uuid \<Rightarrow> Order db_op" where
  "store_GetOrderByID userID orderID =
     map_ok orderFromSqlc
       (map_err (not_found (OrderErr ErrOrderNotFound)) (sql_GetOrderByID orderID userID))"

text \<open>
  \<open>WithinTx\<close>: begin, run the function, roll back if it fails, commit otherwise. The deferred
  rollback after a commit does nothing.
\<close>

definition WithinTx :: "'a db_op \<Rightarrow> 'a db_op" where
  "WithinTx fn =
     and_then BeginTx (\<lambda>_ w.
       case fn w of
         (Inl e, w1) \<Rightarrow> (Inl e, RollbackTx w1)
       | (Inr a, w1) \<Rightarrow> (case CommitTx w1 of (Inl e, w2) \<Rightarrow> (Inl e, w2) | (Inr _, w2) \<Rightarrow> (Inr a, w2)))"

section \<open>The \<open>Store\<close> interface\<close>

record 's store =
  st_LockProductForUpdate :: "uuid \<Rightarrow> ('s, go_error, Product) op"
  st_DecreaseProductStock :: "uuid \<Rightarrow> goint \<Rightarrow> ('s, go_error, int64) op"
  st_IncreaseProductStock :: "uuid \<Rightarrow> goint \<Rightarrow> ('s, go_error, int64) op"
  st_CreateOrder :: "uuid \<Rightarrow> goint \<Rightarrow> ('s, go_error, Order) op"
  st_CreateOrderItem :: "CreateOrderItemParams \<Rightarrow> ('s, go_error, OrderItem) op"
  st_CreatePayment :: "uuid \<Rightarrow> goint \<Rightarrow> ('s, go_error, Payment) op"
  st_LockOrderForUpdate :: "uuid \<Rightarrow> uuid \<Rightarrow> ('s, go_error, Order) op"
  st_GetOrderItemsByOrderID :: "uuid \<Rightarrow> ('s, go_error, OrderItem list) op"
  st_UpdateOrderStatus :: "uuid \<Rightarrow> uuid \<Rightarrow> string \<Rightarrow> ('s, go_error, Order) op"
  st_GetOrders :: "uuid \<Rightarrow> ('s, go_error, Order list) op"
  st_GetOrderByID :: "uuid \<Rightarrow> uuid \<Rightarrow> ('s, go_error, Order) op"

definition order_repository :: "world store" where
  "order_repository = \<lparr>
     st_LockProductForUpdate = store_LockProductForUpdate,
     st_DecreaseProductStock = store_DecreaseProductStock,
     st_IncreaseProductStock = store_IncreaseProductStock,
     st_CreateOrder = store_CreateOrder,
     st_CreateOrderItem = store_CreateOrderItem,
     st_CreatePayment = store_CreatePayment,
     st_LockOrderForUpdate = store_LockOrderForUpdate,
     st_GetOrderItemsByOrderID = store_GetOrderItemsByOrderID,
     st_UpdateOrderStatus = store_UpdateOrderStatus,
     st_GetOrders = store_GetOrders,
     st_GetOrderByID = store_GetOrderByID\<rparr>"

lemma order_repository_simps [simp]:
  "st_LockProductForUpdate order_repository = store_LockProductForUpdate"
  "st_DecreaseProductStock order_repository = store_DecreaseProductStock"
  "st_IncreaseProductStock order_repository = store_IncreaseProductStock"
  "st_CreateOrder order_repository = store_CreateOrder"
  "st_CreateOrderItem order_repository = store_CreateOrderItem"
  "st_CreatePayment order_repository = store_CreatePayment"
  "st_LockOrderForUpdate order_repository = store_LockOrderForUpdate"
  "st_GetOrderItemsByOrderID order_repository = store_GetOrderItemsByOrderID"
  "st_UpdateOrderStatus order_repository = store_UpdateOrderStatus"
  "st_GetOrders order_repository = store_GetOrders"
  "st_GetOrderByID order_repository = store_GetOrderByID"
  by (simp_all add: order_repository_def)

section \<open>Every statement keeps the schema\<close>

lemma set_stock_Inr [op_simps]:
  "set_stock s now r = Inr r' \<longleftrightarrow>
     (\<exists>n. s = Some n \<and> r' = r\<lparr>p_stock := n, p_updated_at := now\<rparr> \<and> product_check r')"
  by (auto simp: set_stock_def op_simps split: option.splits)

lemma keeps_update_stock:
  "sql_keeps schema_ok (update_products P (\<lambda>now r. set_stock (s r) now r))"
  unfolding sql_keeps_def update_products_def
proof (intro allI impI)
  fix now t out t' ls
  assume t: "schema_ok t"
    and r: "update_table (\<lambda>r. [ProductLock (p_id r)]) t_products (\<lambda>rs t. t\<lparr>t_products := rs\<rparr>) P
              (\<lambda>now r. set_stock (s r) now r) now t = Inr (out, t', ls)"
  from r obtain rs where u: "update_where P (\<lambda>r. set_stock (s r) now r) (t_products t) = Inr (rs, out)"
    and t': "t' = t\<lparr>t_products := rs\<rparr>"
    by (auto simp: op_simps)
  have "map p_name rs = map p_name (t_products t)"
    by (rule update_where_key [OF u]) (auto simp: op_simps)
  with t have "distinct (map p_name rs)" by (simp add: schema_ok_def)
  then show "schema_ok t'"
    unfolding t' by (intro schema_ok_update_products [OF t u]) (auto simp: op_simps)
qed

lemma keeps_decreaseProductStock [keeps_intros]: "sql_keeps schema_ok (decreaseProductStock q pid)"
  unfolding decreaseProductStock_def
  by (intro sql_keeps_rows_affected keeps_update_stock)

lemma keeps_increaseProductStock [keeps_intros]: "sql_keeps schema_ok (increaseProductStock q pid)"
  unfolding increaseProductStock_def
  by (intro sql_keeps_rows_affected keeps_update_stock)

lemma keeps_createOrder [keeps_intros]: "sql_keeps schema_ok (createOrder user_id amt u)"
  unfolding sql_keeps_def createOrder_def Let_def new_order_def
  by (auto simp: schema_ok_def split: if_splits)

lemma keeps_createOrderItem [keeps_intros]:
  "sql_keeps schema_ok (createOrderItem order_id product_id q p s u)"
  unfolding sql_keeps_def createOrderItem_def Let_def new_item_def
  by (auto simp: schema_ok_def split: if_splits)

lemma keeps_createPayment [keeps_intros]:
  "sql_keeps schema_ok (createPayment order_id amount provider txn u)"
  unfolding sql_keeps_def createPayment_def Let_def new_payment_def
  by (auto simp: schema_ok_def split: if_splits)

lemma keeps_update_orders [keeps_intros]: "sql_keeps schema_ok (update_orders P status)"
  unfolding sql_keeps_def update_orders_def
proof (intro allI impI)
  fix now t out t' ls
  assume t: "schema_ok t"
    and r: "update_table (\<lambda>r. [OrderLock (o_id r)]) t_orders (\<lambda>rs t. t\<lparr>t_orders := rs\<rparr>) P
       (\<lambda>now r. checked order_check (r\<lparr>o_status := status, o_updated_at := now\<rparr>)) now t = Inr (out, t', ls)"
  then show "schema_ok t'"
    by (auto simp: op_simps intro!: schema_ok_update_orders)
qed

lemmas sql_defs =
  sql_LockProductForUpdate_def sql_DecreaseProductStock_def sql_IncreaseProductStock_def
  sql_CreateOrder_def sql_CreateOrderItem_def sql_CreatePayment_def sql_GetOrderByID_def
  sql_GetOrderItemsByOrderID_def sql_GetOrders_def sql_LockOrderForUpdate_def
  sql_UpdateOrderStatus_def

lemmas store_defs =
  store_LockProductForUpdate_def store_DecreaseProductStock_def store_IncreaseProductStock_def
  store_CreateOrder_def store_CreateOrderItem_def store_CreatePayment_def
  store_LockOrderForUpdate_def store_GetOrderItemsByOrderID_def store_UpdateOrderStatus_def
  store_GetOrders_def store_GetOrderByID_def

lemmas order_statement_defs =
  lockProductForUpdate_def lockOrderForUpdate_def updateOrderStatus_def

lemma store_keeps_schema [keeps_intros]:
  "keeps (holds schema_ok) (store_LockProductForUpdate pid)"
  "keeps (holds schema_ok) (store_DecreaseProductStock pid q)"
  "keeps (holds schema_ok) (store_IncreaseProductStock pid q)"
  "keeps (holds schema_ok) (store_CreateOrder uid amt)"
  "keeps (holds schema_ok) (store_CreateOrderItem params)"
  "keeps (holds schema_ok) (store_CreatePayment oid amount)"
  "keeps (holds schema_ok) (store_LockOrderForUpdate uid oid)"
  "keeps (holds schema_ok) (store_GetOrderItemsByOrderID oid)"
  "keeps (holds schema_ok) (store_UpdateOrderStatus uid oid status)"
  "keeps (holds schema_ok) (store_GetOrders uid)"
  "keeps (holds schema_ok) (store_GetOrderByID uid oid)"
  unfolding store_defs sql_defs order_statement_defs by (intro keeps_intros)+

lemma store_stays [stays_intros]:
  "stays (store_LockProductForUpdate pid)" "stays (store_DecreaseProductStock pid q)"
  "stays (store_IncreaseProductStock pid q)" "stays (store_CreateOrder uid amt)"
  "stays (store_CreateOrderItem params)" "stays (store_CreatePayment oid amount)"
  "stays (store_LockOrderForUpdate uid oid)" "stays (store_GetOrderItemsByOrderID oid)"
  "stays (store_UpdateOrderStatus uid oid status)" "stays (store_GetOrders uid)"
  "stays (store_GetOrderByID uid oid)"
  unfolding store_defs sql_defs by (intro stays_intros)+

section \<open>What each operation does when it succeeds\<close>

definition dec_stock :: "uuid \<Rightarrow> int32 \<Rightarrow> time \<Rightarrow> product_row list \<Rightarrow> product_row list" where
  "dec_stock pid q now rs =
     map (\<lambda>r. if p_id r = pid then r\<lparr>p_stock := p_stock r - q, p_updated_at := now\<rparr> else r) rs"

definition inc_stock :: "uuid \<Rightarrow> int32 \<Rightarrow> time \<Rightarrow> product_row list \<Rightarrow> product_row list" where
  "inc_stock pid q now rs =
     map (\<lambda>r. if p_id r = pid then r\<lparr>p_stock := p_stock r + q, p_updated_at := now\<rparr> else r) rs"

definition set_status :: "uuid \<Rightarrow> string \<Rightarrow> time \<Rightarrow> order_row list \<Rightarrow> order_row list" where
  "set_status oid status now rs =
     map (\<lambda>r. if o_id r = oid then r\<lparr>o_status := status, o_updated_at := now\<rparr> else r) rs"

lemma store_LockProductForUpdate_Inr:
  assumes "live w" and r: "store_LockProductForUpdate pid w = (Inr p, w')"
  shows "live w' \<and> db_now w' = db_now w \<and> tables w' = tables w \<and>
    locks w' = locks w @ [ProductLock pid] \<and>
    (\<exists>r. row_by p_id pid (t_products (tables w)) = Some r \<and> p = productFromSqlc r)"
proof -
  from r obtain r where "p = productFromSqlc r" and e: "sql_LockProductForUpdate pid w = (Inr r, w')"
    by (auto simp: store_LockProductForUpdate_def op_simps)
  have f: "filter (\<lambda>r. p_id r = pid) (t_products (tables w)) =
      (case row_by p_id pid (t_products (tables w)) of None \<Rightarrow> [] | Some r \<Rightarrow> [r])"
    by (rule filter_row_by) (use assms(1) in \<open>auto dest: liveD distinct_ids\<close>)
  from exec_sql_Inr [OF e [unfolded sql_LockProductForUpdate_def]] f
  have "tables w' = tables w \<and> locks w' = locks w @ [ProductLock pid] \<and>
      row_by p_id pid (t_products (tables w)) = Some r"
    by (auto simp: lockProductForUpdate_def op_simps split: option.splits dest: row_by_SomeD)
  with live_step [OF assms(1) store_stays(1) store_keeps_schema(1) r] \<open>p = productFromSqlc r\<close>
  show ?thesis by blast
qed

lemma store_DecreaseProductStock_Inr:
  assumes "live w" and r: "store_DecreaseProductStock pid q w = (Inr n, w')" and "n \<noteq> 0"
  shows "live w' \<and> db_now w' = db_now w \<and>
    tables w' = (tables w)\<lparr>t_products := dec_stock pid (int32_of q) (db_now w) (t_products (tables w))\<rparr> \<and>
    locks w' = locks w @ [ProductLock pid] \<and>
    (\<exists>r. row_by p_id pid (t_products (tables w)) = Some r \<and>
       sint (int32_of q) \<le> sint (p_stock r) \<and>
       sint (p_stock r - int32_of q) = sint (p_stock r) - sint (int32_of q))"
proof -
  let ?q = "int32_of q" and ?ps = "t_products (tables w)"
  have d: "distinct (map p_id ?ps)" by (use assms(1) in \<open>auto dest: liveD distinct_ids\<close>)
  have st: "live w' \<and> db_now w' = db_now w"
    by (rule live_step [OF assms(1) store_stays(2) store_keeps_schema(2) r])
  from exec_sql_Inr [OF r [unfolded store_DecreaseProductStock_def sql_DecreaseProductStock_def]] st
  obtain rs out where
    u: "update_where (\<lambda>r. p_id r = pid \<and> ?q \<le>s p_stock r)
          (\<lambda>r. set_stock (int4_sub (p_stock r) ?q) (db_now w) r) ?ps = Inr (rs, out)"
    and t': "tables w' = (tables w)\<lparr>t_products := rs\<rparr>" and n: "n = of_nat (length out)"
    and l: "locks w' = locks w @ concat (map (\<lambda>r. [ProductLock (p_id r)]) out)"
    by (auto simp: decreaseProductStock_def update_products_def op_simps)
  from n assms(3) have "out \<noteq> []" by auto
  from update_by_key [OF d u this] obtain r r' where
    r: "row_by p_id pid ?ps = Some r" "?q \<le>s p_stock r" "out = [r']"
    and r': "set_stock (int4_sub (p_stock r) ?q) (db_now w) r = Inr r'"
    and rs: "rs = map (\<lambda>x. if p_id x = pid then r' else x) ?ps" by blast
  from r' obtain s where s: "int4_sub (p_stock r) ?q = Some s"
    and "r' = r\<lparr>p_stock := s, p_updated_at := db_now w\<rparr>" by (auto simp: op_simps)
  moreover from s have "s = p_stock r - ?q" by (auto simp: int4_sub_def split: if_splits)
  ultimately have "rs = dec_stock pid ?q (db_now w) ?ps"
    unfolding rs dec_stock_def by (intro map_at_key [OF d r(1)]) simp
  then show ?thesis
    using st t' l r int4_sub_sint [OF s] \<open>s = _\<close> \<open>r' = _\<close>
    by (auto simp: word_sle_eq dest: row_by_SomeD)
qed

lemma store_IncreaseProductStock_Inr:
  assumes "live w" and r: "store_IncreaseProductStock pid q w = (Inr n, w')" and "n \<noteq> 0"
  shows "live w' \<and> db_now w' = db_now w \<and>
    tables w' = (tables w)\<lparr>t_products := inc_stock pid (int32_of q) (db_now w) (t_products (tables w))\<rparr> \<and>
    locks w' = locks w @ [ProductLock pid] \<and>
    (\<exists>r. row_by p_id pid (t_products (tables w)) = Some r \<and>
       sint (p_stock r + int32_of q) = sint (p_stock r) + sint (int32_of q))"
proof -
  let ?q = "int32_of q" and ?ps = "t_products (tables w)"
  have d: "distinct (map p_id ?ps)" by (use assms(1) in \<open>auto dest: liveD distinct_ids\<close>)
  have st: "live w' \<and> db_now w' = db_now w"
    by (rule live_step [OF assms(1) store_stays(3) store_keeps_schema(3) r])
  from exec_sql_Inr [OF r [unfolded store_IncreaseProductStock_def sql_IncreaseProductStock_def]] st
  obtain rs out where
    u: "update_where (\<lambda>r. p_id r = pid \<and> True)
          (\<lambda>r. set_stock (int4_add (p_stock r) ?q) (db_now w) r) ?ps = Inr (rs, out)"
    and t': "tables w' = (tables w)\<lparr>t_products := rs\<rparr>" and n: "n = of_nat (length out)"
    and l: "locks w' = locks w @ concat (map (\<lambda>r. [ProductLock (p_id r)]) out)"
    by (auto simp: increaseProductStock_def update_products_def op_simps)
  from n assms(3) have "out \<noteq> []" by auto
  from update_by_key [OF d u this] obtain r r' where
    r: "row_by p_id pid ?ps = Some r" "out = [r']"
    and r': "set_stock (int4_add (p_stock r) ?q) (db_now w) r = Inr r'"
    and rs: "rs = map (\<lambda>x. if p_id x = pid then r' else x) ?ps" by blast
  from r' obtain s where s: "int4_add (p_stock r) ?q = Some s"
    and "r' = r\<lparr>p_stock := s, p_updated_at := db_now w\<rparr>" by (auto simp: op_simps)
  moreover from s have "s = p_stock r + ?q" by (auto simp: int4_add_def split: if_splits)
  ultimately have "rs = inc_stock pid ?q (db_now w) ?ps"
    unfolding rs inc_stock_def by (intro map_at_key [OF d r(1)]) simp
  then show ?thesis
    using st t' l r int4_add_sint [OF s] \<open>s = _\<close> \<open>r' = _\<close>
    by (auto dest: row_by_SomeD)
qed

lemma store_CreateOrder_Inr:
  assumes "live w" and r: "store_CreateOrder uid amt w = (Inr ord, w')"
  shows "live w' \<and> db_now w' = db_now w \<and> locks w' = locks w \<and>
    (\<exists>u. let row = new_order uid amt u (db_now w) in
       ord = orderFromSqlc row \<and> order_check row \<and> u \<notin> o_id ` set (t_orders (tables w)) \<and>
       tables w' = (tables w)\<lparr>t_orders := t_orders (tables w) @ [row]\<rparr>)"
proof -
  from r obtain row where "ord = orderFromSqlc row" and e: "sql_CreateOrder uid amt w = (Inr row, w')"
    by (auto simp: store_CreateOrder_def op_simps)
  with exec_insert_Inr [OF e [unfolded sql_CreateOrder_def]]
    live_step [OF assms(1) store_stays(4) store_keeps_schema(4) r]
  show ?thesis by (auto simp: createOrder_def Let_def split: if_splits)
qed

lemma store_CreateOrderItem_Inr:
  assumes "live w" and r: "store_CreateOrderItem prm w = (Inr it, w')"
  shows "live w' \<and> db_now w' = db_now w \<and> locks w' = locks w \<and>
    (\<exists>u. let row = new_item (prm_OrderID prm) (prm_ProductID prm) (int32_of (prm_Quantity prm))
                    (prm_Price prm) (prm_Price prm * prm_Quantity prm) u (db_now w) in
       it = itemFromSqlc row \<and> item_check row \<and>
       tables w' = (tables w)\<lparr>t_items := t_items (tables w) @ [row]\<rparr>)"
proof -
  from r obtain row where "it = itemFromSqlc row" and
    e: "sql_CreateOrderItem (prm_OrderID prm) (prm_ProductID prm) (int32_of (prm_Quantity prm))
          (prm_Price prm) (prm_Price prm * prm_Quantity prm) w = (Inr row, w')"
    by (auto simp: store_CreateOrderItem_def op_simps)
  with exec_insert_Inr [OF e [unfolded sql_CreateOrderItem_def]]
    live_step [OF assms(1) store_stays(5) store_keeps_schema(5) r]
  show ?thesis by (auto simp: createOrderItem_def Let_def split: if_splits)
qed

lemma store_CreatePayment_Inr:
  assumes "live w" and r: "store_CreatePayment oid amt w = (Inr pay, w')"
  shows "live w' \<and> db_now w' = db_now w \<and> locks w' = locks w \<and>
    (\<exists>u. let row = new_payment oid amt ''fake'' None u (db_now w) in
       pay = paymentFromSqlc_order row \<and>
       tables w' = (tables w)\<lparr>t_payments := t_payments (tables w) @ [row]\<rparr>)"
proof -
  from r obtain row where "pay = paymentFromSqlc_order row" and
    e: "sql_CreatePayment oid amt ''fake'' None w = (Inr row, w')"
    by (auto simp: store_CreatePayment_def op_simps)
  with exec_insert_Inr [OF e [unfolded sql_CreatePayment_def]]
    live_step [OF assms(1) store_stays(6) store_keeps_schema(6) r]
  show ?thesis by (auto simp: createPayment_def Let_def split: if_splits)
qed

lemma store_LockOrderForUpdate_Inr:
  assumes "live w" and r: "store_LockOrderForUpdate uid oid w = (Inr ord, w')"
  shows "live w' \<and> db_now w' = db_now w \<and> tables w' = tables w \<and>
    locks w' = locks w @ [OrderLock oid] \<and>
    (\<exists>r. row_by o_id oid (t_orders (tables w)) = Some r \<and> o_user_id r = uid \<and> ord = orderFromSqlc r)"
proof -
  let ?os = "t_orders (tables w)"
  from r obtain r where "ord = orderFromSqlc r" and e: "sql_LockOrderForUpdate uid oid w = (Inr r, w')"
    by (auto simp: store_LockOrderForUpdate_def op_simps)
  have d: "distinct (map o_id ?os)" by (use assms(1) in \<open>auto dest: liveD distinct_ids\<close>)
  from exec_sql_Inr [OF e [unfolded sql_LockOrderForUpdate_def]]
  obtain rs where rs: "filter (\<lambda>r. o_id r = oid \<and> o_user_id r = uid) ?os = r # rs"
    and w': "tables w' = tables w" "locks w' = locks w @ map (\<lambda>r. OrderLock (o_id r)) (r # rs)"
    by (auto simp: lockOrderForUpdate_def op_simps conj_commute)
  then have "r \<in> set ?os" "o_id r = oid" "o_user_id r = uid"
    by (metis (mono_tags, lifting) filter_eq_ConsD in_set_conv_decomp)+
  then have r: "row_by o_id oid ?os = Some r" using d by (simp add: row_by_Some)
  with filter_row_by_and [OF d r] rs have "rs = []" "o_user_id r = uid"
    by (auto split: if_splits)
  with r w' \<open>ord = _\<close> \<open>o_id r = oid\<close>
    live_step [OF assms(1) store_stays(7) store_keeps_schema(7) assms(2)]
  show ?thesis by simp
qed

lemma store_GetOrderItemsByOrderID_Inr:
  assumes "live w" and r: "store_GetOrderItemsByOrderID oid w = (Inr its, w')"
  shows "live w' \<and> db_now w' = db_now w \<and> tables w' = tables w \<and> locks w' = locks w \<and>
    (\<exists>rows. its = map itemFromSqlc rows \<and>
       mset rows = mset (filter (\<lambda>r. i_order_id r = oid) (t_items (tables w))))"
proof -
  from r obtain rows where "its = map itemFromSqlc rows" and
    e: "sql_GetOrderItemsByOrderID oid w = (Inr rows, w')"
    by (auto simp: store_GetOrderItemsByOrderID_def op_simps)
  with query_rows_Inr [OF e [unfolded sql_GetOrderItemsByOrderID_def]]
    live_step [OF assms(1) store_stays(8) store_keeps_schema(8) r]
  show ?thesis by (auto simp: getOrderItemsByOrderID_def)
qed

lemma store_UpdateOrderStatus_Inr:
  assumes "live w" and r: "store_UpdateOrderStatus uid oid status w = (Inr ord, w')"
  shows "live w' \<and> db_now w' = db_now w \<and>
    tables w' = (tables w)\<lparr>t_orders := set_status oid status (db_now w) (t_orders (tables w))\<rparr> \<and>
    locks w' = locks w @ [OrderLock oid] \<and>
    (\<exists>r. row_by o_id oid (t_orders (tables w)) = Some r \<and> o_user_id r = uid \<and>
       ord = orderFromSqlc (r\<lparr>o_status := status, o_updated_at := db_now w\<rparr>))"
proof -
  let ?os = "t_orders (tables w)"
  have d: "distinct (map o_id ?os)" by (use assms(1) in \<open>auto dest: liveD distinct_ids\<close>)
  have st: "live w' \<and> db_now w' = db_now w"
    by (rule live_step [OF assms(1) store_stays(9) store_keeps_schema(9) r])
  from r obtain r where "ord = orderFromSqlc r" and e: "sql_UpdateOrderStatus status oid uid w = (Inr r, w')"
    by (auto simp: store_UpdateOrderStatus_def op_simps)
  from exec_sql_Inr [OF e [unfolded sql_UpdateOrderStatus_def]] st
  obtain rs qs where
    u: "update_where (\<lambda>r. o_id r = oid \<and> o_user_id r = uid)
          (\<lambda>r. checked order_check (r\<lparr>o_status := status, o_updated_at := db_now w\<rparr>)) ?os = Inr (rs, r # qs)"
    and t': "tables w' = (tables w)\<lparr>t_orders := rs\<rparr>"
    and l: "locks w' = locks w @ concat (map (\<lambda>r. [OrderLock (o_id r)]) (r # qs))"
    by (auto simp: updateOrderStatus_def update_orders_def op_simps)
  from update_by_key [OF d u] obtain r0 where
    r0: "row_by o_id oid ?os = Some r0" "o_user_id r0 = uid" "qs = []"
    and r': "checked order_check (r0\<lparr>o_status := status, o_updated_at := db_now w\<rparr>) = Inr r"
    and rs: "rs = map (\<lambda>x. if o_id x = oid then r else x) ?os" by auto
  from r' have "r = r0\<lparr>o_status := status, o_updated_at := db_now w\<rparr>" by (simp add: op_simps)
  then have "rs = set_status oid status (db_now w) ?os"
    unfolding rs set_status_def by (intro map_at_key [OF d r0(1)]) simp
  then show ?thesis
    using st t' l r0 \<open>r = _\<close> \<open>ord = _\<close> by (auto dest: row_by_SomeD)
qed

section \<open>The contracts\<close>

text \<open>
  \<open>order_store\<close> is what the order service may assume of a \<open>Store\<close> inside a transaction (\<open>lv\<close>), for an
  operation that returns no error: what it returns, what it does to the tables (\<open>tb\<close>), which row
  locks it takes (\<open>lk\<close>). \<open>nw\<close> is the transaction's \<open>now()\<close>. The items of an order are promised only to
  a transaction that holds the order's lock.
\<close>

locale order_store =
  fixes st :: "'s store"
    and tb :: "'s \<Rightarrow> tables"
    and lk :: "'s \<Rightarrow> row_lock list"
    and nw :: "'s \<Rightarrow> time"
    and lv :: "'s \<Rightarrow> bool"
  assumes lv_schema: "lv s \<Longrightarrow> schema_ok (tb s)"
    and lock_product: "lv s \<Longrightarrow> st_LockProductForUpdate st pid s = (Inr p, s') \<Longrightarrow>
      lv s' \<and> nw s' = nw s \<and> tb s' = tb s \<and> lk s' = lk s @ [ProductLock pid] \<and>
      (\<exists>r. row_by p_id pid (t_products (tb s)) = Some r \<and> p = productFromSqlc r)"
    and decrease: "lv s \<Longrightarrow> st_DecreaseProductStock st pid q s = (Inr n, s') \<Longrightarrow> n \<noteq> 0 \<Longrightarrow>
      lv s' \<and> nw s' = nw s \<and>
      tb s' = (tb s)\<lparr>t_products := dec_stock pid (int32_of q) (nw s) (t_products (tb s))\<rparr> \<and>
      lk s' = lk s @ [ProductLock pid] \<and>
      (\<exists>r. row_by p_id pid (t_products (tb s)) = Some r \<and>
         sint (int32_of q) \<le> sint (p_stock r) \<and>
         sint (p_stock r - int32_of q) = sint (p_stock r) - sint (int32_of q))"
    and increase: "lv s \<Longrightarrow> st_IncreaseProductStock st pid q s = (Inr n, s') \<Longrightarrow> n \<noteq> 0 \<Longrightarrow>
      lv s' \<and> nw s' = nw s \<and>
      tb s' = (tb s)\<lparr>t_products := inc_stock pid (int32_of q) (nw s) (t_products (tb s))\<rparr> \<and>
      lk s' = lk s @ [ProductLock pid] \<and>
      (\<exists>r. row_by p_id pid (t_products (tb s)) = Some r \<and>
         sint (p_stock r + int32_of q) = sint (p_stock r) + sint (int32_of q))"
    and create_order: "lv s \<Longrightarrow> st_CreateOrder st uid amt s = (Inr ord, s') \<Longrightarrow>
      lv s' \<and> nw s' = nw s \<and> lk s' = lk s \<and>
      (\<exists>u. let row = new_order uid amt u (nw s) in
         ord = orderFromSqlc row \<and> order_check row \<and> u \<notin> o_id ` set (t_orders (tb s)) \<and>
         tb s' = (tb s)\<lparr>t_orders := t_orders (tb s) @ [row]\<rparr>)"
    and create_item: "lv s \<Longrightarrow> st_CreateOrderItem st prm s = (Inr it, s') \<Longrightarrow>
      lv s' \<and> nw s' = nw s \<and> lk s' = lk s \<and>
      (\<exists>u. let row = new_item (prm_OrderID prm) (prm_ProductID prm) (int32_of (prm_Quantity prm))
                      (prm_Price prm) (prm_Price prm * prm_Quantity prm) u (nw s) in
         it = itemFromSqlc row \<and> item_check row \<and>
         tb s' = (tb s)\<lparr>t_items := t_items (tb s) @ [row]\<rparr>)"
    and create_payment: "lv s \<Longrightarrow> st_CreatePayment st oid amt s = (Inr pay, s') \<Longrightarrow>
      lv s' \<and> nw s' = nw s \<and> lk s' = lk s \<and>
      (\<exists>u. let row = new_payment oid amt ''fake'' None u (nw s) in
         pay = paymentFromSqlc_order row \<and>
         tb s' = (tb s)\<lparr>t_payments := t_payments (tb s) @ [row]\<rparr>)"
    and lock_order: "lv s \<Longrightarrow> st_LockOrderForUpdate st uid oid s = (Inr ord, s') \<Longrightarrow>
      lv s' \<and> nw s' = nw s \<and> tb s' = tb s \<and> lk s' = lk s @ [OrderLock oid] \<and>
      (\<exists>r. row_by o_id oid (t_orders (tb s)) = Some r \<and> o_user_id r = uid \<and> ord = orderFromSqlc r)"
    and get_items: "lv s \<Longrightarrow> OrderLock oid \<in> set (lk s) \<Longrightarrow>
        st_GetOrderItemsByOrderID st oid s = (Inr its, s') \<Longrightarrow>
      lv s' \<and> nw s' = nw s \<and> tb s' = tb s \<and> lk s' = lk s \<and>
      (\<exists>rows. its = map itemFromSqlc rows \<and>
         mset rows = mset (filter (\<lambda>r. i_order_id r = oid) (t_items (tb s))))"
    and update_status: "lv s \<Longrightarrow> st_UpdateOrderStatus st uid oid status s = (Inr ord, s') \<Longrightarrow>
      lv s' \<and> nw s' = nw s \<and>
      tb s' = (tb s)\<lparr>t_orders := set_status oid status (nw s) (t_orders (tb s))\<rparr> \<and>
      lk s' = lk s @ [OrderLock oid] \<and>
      (\<exists>r. row_by o_id oid (t_orders (tb s)) = Some r \<and> o_user_id r = uid \<and>
         ord = orderFromSqlc (r\<lparr>o_status := status, o_updated_at := nw s\<rparr>))"

interpretation pg: order_store order_repository tables locks db_now live
  by (unfold_locales, unfold order_repository_def store.select_convs)
    (erule liveD,
     erule (1) store_LockProductForUpdate_Inr, erule (2) store_DecreaseProductStock_Inr,
     erule (2) store_IncreaseProductStock_Inr, erule (1) store_CreateOrder_Inr,
     erule (1) store_CreateOrderItem_Inr, erule (1) store_CreatePayment_Inr,
     erule (1) store_LockOrderForUpdate_Inr, erule store_GetOrderItemsByOrderID_Inr, assumption,
     erule (1) store_UpdateOrderStatus_Inr)

text \<open>
  \<open>unit_of_work\<close> is what the service may assume of \<open>WithinTx\<close>: when it succeeds the tables are those the
  function left, when it fails they are the old ones, or (the commit took effect but its
  acknowledgement was lost) those a successful run of the function left. \<open>legal\<close> functions only
  issue statements.
\<close>

locale unit_of_work =
  fixes within :: "('s, go_error, 'a) op \<Rightarrow> ('s, go_error, 'a) op"
    and tb :: "'s \<Rightarrow> tables"
    and idl :: "'s \<Rightarrow> bool"
    and lv :: "'s \<Rightarrow> bool"
    and fresh :: "'s \<Rightarrow> bool"
    and legal :: "('s, go_error, 'a) op \<Rightarrow> bool"
  assumes committed: "idl s \<Longrightarrow> legal fn \<Longrightarrow> within fn s = (Inr a, s') \<Longrightarrow>
      \<exists>s0 s1. lv s0 \<and> fresh s0 \<and> tb s0 = tb s \<and> fn s0 = (Inr a, s1) \<and> tb s' = tb s1"
    and failed: "idl s \<Longrightarrow> legal fn \<Longrightarrow> within fn s = (Inl e, s') \<Longrightarrow>
      tb s' = tb s \<or>
      (\<exists>a s0 s1. lv s0 \<and> fresh s0 \<and> tb s0 = tb s \<and> fn s0 = (Inr a, s1) \<and> tb s' = tb s1)"
begin

lemma all_or_nothing:
  assumes "idl s" "legal fn"
    and R: "\<And>s0 a s1. lv s0 \<Longrightarrow> fresh s0 \<Longrightarrow> fn s0 = (Inr a, s1) \<Longrightarrow> R a (tb s0) (tb s1)"
    and r: "within fn s = (r, s')"
  shows "(\<exists>a. R a (tb s) (tb s') \<and> (isl r \<or> r = Inr a)) \<or> (isl r \<and> tb s' = tb s)"
proof (cases r)
  case (Inl e)
  from failed [OF assms(1,2) r [unfolded Inl]] show ?thesis
  proof (elim disjE exE conjE)
    fix a s0 s1
    assume s: "lv s0" "fresh s0" "tb s0 = tb s" "fn s0 = (Inr a, s1)" "tb s' = tb s1"
    from R [OF s(1,2,4)] s(3,5) Inl show ?thesis by auto
  qed (use Inl in simp)
next
  case (Inr a)
  from committed [OF assms(1,2) r [unfolded Inr]] obtain s0 s1 where
    s: "lv s0" "fresh s0" "tb s0 = tb s" "fn s0 = (Inr a, s1)" "tb s' = tb s1" by blast
  from R [OF s(1,2,4)] s(3,5) Inr show ?thesis by auto
qed

end

lemma WithinTx_cases:
  assumes "idle w" and "stays fn" and r: "WithinTx fn w = (r, w')"
  shows "(\<exists>e. r = Inl e \<and> tables w' = tables w) \<or>
    (\<exists>a w0 w1. live w0 \<and> locks w0 = [] \<and> tables w0 = tables w \<and> fn w0 = (Inr a, w1) \<and>
       tables w' = tables w1 \<and> (r = Inr a \<and> locks w' = locks w1 \<or> isl r))"
proof (cases "BeginTx w")
  case (Pair b w0)
  show ?thesis
  proof (cases b)
    case (Inl e)
    with Pair r BeginTx_Inl [of w e w0] show ?thesis
      by (auto simp: WithinTx_def and_then_def)
  next
    case (Inr x)
    with Pair have b: "BeginTx w = (Inr (), w0)" by simp
    from live_begin [OF b assms(1)] have w0: "live w0" "locks w0 = []" "tables w0 = tables w"
      "tx w0 = Some (tables w)" by simp_all
    obtain q w1 where f: "fn w0 = (q, w1)" by (cases "fn w0")
    with staysD [OF assms(2)] w0 have "tx w1 = Some (tables w)" by (auto simp: same_tx_def)
    note t1 = this
    show ?thesis
    proof (cases q)
      case (Inl e)
      with b f r t1 show ?thesis by (auto simp: WithinTx_def and_then_def RollbackTx_simps)
    next
      case (Inr a)
      obtain c w2 where c: "CommitTx w1 = (c, w2)" by (cases "CommitTx w1")
      with b f r Inr have "w' = w2" and "r = (case c of Inl e \<Rightarrow> Inl e | Inr _ \<Rightarrow> Inr a)"
        by (auto simp: WithinTx_def and_then_def split: sum.splits)
      moreover have "tables w2 = tables w1 \<and> locks w2 = locks w1 \<or> isl c \<and> tables w2 = tables w1
          \<or> isl c \<and> tables w2 = tables w"
        using c t1 CommitTx_Inr [of w1 w2] CommitTx_Inl [of w1 _ w2] by (cases c) auto
      ultimately show ?thesis
        using f [unfolded Inr] w0 by (cases c) (simp_all, metis+)
    qed
  qed
qed

interpretation pg_tx: unit_of_work WithinTx tables idle live "\<lambda>w. locks w = []" stays
proof unfold_locales
  fix w w' :: world and fn :: "'a db_op" and a
  assume "idle w" "stays fn" "WithinTx fn w = (Inr a, w')"
  from WithinTx_cases [OF this] show "\<exists>w0 w1. live w0 \<and> locks w0 = [] \<and> tables w0 = tables w \<and>
    fn w0 = (Inr a, w1) \<and> tables w' = tables w1" by auto
next
  fix w w' :: world and fn :: "'a db_op" and e
  assume "idle w" "stays fn" "WithinTx fn w = (Inl e, w')"
  from WithinTx_cases [OF this] show "tables w' = tables w \<or> (\<exists>a w0 w1. live w0 \<and> locks w0 = [] \<and>
    tables w0 = tables w \<and> fn w0 = (Inr a, w1) \<and> tables w' = tables w1)" by auto
qed

lemma keeps_WithinTx [keeps_intros]:
  assumes "keeps (holds I) fn"
  shows "keeps (holds I) (WithinTx fn)"
proof -
  have "keeps (holds I) (\<lambda>w. case fn w of
         (Inl e, w1) \<Rightarrow> (Inl e, RollbackTx w1)
       | (Inr a, w1) \<Rightarrow> (case CommitTx w1 of (Inl e, w2) \<Rightarrow> (Inl e, w2) | (Inr _, w2) \<Rightarrow> (Inr a, w2)))"
    (is "keeps _ ?g")
  proof (rule keepsI)
    fix w r w'
    assume w: "holds I w" and r: "?g w = (r, w')"
    obtain q w1 where f: "fn w = (q, w1)" by (cases "fn w")
    from keepsD [OF assms w f] have w1: "holds I w1" .
    obtain c w2 where c: "CommitTx w1 = (c, w2)" by (cases "CommitTx w1")
    from keepsD [OF keeps_CommitTx w1 c] have "holds I w2" .
    with r f c w1 show "holds I w'"
      by (auto split: sum.splits intro: holds_RollbackTx)
  qed
  then show ?thesis
    unfolding WithinTx_def by (intro keeps_and_then keeps_BeginTx)
qed

lemma WithinTx_ends:
  assumes "tx w = None" and "stays fn" and r: "WithinTx fn w = (r, w')"
  shows "tx w' = None \<and> env w' = env w \<and> charges w' = charges w \<and> draw_no w \<le> draw_no w'"
proof (cases "BeginTx w")
  case (Pair b w0)
  show ?thesis
  proof (cases b)
    case (Inl e)
    with Pair r assms(1) BeginTx_Inl [of w e w0] show ?thesis
      by (auto simp: WithinTx_def and_then_def)
  next
    case (Inr x)
    with Pair have w0: "tx w0 \<noteq> None" "env w0 = env w" "charges w0 = charges w" "draw_no w0 = draw_no w"
      by (auto simp: BeginTx_def Let_def split: if_splits)
    obtain q w1 where f: "fn w0 = (q, w1)" by (cases "fn w0")
    with staysD [OF assms(2) f] w0 have w1: "tx w1 \<noteq> None" "env w1 = env w" "charges w1 = charges w" "draw_no w \<le> draw_no w1"
      by (auto simp: same_tx_def)
    obtain c w2 where c: "CommitTx w1 = (c, w2)" by (cases "CommitTx w1")
    have "tx w2 = None \<and> env w2 = env w \<and> charges w2 = charges w \<and> draw_no w \<le> draw_no w2"
      using c w1 CommitTx_Inr [of w1 w2] CommitTx_Inl [of w1 _ w2] by (cases c) auto
    with Pair Inr f r c w1 show ?thesis
      by (cases q) (auto simp: WithinTx_def and_then_def RollbackTx_simps split: sum.splits)
  qed
qed

lemma idle_WithinTx:
  "idle w \<Longrightarrow> stays fn \<Longrightarrow> keeps (holds schema_ok) fn \<Longrightarrow> WithinTx fn w = (r, w') \<Longrightarrow> idle w'"
  using WithinTx_ends [of w fn r w'] keepsD [OF keeps_WithinTx, of schema_ok fn w r w']
  by (auto simp: idle_def holds_def)

text \<open>An error of \<open>WithinTx\<close> is the function's own or a failure of the connection.\<close>

lemma WithinTx_Inl:
  assumes "idle w" and "WithinTx fn w = (Inl e, w')"
  shows "e = ErrConn \<or> (\<exists>w0 w1. live w0 \<and> locks w0 = [] \<and> tables w0 = tables w \<and> fn w0 = (Inl e, w1))"
proof -
  have "e = ErrConn" if "BeginTx w1 = (Inl e, w2)" for w1 w2 using that
    by (auto simp: BeginTx_def Let_def split: if_splits)
  moreover have "e = ErrConn" if "CommitTx w1 = (Inl e, w2)" for w1 w2 using that
    by (auto simp: CommitTx_def Let_def split: fault.splits)
  ultimately show ?thesis
    using assms live_begin [OF _ assms(1)]
    by (auto simp: WithinTx_def and_then_def split: prod.splits sum.splits)
qed
lemma update_orders_returns:
  assumes "schema_ok t" and row: "row_by o_id oid (t_orders t) = Some ord" and "C ord"
    and "status \<in> set order_statuses"
  shows "returning_one (update_orders (\<lambda>r. o_id r = oid \<and> C r) status) now t \<noteq> Inl e"
proof -
  let ?os = "t_orders t"
  let ?g = "\<lambda>r. r\<lparr>o_status := status, o_updated_at := now\<rparr>"
  have d: "distinct (map o_id ?os)" "\<forall>r \<in> set ?os. order_check r"
    using assms(1) by (simp_all add: schema_ok_def)
  have "update_where (\<lambda>r. o_id r = oid \<and> C r) (\<lambda>r. checked order_check (?g r)) ?os =
      Inr (map (\<lambda>r. if o_id r = oid \<and> C r then ?g r else r) ?os, map ?g (filter (\<lambda>r. o_id r = oid \<and> C r) ?os))"
    by (rule update_where_ok) (use d(2) assms(4) in \<open>auto simp: checked_def order_check_def\<close>)
  moreover have "filter (\<lambda>r. o_id r = oid \<and> C r) ?os = [ord]"
    using filter_row_by_and [OF d(1) row] assms(3) by simp
  ultimately show ?thesis
    by (simp add: update_orders_def returning_one_def update_table_def one_row_def)
qed

end
