(* ===== verification/Sample.thy ===== *)
theory Sample
  imports Database
begin

text \<open>
  A small database with an environment, at which the properties are evaluated: one user, two
  products, no orders. \<open>faults\<close> says which statements fail, \<open>rand\<close> what the payment provider draws.
\<close>

definition sample_env :: "(nat \<Rightarrow> fault) \<Rightarrow> nat \<Rightarrow> environment" where
  "sample_env faults rand = \<lparr>
     env_fault = faults,
     env_db_clock = (\<lambda>n. 1000 * int n),
     env_app_clock = (\<lambda>n. 5000000 * int n),
     env_scan = (\<lambda>n m. rev [0..<m]),
     env_uuid = (\<lambda>n. word_of_nat (100 + n)),
     env_rand = (\<lambda>n. rand),
     env_txid = (\<lambda>n. replicate (Suc n) CHR ''t''),
     env_jsonb = (\<lambda>x. if x = [] then None else Some x),
     env_lower = map (\<lambda>c. if c = CHR ''A'' then CHR ''a'' else c)\<rparr>"

definition sample_user :: user_row where
  "sample_user = \<lparr>u_id = 1, u_email = ''a@b.c'', u_password_hash = ''h'', u_created_at = 0, u_updated_at = 0\<rparr>"

definition sample_product :: "uuid \<Rightarrow> string \<Rightarrow> int64 \<Rightarrow> int32 \<Rightarrow> product_row" where
  "sample_product u name price stock = \<lparr>p_id = u, p_name = name, p_description = '''', p_price = price,
     p_stock = stock, p_created_at = 0, p_updated_at = 0\<rparr>"

definition sample_tables :: tables where
  "sample_tables = \<lparr>t_users = [sample_user],
     t_products = [sample_product 20 ''pen'' 250 3, sample_product 10 ''ink'' 500 5],
     t_orders = [], t_items = [], t_payments = [], t_keys = []\<rparr>"

definition sample_world :: "(nat \<Rightarrow> fault) \<Rightarrow> nat \<Rightarrow> tables \<Rightarrow> world" where
  "sample_world faults rand t = \<lparr>tables = t, tx = None, locks = [], charges = [], stmt_no = 0, draw_no = 0,
     db_now = 0, env = sample_env faults rand\<rparr>"

definition all_works :: "nat \<Rightarrow> fault" where
  "all_works n = Works"

definition fault_at :: "nat \<Rightarrow> fault \<Rightarrow> nat \<Rightarrow> fault" where
  "fault_at n f m = (if m = n then f else Works)"

lemma sample_world_simps [simp]:
  "tables (sample_world faults rand t) = t" "env (sample_world faults rand t) = sample_env faults rand"
  "charges (sample_world faults rand t) = []"
  by (simp_all add: sample_world_def)

lemma sample_idle_tables: "idle (sample_world faults rand sample_tables)"
  by code_simp

end
