(* ===== verification/Order_Service.thy ===== *)
theory Order_Service
  imports Order_Store Sample
begin

text \<open>
  The order service (\<open>order_service.go\<close>): placing an order (lock and price the products, write the
  order, its items and a pending payment, decrement the stock, all in one transaction) and
  cancelling it. The functions take the \<open>Store\<close> and \<open>WithinTx\<close> as the Go service takes its
  \<open>Repository\<close>; what they do is proved inside the locale \<open>order_store\<close> from the contract alone.
\<close>

section \<open>The service\<close>

definition quantityByProduct :: "CreateOrderItemRequest list \<Rightarrow> (uuid, goint) go_map" where
  "quantityByProduct items =
     fold (\<lambda>item m. go_set (req_ProductID item) (go_get m (req_ProductID item) + req_Quantity item) m)
       items []"

definition sortedProductIDs :: "(uuid, goint) go_map \<Rightarrow> uuid list" where
  "sortedProductIDs quantities =
     sort_slice (\<lambda>a b. bytes_less (uuid_bytes a) (uuid_bytes b)) (go_keys quantities)"

text \<open>The loop of \<open>lockAndPrice\<close> over the sorted ids, with the prices and the total so far.\<close>

fun lock_loop ::
  "'s store \<Rightarrow> (uuid, goint) go_map \<Rightarrow> uuid list \<Rightarrow> (uuid, goint) go_map \<Rightarrow> goint \<Rightarrow>
   ('s, go_error, (uuid, goint) go_map \<times> goint) op" where
  "lock_loop st quantities [] prices totalPrice = ret (prices, totalPrice)"
| "lock_loop st quantities (productID # ids) prices totalPrice =
     and_then (st_LockProductForUpdate st productID) (\<lambda>lockedProduct.
       if Product_Stock lockedProduct <s go_get quantities productID
       then fail (ProductErr ErrInsufficientStock)
       else lock_loop st quantities ids
              (go_set productID (Product_Price lockedProduct) prices)
              (totalPrice + Product_Price lockedProduct * go_get quantities productID))"

definition lockAndPrice ::
  "'s store \<Rightarrow> (uuid, goint) go_map \<Rightarrow> ('s, go_error, (uuid, goint) go_map \<times> goint) op" where
  "lockAndPrice st quantities = lock_loop st quantities (sortedProductIDs quantities) [] 0"

text \<open>The loop of \<open>CreateOrder\<close> over the requested items: write the item, take its stock.\<close>

fun place_items ::
  "'s store \<Rightarrow> uuid \<Rightarrow> (uuid, goint) go_map \<Rightarrow> CreateOrderItemRequest list \<Rightarrow> OrderItem list \<Rightarrow>
   ('s, go_error, OrderItem list) op" where
  "place_items st orderID prices [] createdItems = ret createdItems"
| "place_items st orderID prices (item # items) createdItems =
     and_then (st_CreateOrderItem st
         \<lparr>prm_OrderID = orderID, prm_ProductID = req_ProductID item,
          prm_Quantity = req_Quantity item, prm_Price = go_get prices (req_ProductID item)\<rparr>)
       (\<lambda>createdItem.
         and_then (st_DecreaseProductStock st (req_ProductID item) (req_Quantity item))
           (\<lambda>rowsAffected.
             if rowsAffected = 0 then fail (ProductErr ErrInsufficientStock)
             else place_items st orderID prices items (createdItems @ [createdItem])))"

definition create_order_body ::
  "'s store \<Rightarrow> uuid \<Rightarrow> CreateOrderItemRequest list \<Rightarrow>
   ('s, go_error, Order \<times> OrderItem list \<times> Payment) op" where
  "create_order_body st userID items =
     and_then (lockAndPrice st (quantityByProduct items)) (\<lambda>(prices, totalPrice).
     and_then (st_CreateOrder st userID totalPrice) (\<lambda>createdOrder.
     and_then (place_items st (Order_ID createdOrder) prices items []) (\<lambda>createdItems.
     and_then (st_CreatePayment st (Order_ID createdOrder) (Order_TotalAmount createdOrder))
       (\<lambda>createdPayment. ret (createdOrder, createdItems, createdPayment)))))"

definition svc_CreateOrder ::
  "'s store \<Rightarrow>
   (('s, go_error, Order \<times> OrderItem list \<times> Payment) op \<Rightarrow>
    ('s, go_error, Order \<times> OrderItem list \<times> Payment) op) \<Rightarrow>
   uuid \<Rightarrow> CreateOrderItemRequest list \<Rightarrow> ('s, go_error, Order \<times> OrderItem list \<times> Payment) op" where
  "svc_CreateOrder st within userID items = within (create_order_body st userID items)"

text \<open>The loop of \<open>CancelOrder\<close> over the items sorted by product: lock, give the stock back.\<close>

fun restock_items :: "'s store \<Rightarrow> OrderItem list \<Rightarrow> ('s, go_error, unit) op" where
  "restock_items st [] = ret ()"
| "restock_items st (item # items) =
     and_then (st_LockProductForUpdate st (OrderItem_ProductID item)) (\<lambda>_.
     and_then (st_IncreaseProductStock st (OrderItem_ProductID item) (OrderItem_Quantity item))
       (\<lambda>rowsAffected.
         if rowsAffected = 0 then fail (ProductErr ErrProductNotFound)
         else restock_items st items))"

definition cancel_order_body :: "'s store \<Rightarrow> uuid \<Rightarrow> uuid \<Rightarrow> ('s, go_error, Order) op" where
  "cancel_order_body st userID orderID =
     and_then (st_LockOrderForUpdate st userID orderID) (\<lambda>lockedOrder.
       if Order_Status lockedOrder \<noteq> ''pending'' then fail (OrderErr ErrOrderNotPending)
       else and_then (st_GetOrderItemsByOrderID st orderID) (\<lambda>orderItems.
         if orderItems = [] then fail (OrderErr ErrOrderItemsUnvailable)
         else and_then
           (restock_items st
             (sort_slice (\<lambda>a b. bytes_less (uuid_bytes (OrderItem_ProductID a))
                                           (uuid_bytes (OrderItem_ProductID b))) orderItems))
           (\<lambda>_. st_UpdateOrderStatus st userID orderID ''cancelled'')))"

definition svc_CancelOrder ::
  "'s store \<Rightarrow> (('s, go_error, Order) op \<Rightarrow> ('s, go_error, Order) op) \<Rightarrow> uuid \<Rightarrow> uuid \<Rightarrow>
   ('s, go_error, Order) op" where
  "svc_CancelOrder st within userID orderID = within (cancel_order_body st userID orderID)"

definition svc_GetOrders :: "'s store \<Rightarrow> uuid \<Rightarrow> ('s, go_error, Order list) op" where
  "svc_GetOrders st userID = st_GetOrders st userID"

definition svc_GetOrderByID :: "'s store \<Rightarrow> uuid \<Rightarrow> uuid \<Rightarrow> ('s, go_error, Order) op" where
  "svc_GetOrderByID st userID orderID = st_GetOrderByID st userID orderID"

text \<open>
  The service over PostgreSQL, as \<open>BuildApp\<close> wires it: the repository of \<^theory_text>\<open>Order_Store\<close> and its
  transactions.
\<close>

definition CreateOrder :: "uuid \<Rightarrow> CreateOrderItemRequest list \<Rightarrow> (Order \<times> OrderItem list \<times> Payment) db_op" where
  "CreateOrder = svc_CreateOrder order_repository WithinTx"

definition CancelOrder :: "uuid \<Rightarrow> uuid \<Rightarrow> Order db_op" where
  "CancelOrder = svc_CancelOrder order_repository WithinTx"

text \<open>
  \<open>endSpan\<close> ends the trace span of an operation: an expected refusal becomes an attribute, anything
  else an error of the span.
\<close>

datatype span_status = SpanOk | SpanOutcome go_error | SpanError go_error

definition businessErrors :: "go_error list" where
  "businessErrors = [ProductErr ErrProductNotFound, ProductErr ErrInsufficientStock,
     OrderErr ErrOrderNotFound, OrderErr ErrOrderNotPending, OrderErr ErrOrderItemsUnvailable]"

definition endSpan :: "go_error option \<Rightarrow> span_status" where
  "endSpan err =
     (case err of
        None \<Rightarrow> SpanOk
      | Some e \<Rightarrow> if list_ex (errors_Is e) businessErrors then SpanOutcome e else SpanError e)"

section \<open>Quantities and sorted ids\<close>

lemma sortedProductIDs_eq: "sortedProductIDs qs = sort (go_keys qs)"
  unfolding sortedProductIDs_def by (rule sort_slice_eq) (rule uuid_bytes_less)

lemma quantity_step:
  "go_get (fold (\<lambda>item m. go_set (req_ProductID item) (go_get m (req_ProductID item) + req_Quantity item) m)
     items m) pid = go_get m pid + (\<Sum>it \<leftarrow> filter (\<lambda>it. req_ProductID it = pid) items. req_Quantity it)"
  by (induction items arbitrary: m) (auto simp: algebra_simps)

lemma go_get_quantityByProduct:
  "go_get (quantityByProduct items) pid = (\<Sum>it \<leftarrow> filter (\<lambda>it. req_ProductID it = pid) items. req_Quantity it)"
  unfolding quantityByProduct_def quantity_step by simp

lemma keys_quantityByProduct:
  "set (go_keys (quantityByProduct items)) = req_ProductID ` set items \<and>
   distinct (go_keys (quantityByProduct items))"
proof -
  let ?step = "\<lambda>item m. go_set (req_ProductID item) (go_get m (req_ProductID item) + req_Quantity item) m"
  have "distinct (go_keys m) \<Longrightarrow>
    set (go_keys (fold ?step items m)) = set (go_keys m) \<union> req_ProductID ` set items \<and>
    distinct (go_keys (fold ?step items m))" for m
    by (induction items arbitrary: m) auto
  from this [of "[]"] show ?thesis by (simp add: quantityByProduct_def go_keys_def)
qed

lemma sortedProductIDs_quantity:
  "sorted (sortedProductIDs (quantityByProduct items))"
  "distinct (sortedProductIDs (quantityByProduct items))"
  "set (sortedProductIDs (quantityByProduct items)) = req_ProductID ` set items"
  using keys_quantityByProduct [of items] by (simp_all add: sortedProductIDs_eq)

text \<open>Pricing the summed quantities product by product is pricing the items one by one.\<close>

lemma sum_over_products:
  assumes "distinct ids" and "req_ProductID ` set items \<subseteq> set ids"
  shows "(\<Sum>pid \<leftarrow> ids. f pid * go_get (quantityByProduct items) pid) =
    (\<Sum>it \<leftarrow> items. f (req_ProductID it) * (req_Quantity it :: goint))"
proof -
  have "(\<Sum>pid \<in> set ids. f pid * (\<Sum>it \<leftarrow> filter (\<lambda>it. req_ProductID it = pid) items. req_Quantity it)) =
      (\<Sum>it \<leftarrow> items. f (req_ProductID it) * req_Quantity it)"
    using assms(2)
  proof (induction items)
    case Nil
    then show ?case by simp
  next
    case (Cons it items)
    have "(\<Sum>pid \<in> set ids. f pid * (\<Sum>x \<leftarrow> filter (\<lambda>x. req_ProductID x = pid) (it # items). req_Quantity x)) =
        (\<Sum>pid \<in> set ids. (if pid = req_ProductID it then f pid * req_Quantity it else 0) +
           f pid * (\<Sum>x \<leftarrow> filter (\<lambda>x. req_ProductID x = pid) items. req_Quantity x))"
      by (intro sum.cong) (auto simp: algebra_simps)
    with Cons show ?case by (simp add: sum.distrib sum.delta)
  qed
  then show ?thesis
    using assms(1) by (simp add: go_get_quantityByProduct sum_list_distinct_conv_sum_set)
qed

section \<open>What the loops do\<close>

text \<open>The price and the stock of a product, and the units of it a list of item rows takes.\<close>

definition price_at :: "tables \<Rightarrow> uuid \<Rightarrow> int64" where
  "price_at t pid = (case row_by p_id pid (t_products t) of None \<Rightarrow> 0 | Some r \<Rightarrow> p_price r)"

definition stock_of :: "tables \<Rightarrow> uuid \<Rightarrow> int option" where
  "stock_of t pid = map_option (\<lambda>r. sint (p_stock r)) (row_by p_id pid (t_products t))"

definition units :: "uuid \<Rightarrow> item_row list \<Rightarrow> int" where
  "units pid rows = (\<Sum>r \<leftarrow> rows. if i_product_id r = pid then sint (i_quantity r) else 0)"

definition item_for :: "uuid \<Rightarrow> (uuid \<Rightarrow> int64) \<Rightarrow> time \<Rightarrow> CreateOrderItemRequest \<Rightarrow> item_row \<Rightarrow> bool" where
  "item_for oid price now it r \<longleftrightarrow>
     r = new_item oid (req_ProductID it) (int32_of (req_Quantity it)) (price (req_ProductID it))
           (price (req_ProductID it) * req_Quantity it) (i_id r) now"

definition take_stock :: "time \<Rightarrow> CreateOrderItemRequest list \<Rightarrow> product_row list \<Rightarrow> product_row list" where
  "take_stock now items ps =
     fold (\<lambda>it. dec_stock (req_ProductID it) (int32_of (req_Quantity it)) now) items ps"

lemma units_simps [simp]:
  "units pid [] = 0"
  "units pid (r # rows) = (if i_product_id r = pid then sint (i_quantity r) else 0) + units pid rows"
  "units pid (rows @ rows') = units pid rows + units pid rows'"
  by (simp_all add: units_def)

lemma row_by_dec_stock:
  "row_by p_id k (dec_stock pid q now ps) =
     map_option (\<lambda>r. if p_id r = pid then r\<lparr>p_stock := p_stock r - q, p_updated_at := now\<rparr> else r)
       (row_by p_id k ps)"
  unfolding dec_stock_def by (rule row_by_update) simp

lemma row_by_inc_stock:
  "row_by p_id k (inc_stock pid q now ps) =
     map_option (\<lambda>r. if p_id r = pid then r\<lparr>p_stock := p_stock r + q, p_updated_at := now\<rparr> else r)
       (row_by p_id k ps)"
  unfolding inc_stock_def by (rule row_by_update) simp

lemma stock_of_dec:
  assumes "row_by p_id pid (t_products t) = Some r"
    and "sint (p_stock r - q) = sint (p_stock r) - sint q"
  shows "stock_of (t\<lparr>t_products := dec_stock pid q now (t_products t)\<rparr>) k =
    map_option (\<lambda>n. n - (if pid = k then sint q else 0)) (stock_of t k)"
  using assms by (auto simp: stock_of_def row_by_dec_stock option.map_comp o_def dest: row_by_SomeD
    split: option.splits intro!: option.map_cong0)

lemma stock_of_inc:
  assumes "row_by p_id pid (t_products t) = Some r"
    and "sint (p_stock r + q) = sint (p_stock r) + sint q"
  shows "stock_of (t\<lparr>t_products := inc_stock pid q now (t_products t)\<rparr>) k =
    map_option (\<lambda>n. n + (if pid = k then sint q else 0)) (stock_of t k)"
  using assms by (auto simp: stock_of_def row_by_inc_stock option.map_comp o_def dest: row_by_SomeD
    split: option.splits intro!: option.map_cong0)

lemma stock_of_cong: "t_products t = t_products t' \<Longrightarrow> stock_of t = stock_of t'"
  by (simp add: stock_of_def fun_eq_iff)

lemma item_forD:
  assumes "item_for oid price now it r"
  shows "i_order_id r = oid" "i_product_id r = req_ProductID it"
    "i_quantity r = int32_of (req_Quantity it)" "i_price r = price (req_ProductID it)"
    "i_subtotal r = price (req_ProductID it) * req_Quantity it"
    "i_created_at r = now" "i_updated_at r = now"
  using assms by (cases r; simp add: item_for_def new_item_def)+

section \<open>What the service does\<close>

text \<open>
  \<open>placed\<close> says how the tables of a placed order differ from those before, and what the service
  returns: a pending order over the sum of the item prices, one item row per requested item with
  the price its product had, a pending payment over the same total, and the stock of every product
  lowered by the units the rows record. \<open>cancelled\<close> says it of a cancellation.
\<close>

definition order_total :: "(uuid \<Rightarrow> int64) \<Rightarrow> CreateOrderItemRequest list \<Rightarrow> int64" where
  "order_total price items = (\<Sum>it \<leftarrow> items. price (req_ProductID it) * req_Quantity it)"

definition placed ::
  "uuid \<Rightarrow> CreateOrderItemRequest list \<Rightarrow> time \<Rightarrow> Order \<times> OrderItem list \<times> Payment \<Rightarrow>
   tables \<Rightarrow> tables \<Rightarrow> bool" where
  "placed uid items now res t t' \<longleftrightarrow>
     (\<exists>u y rows.
        let amount = order_total (price_at t) items;
            ord = new_order uid amount u now;
            pay = new_payment u amount ''fake'' None y now in
        res = (orderFromSqlc ord, map itemFromSqlc rows, paymentFromSqlc_order pay) \<and>
        u \<notin> o_id ` set (t_orders t) \<and>
        list_all2 (item_for u (price_at t) now) items rows \<and>
        (\<forall>it \<in> set items. \<exists>n. stock_of t (req_ProductID it) = Some n \<and>
           sint (go_get (quantityByProduct items) (req_ProductID it)) \<le> n) \<and>
        t' = t\<lparr>t_products := take_stock now items (t_products t),
               t_orders := t_orders t @ [ord],
               t_items := t_items t @ rows,
               t_payments := t_payments t @ [pay]\<rparr> \<and>
        (\<forall>pid. stock_of t' pid = map_option (\<lambda>n. n - units pid rows) (stock_of t pid)))"

definition give_back :: "time \<Rightarrow> item_row list \<Rightarrow> product_row list \<Rightarrow> product_row list" where
  "give_back now rows ps = fold (\<lambda>r. inc_stock (i_product_id r) (i_quantity r) now) rows ps"

definition items_of :: "tables \<Rightarrow> uuid \<Rightarrow> item_row list" where
  "items_of t oid = filter (\<lambda>r. i_order_id r = oid) (t_items t)"

definition cancelled :: "uuid \<Rightarrow> uuid \<Rightarrow> time \<Rightarrow> Order \<Rightarrow> tables \<Rightarrow> tables \<Rightarrow> bool" where
  "cancelled uid oid now res t t' \<longleftrightarrow>
     (\<exists>ord rows.
        row_by o_id oid (t_orders t) = Some ord \<and> o_user_id ord = uid \<and> o_status ord = ''pending'' \<and>
        res = orderFromSqlc (ord\<lparr>o_status := ''cancelled'', o_updated_at := now\<rparr>) \<and>
        rows \<noteq> [] \<and> mset rows = mset (items_of t oid) \<and>
        t' = t\<lparr>t_products := give_back now rows (t_products t),
               t_orders := set_status oid ''cancelled'' now (t_orders t)\<rparr> \<and>
        (\<forall>pid. stock_of t' pid = map_option (\<lambda>n. n + units pid (items_of t oid)) (stock_of t pid)))"

lemma units_mset: "mset rows = mset rows' \<Longrightarrow> units pid rows = units pid rows'"
  unfolding units_def by (subst (1 2) sum_mset_sum_list [symmetric]) simp

text \<open>The sort of the cancelled items, whatever order they came in.\<close>

definition by_product :: "OrderItem list \<Rightarrow> OrderItem list" where
  "by_product = sort_slice (\<lambda>a b. bytes_less (uuid_bytes (OrderItem_ProductID a))
                                             (uuid_bytes (OrderItem_ProductID b)))"

lemma by_product_eq: "by_product its = sort_key OrderItem_ProductID its"
  unfolding by_product_def by (rule sort_slice_eq) (rule uuid_bytes_less)

lemma item_product [simp]: "OrderItem_ProductID (itemFromSqlc r) = i_product_id r"
  by (simp add: itemFromSqlc_def)

lemma sort_key_map: "(\<And>r. f (g r) = h r) \<Longrightarrow> sort_key f (map g rs) = map g (sort_key h rs)"
proof (induction rs)
  case Nil
  then show ?case by simp
next
  case (Cons r rs)
  have "insort_key f (g x) (map g ys) = map g (insort_key h x ys)" for x ys
    using Cons.prems by (induction ys) auto
  with Cons show ?case by simp
qed

lemma by_product_rows:
  "by_product (map itemFromSqlc rows) = map itemFromSqlc (sort_key i_product_id rows)"
  unfolding by_product_eq by (rule sort_key_map) simp

context order_store begin

lemma lock_loop_Inr:
  assumes "lv s" and "lock_loop st qs ids ps tot s = (Inr (ps', tot'), s')"
  shows "lv s' \<and> nw s' = nw s \<and> tb s' = tb s \<and> lk s' = lk s @ map ProductLock ids \<and>
    (\<forall>pid \<in> set ids. \<exists>r. row_by p_id pid (t_products (tb s)) = Some r \<and>
       sint (go_get qs pid) \<le> sint (p_stock r)) \<and>
    tot' = tot + (\<Sum>pid \<leftarrow> ids. price_at (tb s) pid * go_get qs pid) \<and>
    (\<forall>pid. go_get ps' pid = (if pid \<in> set ids then price_at (tb s) pid else go_get ps pid))"
  using assms
proof (induction ids arbitrary: ps tot s)
  case Nil
  then show ?case by (simp add: op_simps)
next
  case (Cons pid ids)
  from Cons.prems(2) obtain p s1 where
    p: "st_LockProductForUpdate st pid s = (Inr p, s1)"
    and q: "\<not> Product_Stock p <s go_get qs pid"
    and l: "lock_loop st qs ids (go_set pid (Product_Price p) ps)
       (tot + Product_Price p * go_get qs pid) s1 = (Inr (ps', tot'), s')"
    by (auto simp: op_simps split: if_splits)
  from lock_product [OF Cons.prems(1) p] obtain r where
    s1: "lv s1" "nw s1 = nw s" "tb s1 = tb s" "lk s1 = lk s @ [ProductLock pid]"
    and r: "row_by p_id pid (t_products (tb s)) = Some r" "p = productFromSqlc r" by blast
  have pr: "Product_Price p = price_at (tb s) pid" using r by (simp add: productFromSqlc_def price_at_def)
  have "sint (go_get qs pid) \<le> sint (p_stock r)"
    using q r by (simp add: productFromSqlc_def word_sless_alt)
  with Cons.IH [OF s1(1) l] s1 r(1) pr show ?case by auto
qed

lemma place_items_Inr:
  assumes "lv s" and "place_items st oid prices items before s = (Inr its, s')"
  shows "lv s' \<and> nw s' = nw s \<and>
    lk s' = lk s @ map (\<lambda>it. ProductLock (req_ProductID it)) items \<and>
    (\<exists>rows. its = before @ map itemFromSqlc rows \<and>
       list_all2 (item_for oid (go_get prices) (nw s)) items rows \<and>
       tb s' = (tb s)\<lparr>t_products := take_stock (nw s) items (t_products (tb s)),
                      t_items := t_items (tb s) @ rows\<rparr> \<and>
       (\<forall>pid. stock_of (tb s') pid = map_option (\<lambda>n. n - units pid rows) (stock_of (tb s) pid)))"
  using assms
proof (induction items arbitrary: before s)
  case Nil
  then show ?case by (simp add: op_simps take_stock_def option.map_ident)
next
  case (Cons it items)
  let ?prm = "\<lparr>prm_OrderID = oid, prm_ProductID = req_ProductID it,
    prm_Quantity = req_Quantity it, prm_Price = go_get prices (req_ProductID it)\<rparr>"
  let ?q = "int32_of (req_Quantity it)" and ?pid = "req_ProductID it"
  from Cons.prems(2) obtain i s1 n s2 where
    i: "st_CreateOrderItem st ?prm s = (Inr i, s1)"
    and d: "st_DecreaseProductStock st ?pid (req_Quantity it) s1 = (Inr n, s2)" "n \<noteq> 0"
    and l: "place_items st oid prices items (before @ [i]) s2 = (Inr its, s')"
    by (auto simp: op_simps split: if_splits)
  from create_item [OF Cons.prems(1) i] obtain row where
    s1: "lv s1" "nw s1 = nw s" "lk s1 = lk s" "tb s1 = (tb s)\<lparr>t_items := t_items (tb s) @ [row]\<rparr>"
    and row: "i = itemFromSqlc row" "item_for oid (go_get prices) (nw s) it row"
    by (auto simp: Let_def item_for_def new_item_def)
  from decrease [OF s1(1) d] obtain r where
    s2: "lv s2" "nw s2 = nw s" "lk s2 = lk s @ [ProductLock ?pid]"
      "tb s2 = (tb s1)\<lparr>t_products := dec_stock ?pid ?q (nw s) (t_products (tb s1))\<rparr>"
    and r: "row_by p_id ?pid (t_products (tb s1)) = Some r"
      "sint (p_stock r - ?q) = sint (p_stock r) - sint ?q"
    using s1 by auto
  have "stock_of (tb s1) = stock_of (tb s)" by (rule stock_of_cong) (simp add: s1(4))
  with stock_of_dec [OF r, of "nw s"] s2(4) row(2) have
    st: "stock_of (tb s2) pid = map_option (\<lambda>n. n - units pid [row]) (stock_of (tb s) pid)" for pid
    by (simp add: item_forD(2,3) [OF row(2)])
  from Cons.IH [OF s2(1) l] s2 obtain rows where
    s': "lv s'" "nw s' = nw s" "lk s' = lk s2 @ map (\<lambda>it. ProductLock (req_ProductID it)) items"
      "its = (before @ [i]) @ map itemFromSqlc rows"
      "list_all2 (item_for oid (go_get prices) (nw s)) items rows"
      "tb s' = (tb s2)\<lparr>t_products := take_stock (nw s) items (t_products (tb s2)),
                      t_items := t_items (tb s2) @ rows\<rparr>"
    and st': "\<And>pid. stock_of (tb s') pid = map_option (\<lambda>n. n - units pid rows) (stock_of (tb s2) pid)"
    by auto
  have "tb s' = (tb s)\<lparr>t_products := take_stock (nw s) (it # items) (t_products (tb s)),
      t_items := t_items (tb s) @ row # rows\<rparr>"
    using s'(6) s2(4) s1(4) by (simp add: take_stock_def)
  moreover have "stock_of (tb s') pid = map_option (\<lambda>n. n - units pid (row # rows)) (stock_of (tb s) pid)" for pid
    by (simp add: st' st option.map_comp o_def algebra_simps)
  moreover have "its = before @ map itemFromSqlc (row # rows)" using s'(4) row(1) by simp
  moreover have "list_all2 (item_for oid (go_get prices) (nw s)) (it # items) (row # rows)"
    using s'(5) row(2) by simp
  ultimately show ?case using s'(1-3) s2(3) by (intro conjI exI [of _ "row # rows"]) simp_all
qed

lemma create_order_body_Inr:
  assumes "lv s" and "create_order_body st uid items s = (Inr res, s')"
  shows "lv s' \<and> placed uid items (nw s) res (tb s) (tb s') \<and>
    lk s' = lk s @ map ProductLock (sortedProductIDs (quantityByProduct items)) @
              map (\<lambda>it. ProductLock (req_ProductID it)) items"
proof -
  let ?qs = "quantityByProduct items" and ?t = "tb s"
  let ?ids = "sortedProductIDs ?qs"
  from assms(2) obtain ps total s1 ord s2 its s3 pay s4 where
    l: "lock_loop st ?qs ?ids [] 0 s = (Inr (ps, total), s1)"
    and o: "st_CreateOrder st uid total s1 = (Inr ord, s2)"
    and i: "place_items st (Order_ID ord) ps items [] s2 = (Inr its, s3)"
    and p: "st_CreatePayment st (Order_ID ord) (Order_TotalAmount ord) s3 = (Inr pay, s')"
    and res: "res = (ord, its, pay)"
    unfolding create_order_body_def lockAndPrice_def and_then_Inr ret_Inr
    by (elim exE conjE) (simp only: split_paired_all prod.case and_then_Inr ret_Inr, elim exE conjE, blast)
  note ids = sortedProductIDs_quantity [of items]
  from lock_loop_Inr [OF assms(1) l] have
    s1: "lv s1" "nw s1 = nw s" "tb s1 = ?t" "lk s1 = lk s @ map ProductLock ?ids"
    and avail: "\<forall>pid \<in> set ?ids. \<exists>r. row_by p_id pid (t_products ?t) = Some r \<and>
       sint (go_get ?qs pid) \<le> sint (p_stock r)"
    and total: "total = (\<Sum>pid \<leftarrow> ?ids. price_at ?t pid * go_get ?qs pid)"
    and price: "\<And>pid. pid \<in> set ?ids \<Longrightarrow> go_get ps pid = price_at ?t pid"
    by auto
  have total: "total = order_total (price_at ?t) items"
    unfolding total order_total_def using ids by (intro sum_over_products) auto
  from create_order [OF s1(1) o] s1 obtain u where
    s2: "lv s2" "nw s2 = nw s" "lk s2 = lk s1"
      "tb s2 = ?t\<lparr>t_orders := t_orders ?t @ [new_order uid total u (nw s)]\<rparr>"
    and ord: "ord = orderFromSqlc (new_order uid total u (nw s))" "u \<notin> o_id ` set (t_orders ?t)"
    by (auto simp: Let_def)
  have oid: "Order_ID ord = u" "Order_TotalAmount ord = total"
    by (simp_all add: ord(1) orderFromSqlc_def new_order_def)
  from place_items_Inr [OF s2(1) i] s2 oid obtain rows where
    s3: "lv s3" "nw s3 = nw s" "lk s3 = lk s1 @ map (\<lambda>it. ProductLock (req_ProductID it)) items"
      "its = map itemFromSqlc rows" "list_all2 (item_for u (go_get ps) (nw s)) items rows"
      "tb s3 = (tb s2)\<lparr>t_products := take_stock (nw s) items (t_products ?t), t_items := t_items ?t @ rows\<rparr>"
    and stock: "\<And>pid. stock_of (tb s3) pid = map_option (\<lambda>n. n - units pid rows) (stock_of (tb s2) pid)"
    by auto
  from create_payment [OF s3(1) p] s3 oid obtain y where
    s': "lv s'" "lk s' = lk s3"
      "tb s' = (tb s3)\<lparr>t_payments := t_payments (tb s3) @ [new_payment u total ''fake'' None y (nw s)]\<rparr>"
    and pay: "pay = paymentFromSqlc_order (new_payment u total ''fake'' None y (nw s))"
    by (auto simp: Let_def)
  have "stock_of (tb s') = stock_of (tb s3)" "stock_of (tb s2) = stock_of ?t"
    by (rule stock_of_cong, simp add: s'(3) s2(4))+
  moreover have "list_all2 (item_for u (price_at ?t) (nw s)) items rows"
    using s3(5) by (rule list.rel_mono_strong) (auto simp: item_for_def price ids)
  moreover have "\<forall>it \<in> set items. \<exists>n. stock_of ?t (req_ProductID it) = Some n \<and>
      sint (go_get ?qs (req_ProductID it)) \<le> n"
    using avail ids(3) by (force simp: stock_of_def)
  ultimately have "placed uid items (nw s) res ?t (tb s')"
    unfolding placed_def Let_def total [symmetric]
    using ord s2(4) s3(4,6) s'(3) pay res stock by (intro exI [of _ u] exI [of _ y] exI [of _ rows]) simp
  then show ?thesis using s' s3(3) s1(4) by simp
qed

lemma restock_items_Inr:
  assumes "lv s" and "restock_items st (map itemFromSqlc rows) s = (Inr x, s')"
  shows "lv s' \<and> nw s' = nw s \<and>
    tb s' = (tb s)\<lparr>t_products := give_back (nw s) rows (t_products (tb s))\<rparr> \<and>
    (\<forall>pid. stock_of (tb s') pid = map_option (\<lambda>n. n + units pid rows) (stock_of (tb s) pid))"
  using assms
proof (induction rows arbitrary: s)
  case Nil
  then show ?case by (simp add: op_simps give_back_def option.map_ident)
next
  case (Cons row rows)
  let ?pid = "i_product_id row"
  have q: "OrderItem_ProductID (itemFromSqlc row) = ?pid"
    "int32_of (OrderItem_Quantity (itemFromSqlc row)) = i_quantity row"
    by (simp_all add: itemFromSqlc_def)
  from Cons.prems(2) q obtain p s1 n s2 where
    p: "st_LockProductForUpdate st ?pid s = (Inr p, s1)"
    and i: "st_IncreaseProductStock st ?pid (OrderItem_Quantity (itemFromSqlc row)) s1 = (Inr n, s2)" "n \<noteq> 0"
    and l: "restock_items st (map itemFromSqlc rows) s2 = (Inr x, s')"
    by (auto simp: op_simps split: if_splits)
  from lock_product [OF Cons.prems(1) p] have s1: "lv s1" "nw s1 = nw s" "tb s1 = tb s" by simp_all
  from increase [OF s1(1) i] s1 q obtain r where
    s2: "lv s2" "nw s2 = nw s"
      "tb s2 = (tb s)\<lparr>t_products := inc_stock ?pid (i_quantity row) (nw s) (t_products (tb s))\<rparr>"
    and r: "row_by p_id ?pid (t_products (tb s)) = Some r"
      "sint (p_stock r + i_quantity row) = sint (p_stock r) + sint (i_quantity row)"
    by auto
  from stock_of_inc [OF r, of "nw s"] s2(3)
  have st: "stock_of (tb s2) pid = map_option (\<lambda>n. n + units pid [row]) (stock_of (tb s) pid)" for pid
    by simp
  from Cons.IH [OF s2(1) l] s2 have
    s': "lv s'" "nw s' = nw s"
      "tb s' = (tb s2)\<lparr>t_products := give_back (nw s) rows (t_products (tb s2))\<rparr>"
    and st': "\<And>pid. stock_of (tb s') pid = map_option (\<lambda>n. n + units pid rows) (stock_of (tb s2) pid)"
    by auto
  have "stock_of (tb s') pid = map_option (\<lambda>n. n + units pid (row # rows)) (stock_of (tb s) pid)" for pid
    unfolding st' st by (simp add: option.map_comp o_def algebra_simps)
  with s' s2(3) show ?case by (simp add: give_back_def)
qed

lemma cancel_order_body_Inr:
  assumes "lv s" and "cancel_order_body st uid oid s = (Inr res, s')"
  shows "lv s' \<and> cancelled uid oid (nw s) res (tb s) (tb s')"
proof -
  let ?t = "tb s"
  from assms(2) obtain ord s1 its s2 s3 where
    o: "st_LockOrderForUpdate st uid oid s = (Inr ord, s1)" and pending: "Order_Status ord = ''pending''"
    and g: "st_GetOrderItemsByOrderID st oid s1 = (Inr its, s2)" "its \<noteq> []"
    and r: "restock_items st (by_product its) s2 = (Inr (), s3)"
    and up: "st_UpdateOrderStatus st uid oid ''cancelled'' s3 = (Inr res, s')"
    by (auto simp: cancel_order_body_def by_product_def op_simps split: if_splits)
  from lock_order [OF assms(1) o] obtain ow where
    s1: "lv s1" "nw s1 = nw s" "tb s1 = ?t" "OrderLock oid \<in> set (lk s1)"
    and ow: "row_by o_id oid (t_orders ?t) = Some ow" "o_user_id ow = uid" "ord = orderFromSqlc ow" by auto
  from get_items [OF s1(1,4) g(1)] s1 obtain rows where
    s2: "lv s2" "nw s2 = nw s" "tb s2 = ?t"
    and rows: "its = map itemFromSqlc rows" "mset rows = mset (items_of ?t oid)"
    by (auto simp: items_of_def)
  let ?rows = "sort_key i_product_id rows"
  from restock_items_Inr [OF s2(1) r [unfolded rows by_product_rows]] s2 have
    s3: "lv s3" "nw s3 = nw s" "tb s3 = ?t\<lparr>t_products := give_back (nw s) ?rows (t_products ?t)\<rparr>"
    and stock: "\<And>pid. stock_of (tb s3) pid = map_option (\<lambda>n. n + units pid ?rows) (stock_of ?t pid)"
    by auto
  from update_status [OF s3(1) up] s3 ow obtain
    s': "lv s'" "tb s' = (tb s3)\<lparr>t_orders := set_status oid ''cancelled'' (nw s) (t_orders ?t)\<rparr>"
    and res: "res = orderFromSqlc (ow\<lparr>o_status := ''cancelled'', o_updated_at := nw s\<rparr>)"
    by auto
  have "stock_of (tb s') = stock_of (tb s3)" by (rule stock_of_cong) (simp add: s'(2))
  moreover have "units pid ?rows = units pid (items_of ?t oid)" for pid
    by (rule units_mset) (simp add: rows(2))
  moreover have "rows \<noteq> []" using g(2) rows(1) by simp
  moreover have "?rows \<noteq> []" using \<open>rows \<noteq> []\<close> by (metis length_0_conv length_sort)
  moreover have "mset ?rows = mset (items_of ?t oid)" using rows(2) by simp
  ultimately have "cancelled uid oid (nw s) res ?t (tb s')"
    unfolding cancelled_def using ow pending res s'(2) s3(3) stock
    by (intro exI [of _ ow] exI [of _ ?rows]) (simp add: orderFromSqlc_def)
  with s'(1) show ?thesis by blast
qed

end

section \<open>The service over PostgreSQL\<close>

lemma stays_lock_loop [stays_intros]: "stays (lock_loop order_repository qs ids ps tot)"
  by (induction ids arbitrary: ps tot) (auto simp: order_repository_def intro!: stays_intros)

lemma stays_place_items [stays_intros]: "stays (place_items order_repository oid ps items before)"
  by (induction items arbitrary: before) (auto simp: order_repository_def intro!: stays_intros)

lemma stays_restock_items [stays_intros]: "stays (restock_items order_repository its)"
  by (induction its) (auto simp: order_repository_def intro!: stays_intros)

lemma stays_case_prod [stays_intros]: "(\<And>a b. stays (f a b)) \<Longrightarrow> stays (case p of (a, b) \<Rightarrow> f a b)"
  by (cases p) simp

lemma stays_bodies [stays_intros]:
  "stays (create_order_body order_repository uid items)"
  "stays (cancel_order_body order_repository uid oid)"
  unfolding create_order_body_def cancel_order_body_def lockAndPrice_def
  by (intro stays_intros stays_lock_loop stays_place_items stays_restock_items;
      simp add: order_repository_def stays_intros)+

lemma keeps_lock_loop [keeps_intros]:
  "keeps (holds schema_ok) (lock_loop order_repository qs ids ps tot)"
  by (induction ids arbitrary: ps tot) (auto simp: order_repository_def intro!: keeps_intros)

lemma keeps_place_items [keeps_intros]:
  "keeps (holds schema_ok) (place_items order_repository oid ps items before)"
  by (induction items arbitrary: before) (auto simp: order_repository_def intro!: keeps_intros)

lemma keeps_restock_items [keeps_intros]:
  "keeps (holds schema_ok) (restock_items order_repository its)"
  by (induction its) (auto simp: order_repository_def intro!: keeps_intros)

lemma keeps_case_prod [keeps_intros]: "(\<And>a b. keeps I (f a b)) \<Longrightarrow> keeps I (case p of (a, b) \<Rightarrow> f a b)"
  by (cases p) simp

lemma keeps_bodies [keeps_intros]:
  "keeps (holds schema_ok) (create_order_body order_repository uid items)"
  "keeps (holds schema_ok) (cancel_order_body order_repository uid oid)"
  unfolding create_order_body_def cancel_order_body_def lockAndPrice_def
  by (intro keeps_intros keeps_lock_loop keeps_place_items keeps_restock_items;
      simp add: order_repository_def keeps_intros)+

lemma keeps_schema_orders [keeps_intros]:
  "keeps (holds schema_ok) (CreateOrder uid items)" "keeps (holds schema_ok) (CancelOrder uid oid)"
  unfolding CreateOrder_def CancelOrder_def svc_CreateOrder_def svc_CancelOrder_def
  by (intro keeps_intros)+

text \<open>The total as an integer: exact as long as the integer sum fits.\<close>

definition exact_total :: "(uuid \<Rightarrow> int64) \<Rightarrow> CreateOrderItemRequest list \<Rightarrow> int" where
  "exact_total price items = (\<Sum>it \<leftarrow> items. sint (price (req_ProductID it)) * sint (req_Quantity it))"

lemma order_total_exact: "order_total price items = word_of_int (exact_total price items)"
  by (induction items) (simp_all add: order_total_def exact_total_def wi_hom_syms)

lemma sint_word_of_int64:
  "- (2 ^ 63) \<le> k \<Longrightarrow> k < 2 ^ 63 \<Longrightarrow> sint (word_of_int k :: int64) = k"
  by (simp add: sint_sbintrunc' signed_take_bit_int_eq_self)

lemma exact_total_ge_0:
  assumes "\<And>it. it \<in> set items \<Longrightarrow> 0 \<le> sint (price (req_ProductID it)) \<and> 0 \<le> sint (req_Quantity it)"
  shows "0 \<le> exact_total price items"
  unfolding exact_total_def using assms by (intro sum_list_nonneg) auto

text \<open>The rows of a placed order satisfy the checks, so a quantity that fits 32 bits is positive.\<close>

lemma price_at_ge_0: "schema_ok t \<Longrightarrow> 0 \<le> sint (price_at t pid)"
  by (auto simp: price_at_def schema_ok_def product_check_def split: option.splits dest: row_by_SomeD)

lemma placed_quantities:
  assumes "schema_ok t'" and "placed uid items now res t t'"
    and "it \<in> set items" and "- (2 ^ 31) \<le> sint (req_Quantity it)" "sint (req_Quantity it) < 2 ^ 31"
  shows "0 < sint (req_Quantity it)"
proof -
  from assms(2) obtain u rows where "list_all2 (item_for u (price_at t) now) items rows"
    and rows: "set rows \<subseteq> set (t_items t')"
    by (auto simp: placed_def Let_def)
  with assms(3) obtain row where "row \<in> set rows" "item_for u (price_at t) now it row"
    by (metis in_set_conv_nth list_all2_conv_all_nth)
  with rows assms(1) have "item_check row" by (auto simp: schema_ok_def)
  then have "0 < sint (int32_of (req_Quantity it))"
    using item_forD(3) [OF \<open>item_for u (price_at t) now it row\<close>] by (simp add: item_check_def)
  then show ?thesis using sint_int32_of assms(4,5) by simp
qed

lemma placed_amounts:
  assumes "placed uid items now (ord, its, pay) t t'"
  shows "Order_TotalAmount ord = order_total (price_at t) items" "Payment_Amount pay = Order_TotalAmount ord"
    "Payment_OrderID pay = Order_ID ord"
    "map OrderItem_SubTotal its = map (\<lambda>it. price_at t (req_ProductID it) * req_Quantity it) items"
proof -
  have "map OrderItem_SubTotal (map itemFromSqlc rows) =
      map (\<lambda>it. price_at t (req_ProductID it) * req_Quantity it) items"
    if "list_all2 (item_for u (price_at t) now) items rows" for u rows
    using that by induction (auto simp: itemFromSqlc_def dest: item_forD)
  with assms show "map OrderItem_SubTotal its = map (\<lambda>it. price_at t (req_ProductID it) * req_Quantity it) items"
    by (auto simp: placed_def Let_def)
qed (use assms in \<open>auto simp: placed_def Let_def orderFromSqlc_def paymentFromSqlc_order_def
       new_order_def new_payment_def\<close>)

lemma CreateOrder_run:
  "CreateOrder uid items = WithinTx (create_order_body order_repository uid items)"
  by (simp add: CreateOrder_def svc_CreateOrder_def)

lemma CancelOrder_run:
  "CancelOrder uid oid = WithinTx (cancel_order_body order_repository uid oid)"
  by (simp add: CancelOrder_def svc_CancelOrder_def)

lemma cancelled_pending:
  "cancelled uid oid now res t t' \<Longrightarrow>
   \<exists>r. row_by o_id oid (t_orders t) = Some r \<and> o_user_id r = uid \<and> o_status r = ''pending''"
  by (auto simp: cancelled_def)

lemma not_placed:
  "placed uid items now res t t' \<Longrightarrow> it \<in> set items \<Longrightarrow>
   \<exists>n. stock_of t (req_ProductID it) = Some n \<and>
     sint (go_get (quantityByProduct items) (req_ProductID it)) \<le> n"
  by (auto simp: placed_def Let_def)

lemma CreateOrder_idle: "idle w \<Longrightarrow> CreateOrder uid items w = (r, w') \<Longrightarrow> idle w'"
  unfolding CreateOrder_run by (rule idle_WithinTx [OF _ stays_bodies(1) keeps_bodies(1)])

lemma CancelOrder_idle: "idle w \<Longrightarrow> CancelOrder uid oid w = (r, w') \<Longrightarrow> idle w'"
  unfolding CancelOrder_run by (rule idle_WithinTx [OF _ stays_bodies(2) keeps_bodies(2)])

lemma CreateOrder_frame:
  "idle w \<Longrightarrow> CreateOrder uid items w = (r, w') \<Longrightarrow> env w' = env w \<and> charges w' = charges w \<and> draw_no w \<le> draw_no w'"
  unfolding CreateOrder_run using WithinTx_ends [OF _ stays_bodies(1)] by (auto simp: idle_def)

lemma CancelOrder_frame:
  "idle w \<Longrightarrow> CancelOrder uid oid w = (r, w') \<Longrightarrow> env w' = env w \<and> charges w' = charges w \<and> draw_no w \<le> draw_no w'"
  unfolding CancelOrder_run using WithinTx_ends [OF _ stays_bodies(2)] by (auto simp: idle_def)

lemma CreateOrder_cases:
  assumes "idle w" and r: "CreateOrder uid items w = (r, w')"
  shows "(isl r \<and> tables w' = tables w) \<or>
    (\<exists>now res. placed uid items now res (tables w) (tables w') \<and> (isl r \<or> r = Inr res))"
proof -
  have "(\<exists>res. (\<exists>now. placed uid items now res (tables w) (tables w')) \<and> (isl r \<or> r = Inr res)) \<or>
      (isl r \<and> tables w' = tables w)"
    by (rule pg_tx.all_or_nothing [OF assms(1) stays_bodies(1) _ r [unfolded CreateOrder_run]])
      (use pg.create_order_body_Inr in blast)
  then show ?thesis by blast
qed

lemma CancelOrder_cases:
  assumes "idle w" and r: "CancelOrder uid oid w = (r, w')"
  shows "(isl r \<and> tables w' = tables w) \<or>
    (\<exists>now res. cancelled uid oid now res (tables w) (tables w') \<and> (isl r \<or> r = Inr res))"
proof -
  have "(\<exists>res. (\<exists>now. cancelled uid oid now res (tables w) (tables w')) \<and> (isl r \<or> r = Inr res)) \<or>
      (isl r \<and> tables w' = tables w)"
    by (rule pg_tx.all_or_nothing [OF assms(1) stays_bodies(2) _ r [unfolded CancelOrder_run]])
      (use pg.cancel_order_body_Inr in blast)
  then show ?thesis by blast
qed

section \<open>A sample order\<close>

text \<open>
  The order the properties are evaluated at, the database with it, and with it cancelled. The sample
  order takes twelve statements: the last one, number 11, is the commit.
\<close>

definition sample_items :: "CreateOrderItemRequest list" where
  "sample_items = [\<lparr>req_ProductID = 20, req_Quantity = 2\<rparr>, \<lparr>req_ProductID = 10, req_Quantity = 1\<rparr>,
     \<lparr>req_ProductID = 20, req_Quantity = 1\<rparr>]"

definition sample_order :: "(nat \<Rightarrow> fault) \<Rightarrow> (go_error + Order \<times> OrderItem list \<times> Payment) \<times> world" where
  "sample_order faults = CreateOrder 1 sample_items (sample_world faults 0 sample_tables)"

definition sample_placed :: "(nat \<Rightarrow> fault) \<Rightarrow> nat \<Rightarrow> world" where
  "sample_placed faults rand = sample_world faults rand (tables (snd (sample_order all_works)))"

definition sample_cancelled :: "(nat \<Rightarrow> fault) \<Rightarrow> nat \<Rightarrow> world" where
  "sample_cancelled faults rand =
     sample_world faults rand (tables (snd (CancelOrder 1 100 (sample_placed all_works 0))))"

definition sample_order2 :: "(nat \<Rightarrow> fault) \<Rightarrow> (go_error + Order \<times> OrderItem list \<times> Payment) \<times> world" where
  "sample_order2 faults =
     CreateOrder 1 (\<lparr>req_ProductID = 20, req_Quantity = 2\<rparr> # \<lparr>req_ProductID = 20, req_Quantity = 2\<rparr> # sample_items)
       (sample_world faults 0 sample_tables)"

lemma sample_idle:
  "idle (sample_world faults rand sample_tables)"
  "idle (sample_placed faults rand)"
  "idle (sample_cancelled faults rand)"
  by (rule sample_idle_tables, code_simp+)

section \<open>Properties\<close>

text \<open>
  C1. Placing an order is atomic under any failure of any statement, the commit included: the
  tables are those before and the caller gets an error, or the whole order is there as \<open>placed\<close>
  describes it (the order, an item per requested item at the current price, a pending payment over
  the same amount, the stock taken), and the caller gets it or (when only the acknowledgement of
  the commit was lost) an error. The schema's constraints hold again and no transaction is open.
\<close>

theorem CreateOrder_atomic:
  assumes "idle w" and "CreateOrder uid items w = (r, w')"
  shows "idle w' \<and> charges w' = charges w \<and>
    ((isl r \<and> tables w' = tables w) \<or>
     (\<exists>now res. placed uid items now res (tables w) (tables w') \<and> (isl r \<or> r = Inr res)))"
  using CreateOrder_cases [OF assms] CreateOrder_idle [OF assms] CreateOrder_frame [OF assms] by blast

theorem CreateOrder_atomic_witness:
  "(let (r, w') = sample_order all_works in
     \<not> isl r \<and> (\<exists>now. placed 1 sample_items now (projr r) sample_tables (tables w'))) \<and>
   (let (r, w') = sample_order (fault_at 10 Fails) in isl r \<and> tables w' = sample_tables) \<and>
   (let (r, w') = sample_order (fault_at 11 AckLost) in
     isl r \<and> (\<exists>now res. placed 1 sample_items now res sample_tables (tables w')))"
proof -
  have run: "isl (fst (sample_order f)) \<and> tables (snd (sample_order f)) = sample_tables \<or>
      (\<exists>now res. placed 1 sample_items now res sample_tables (tables (snd (sample_order f))) \<and>
         (isl (fst (sample_order f)) \<or> fst (sample_order f) = Inr res))" for f
    using CreateOrder_atomic [OF sample_idle(1) [of f 0] prod.collapse [symmetric], of 1 sample_items]
    by (simp add: sample_order_def)
  have "\<not> isl (fst (sample_order all_works))"
    "isl (fst (sample_order (fault_at 10 Fails)))" "tables (snd (sample_order (fault_at 10 Fails))) = sample_tables"
    "isl (fst (sample_order (fault_at 11 AckLost)))"
    "t_orders (tables (snd (sample_order (fault_at 11 AckLost)))) \<noteq> t_orders sample_tables"
    by code_simp+
  with run [of all_works] run [of "fault_at 11 AckLost"] show ?thesis
    by (auto simp: case_prod_beta)
qed

text \<open>
  C22. Cancelling an order is atomic under any failure: nothing changed and the caller gets an error,
  or the order was pending, is cancelled now, and every unit its items had taken is back in stock.
\<close>

theorem CancelOrder_atomic:
  assumes "idle w" and "CancelOrder uid oid w = (r, w')"
  shows "idle w' \<and> charges w' = charges w \<and>
    ((isl r \<and> tables w' = tables w) \<or>
     (\<exists>now res. cancelled uid oid now res (tables w) (tables w') \<and> (isl r \<or> r = Inr res)))"
  using CancelOrder_cases [OF assms] CancelOrder_idle [OF assms] CancelOrder_frame [OF assms] by blast

theorem CancelOrder_atomic_witness:
  "let (r, w') = CancelOrder 1 100 (sample_placed all_works 0) in
     \<exists>now. cancelled 1 100 now (projr r) (tables (sample_placed all_works 0)) (tables w')"
proof -
  have "\<not> isl (fst (CancelOrder 1 100 (sample_placed all_works 0)))" by code_simp
  with CancelOrder_atomic [OF sample_idle(2) prod.collapse [symmetric], of 1 100 all_works 0]
  show ?thesis by (auto simp: case_prod_beta)
qed

text \<open>
  C23. Only the owner's pending order can be cancelled: for an order that does not exist, belongs to
  somebody else, is paid or is cancelled already, \<open>CancelOrder\<close> returns an error and changes
  nothing. So no cancellation gives stock back twice.
\<close>

theorem CancelOrder_only_pending:
  assumes "idle w" and "CancelOrder uid oid w = (r, w')"
    and "case row_by o_id oid (t_orders (tables w)) of
           None \<Rightarrow> True | Some ord \<Rightarrow> o_user_id ord \<noteq> uid \<or> o_status ord \<noteq> ''pending''"
  shows "isl r \<and> tables w' = tables w"
  using CancelOrder_cases [OF assms(1,2)] assms(3) cancelled_pending by fastforce

theorem CancelOrder_only_pending_witness:
  "isl (fst (CancelOrder 1 100 (sample_cancelled all_works 0))) \<and>
   tables (snd (CancelOrder 1 100 (sample_cancelled all_works 0))) = tables (sample_cancelled all_works 0)"
  by (rule CancelOrder_only_pending [OF sample_idle(3) prod.collapse [symmetric]]) code_simp

text \<open>
  C10. No overselling: when the units an order asks of some product, summed over its items in the
  64-bit integers of the code, exceed the stock, or the product does not exist, the order is
  refused and nothing changes.
\<close>

theorem CreateOrder_never_oversells:
  assumes "idle w" and "CreateOrder uid items w = (r, w')" and "it \<in> set items"
    and "case stock_of (tables w) (req_ProductID it) of
           None \<Rightarrow> True | Some n \<Rightarrow> n < sint (go_get (quantityByProduct items) (req_ProductID it))"
  shows "isl r \<and> tables w' = tables w"
  using CreateOrder_cases [OF assms(1,2)] assms(3,4) not_placed by fastforce

theorem CreateOrder_never_oversells_witness:
  "isl (fst (sample_order2 all_works)) \<and> tables (snd (sample_order2 all_works)) = sample_tables"
proof -
  have "isl (fst (sample_order2 all_works)) \<and>
      tables (snd (sample_order2 all_works)) = tables (sample_world all_works 0 sample_tables)"
    unfolding sample_order2_def
    by (rule CreateOrder_never_oversells [OF sample_idle(1) prod.collapse [symmetric],
          where it = "\<lparr>req_ProductID = 20, req_Quantity = 2\<rparr>"]) code_simp+
  then show ?thesis by simp
qed

text \<open>
  C21. The money adds up: when every quantity fits 32 bits and the exact sum of price times quantity
  fits 63, the order's total is that sum, it is the sum of the subtotals of its items, and the
  payment is over the same amount. (The code itself checks neither bound.)
\<close>

theorem CreateOrder_total:
  assumes "idle w" and "CreateOrder uid items w = (Inr (ord, its, pay), w')"
    and "\<forall>it \<in> set items. - (2 ^ 31) \<le> sint (req_Quantity it) \<and> sint (req_Quantity it) < 2 ^ 31"
    and "exact_total (price_at (tables w)) items < 2 ^ 63"
  shows "sint (Order_TotalAmount ord) = exact_total (price_at (tables w)) items \<and>
    Order_TotalAmount ord = sum_list (map OrderItem_SubTotal its) \<and>
    Payment_Amount pay = Order_TotalAmount ord \<and> Payment_OrderID pay = Order_ID ord"
proof -
  let ?t = "tables w"
  from CreateOrder_cases [OF assms(1,2)] obtain now where
    p: "placed uid items now (ord, its, pay) ?t (tables w')" by auto
  note amounts = placed_amounts [OF p]
  have "schema_ok ?t" "schema_ok (tables w')"
    using assms(1) CreateOrder_idle [OF assms(1,2)] by (simp_all add: idle_def)
  then have "0 \<le> exact_total (price_at ?t) items"
    using placed_quantities [OF _ p] assms(3) by (intro exact_total_ge_0) (force simp: price_at_ge_0)
  then have "sint (order_total (price_at ?t) items) = exact_total (price_at ?t) items"
    using assms(4) by (simp add: order_total_exact sint_word_of_int64)
  then show ?thesis using amounts by (simp add: order_total_def)
qed


theorem CreateOrder_total_witness:
  "\<exists>ord its pay w'. sample_order all_works = (Inr (ord, its, pay), w') \<and>
     sint (Order_TotalAmount ord) = 1250 \<and> Payment_Amount pay = Order_TotalAmount ord"
proof -
  have "\<not> isl (fst (sample_order all_works))" by code_simp
  then obtain ord its pay w' where run: "sample_order all_works = (Inr (ord, its, pay), w')"
    by (metis prod.collapse sum.collapse(2))
  let ?exact = "exact_total (price_at (tables (sample_world all_works 0 sample_tables))) sample_items"
  have exact: "?exact = 1250" and "?exact < 2 ^ 63"
    "\<forall>it \<in> set sample_items. - (2 ^ 31) \<le> sint (req_Quantity it) \<and> sint (req_Quantity it) < 2 ^ 31"
    by code_simp+
  from CreateOrder_total [OF sample_idle(1) run [unfolded sample_order_def] this(3,2)]
  have "sint (Order_TotalAmount ord) = ?exact" "Payment_Amount pay = Order_TotalAmount ord" by blast+
  then have "sint (Order_TotalAmount ord) = 1250" "Payment_Amount pay = Order_TotalAmount ord"
    by (simp_all only: exact)
  with run show ?thesis by blast
qed

text \<open>
  Reading an order never changes anything, and only its owner sees it: the answer is the row
  with this id and this user, or an error, which is \<open>ErrOrderNotFound\<close> only if there is none.
\<close>

theorem GetOrderByID_own_order:
  assumes "svc_GetOrderByID order_repository uid oid w = (r, w')"
  shows "tables w' = tables w \<and>
    (case r of
       Inr ord \<Rightarrow> \<exists>row \<in> set (t_orders (tables w)). o_id row = oid \<and> o_user_id row = uid \<and> ord = orderFromSqlc row
     | Inl e \<Rightarrow> e = ErrConn \<or> e = OrderErr ErrOrderNotFound \<and>
         (\<forall>row \<in> set (t_orders (tables w)). \<not> (o_id row = oid \<and> o_user_id row = uid)))"
proof -
  from assms obtain q where q: "sql_GetOrderByID oid uid w = (q, w')"
    and r: "r = (case q of Inl e \<Rightarrow> Inl (not_found (OrderErr ErrOrderNotFound) e) | Inr row \<Rightarrow> Inr (orderFromSqlc row))"
    by (auto simp: svc_GetOrderByID_def order_repository_def store_GetOrderByID_def map_ok_def map_err_def
        and_then_def ret_def split: prod.splits sum.splits)
  from query_rows_cases [OF q [unfolded sql_GetOrderByID_def]] show ?thesis
  proof (elim conjE disjE exE)
    fix rs
    assume t: "tables w' = tables w" and rs: "mset rs = mset (getOrderByID oid uid (tables w))" "q = one_row rs"
    from mset_eq_setD [OF rs(1)] have set: "set rs = {row \<in> set (t_orders (tables w)). o_id row = oid \<and> o_user_id row = uid}"
      by (auto simp: getOrderByID_def)
    with t rs(2) r show ?thesis by (cases rs) (auto simp: one_row_def not_found_def)
  qed (use r in \<open>simp add: not_found_def\<close>)
qed

theorem GetOrderByID_own_order_witness:
  "tables (snd (svc_GetOrderByID order_repository 2 100 (sample_placed all_works 0))) = tables (sample_placed all_works 0) \<and>
   fst (svc_GetOrderByID order_repository 2 100 (sample_placed all_works 0)) = Inl (OrderErr ErrOrderNotFound) \<and>
   map_sum (\<lambda>_. ()) Order_UserID (fst (svc_GetOrderByID order_repository 1 100 (sample_placed all_works 0))) = Inr 1"
proof -
  have "fst (svc_GetOrderByID order_repository 2 100 (sample_placed all_works 0)) = Inl (OrderErr ErrOrderNotFound)"
    "map_sum (\<lambda>_. ()) Order_UserID (fst (svc_GetOrderByID order_repository 1 100 (sample_placed all_works 0))) = Inr 1"
    by code_simp+
  with GetOrderByID_own_order [OF prod.collapse [symmetric], of 2 100 "sample_placed all_works 0"]
  show ?thesis by blast
qed

end
