(* ===== verification/Payment.thy ===== *)
theory Payment
  imports Order_Service
begin

text \<open>
  Paying an order: the SQL statements (\<open>payment/sqlc/payment.sql.go\<close>), the fake provider
  (\<open>fake_provider.go\<close>), the repository's \<open>Pay\<close> transaction and \<open>GetPaymentByOrderID\<close>
  (\<open>payment_repository.go\<close>). The service (\<open>payment_service.go\<close>) hands both through. The package's
  \<open>Payment\<close> and \<open>Order\<close> structs have the fields of those of the order package and are modelled by
  the same records.
\<close>

section \<open>The SQL statements\<close>

definition getPaymentByOrderID :: "uuid \<Rightarrow> uuid \<Rightarrow> tables \<Rightarrow> payment_row list" where
  "getPaymentByOrderID oid user_id t =
     [p. p \<leftarrow> t_payments t, r \<leftarrow> t_orders t,
         o_id r = y_order_id p \<and> o_id r = oid \<and> o_user_id r = user_id]"

definition sql_GetPaymentByOrderID :: "uuid \<Rightarrow> uuid \<Rightarrow> payment_row db_op" where
  "sql_GetPaymentByOrderID oid user_id = query_rows (getPaymentByOrderID oid user_id) one_row"

definition lockOrderForPayment :: "uuid \<Rightarrow> uuid \<Rightarrow> order_row sql" where
  "lockOrderForPayment oid user_id =
     select_for_update (\<lambda>r. OrderLock (o_id r))
       (\<lambda>t. filter (\<lambda>r. o_id r = oid \<and> o_user_id r = user_id) (t_orders t))"

definition sql_LockOrderForPayment :: "uuid \<Rightarrow> uuid \<Rightarrow> order_row db_op" where
  "sql_LockOrderForPayment oid user_id = exec_sql (lockOrderForPayment oid user_id)"

definition lockPaymentForUpdate :: "uuid \<Rightarrow> payment_row sql" where
  "lockPaymentForUpdate oid =
     select_for_update (\<lambda>r. PaymentLock (y_id r)) (\<lambda>t. filter (\<lambda>r. y_order_id r = oid) (t_payments t))"

definition sql_LockPaymentForUpdate :: "uuid \<Rightarrow> payment_row db_op" where
  "sql_LockPaymentForUpdate oid = exec_sql (lockPaymentForUpdate oid)"

definition markOrderAsPaid :: "uuid \<Rightarrow> order_row sql" where
  "markOrderAsPaid oid = returning_one (update_orders (\<lambda>r. o_id r = oid) ''paid'')"

definition sql_MarkOrderAsPaid :: "uuid \<Rightarrow> order_row db_op" where
  "sql_MarkOrderAsPaid oid = exec_sql (markOrderAsPaid oid)"

definition updatePaymentStatus :: "string \<Rightarrow> string option \<Rightarrow> uuid \<Rightarrow> payment_row sql" where
  "updatePaymentStatus status transaction_id oid =
     unique_after (\<lambda>t. distinct (transaction_keys (t_payments t)))
       (returning_one
         (update_table (\<lambda>r. [PaymentLock (y_id r)]) t_payments (\<lambda>rs t. t\<lparr>t_payments := rs\<rparr>)
           (\<lambda>r. y_order_id r = oid)
           (\<lambda>now r. checked payment_check
              (r\<lparr>y_status := status, y_transaction_id := transaction_id, y_updated_at := now\<rparr>))))"

definition sql_UpdatePaymentStatus :: "string \<Rightarrow> string option \<Rightarrow> uuid \<Rightarrow> payment_row db_op" where
  "sql_UpdatePaymentStatus status transaction_id oid =
     exec_sql (updatePaymentStatus status transaction_id oid)"

section \<open>Paying\<close>

text \<open>
  \<open>Charge\<close> draws a transaction id and a random number; \<open>rand.Intn(100) < 80\<close> is a success. The call
  is recorded in the world's \<open>charges\<close> under the order it is made for: nothing undoes a charge.
\<close>

definition Charge :: "uuid \<Rightarrow> goint \<Rightarrow> (bool \<times> string) db_op" where
  "Charge oid amount w =
     (let transactionID = env_txid (env w) (draw_no w);
          success = env_rand (env w) (draw_no w) mod 100 < 80 in
      (Inr (success, transactionID),
       w\<lparr>draw_no := Suc (draw_no w),
         charges := charges w @ [\<lparr>c_order = oid, c_amount = amount, c_txid = transactionID,
                                  c_success = success\<rparr>]\<rparr>))"

definition transactionIDPtr :: "string option \<Rightarrow> string option" where
  "transactionIDPtr t = (case t of None \<Rightarrow> None | Some s \<Rightarrow> Some s)"

definition paymentFromSqlc :: "payment_row \<Rightarrow> Payment" where
  "paymentFromSqlc r = \<lparr>Payment_ID = y_id r, Payment_OrderID = y_order_id r,
     Payment_Amount = y_amount r, Payment_Status = y_status r,
     Payment_TransactionID = transactionIDPtr (y_transaction_id r),
     Payment_Provider = y_provider r, Payment_CreatedAt = y_created_at r,
     Payment_UpdatedAt = y_updated_at r\<rparr>"

text \<open>
  The queries of the transaction, \<open>qtx\<close>, and the provider's \<open>Charge\<close>, as \<open>Pay\<close> calls them.
\<close>

record 's pay_queries =
  q_LockOrderForPayment :: "uuid \<Rightarrow> uuid \<Rightarrow> ('s, go_error, order_row) op"
  q_LockPaymentForUpdate :: "uuid \<Rightarrow> ('s, go_error, payment_row) op"
  q_Charge :: "uuid \<Rightarrow> goint \<Rightarrow> ('s, go_error, bool \<times> string) op"
  q_UpdatePaymentStatus :: "string \<Rightarrow> string option \<Rightarrow> uuid \<Rightarrow> ('s, go_error, payment_row) op"
  q_MarkOrderAsPaid :: "uuid \<Rightarrow> ('s, go_error, order_row) op"

definition pg_queries :: "world pay_queries" where
  "pg_queries = \<lparr>
     q_LockOrderForPayment = sql_LockOrderForPayment,
     q_LockPaymentForUpdate = sql_LockPaymentForUpdate,
     q_Charge = Charge,
     q_UpdatePaymentStatus = sql_UpdatePaymentStatus,
     q_MarkOrderAsPaid = sql_MarkOrderAsPaid\<rparr>"

lemma pg_queries_simps [simp]:
  "q_LockOrderForPayment pg_queries = sql_LockOrderForPayment"
  "q_LockPaymentForUpdate pg_queries = sql_LockPaymentForUpdate"
  "q_Charge pg_queries = Charge"
  "q_UpdatePaymentStatus pg_queries = sql_UpdatePaymentStatus"
  "q_MarkOrderAsPaid pg_queries = sql_MarkOrderAsPaid"
  by (simp_all add: pg_queries_def)

text \<open>The first half of \<open>Pay\<close>: lock the caller's order, then its payment.\<close>

definition pay_lock ::
  "'s pay_queries \<Rightarrow> uuid \<Rightarrow> uuid \<Rightarrow> ('s, go_error, order_row \<times> payment_row) op" where
  "pay_lock q userID orderID =
     and_then (map_err (not_found (PaymentErr ErrNoOrderFound)) (q_LockOrderForPayment q orderID userID))
       (\<lambda>sqlcOrder.
     and_then (map_err (not_found (PaymentErr ErrNoPaymentFound)) (q_LockPaymentForUpdate q (o_id sqlcOrder)))
       (\<lambda>sqlcPayment. ret (sqlcOrder, sqlcPayment)))"

text \<open>The second half, after the charge: write its outcome, and mark the order when it succeeded.\<close>

definition pay_settle ::
  "'s pay_queries \<Rightarrow> order_row \<Rightarrow> bool \<Rightarrow> string \<Rightarrow> ('s, go_error, payment_row \<times> order_row) op" where
  "pay_settle q sqlcOrder success transactionID =
     and_then (map_err (not_found (PaymentErr ErrNoPaymentFound))
         (q_UpdatePaymentStatus q (if success then ''success'' else ''failed'') (Some transactionID)
            (o_id sqlcOrder)))
       (\<lambda>sqlcPayment.
         if y_status sqlcPayment = ''success'' then
           and_then (map_err (not_found (PaymentErr ErrNoOrderFound)) (q_MarkOrderAsPaid q (o_id sqlcOrder)))
             (\<lambda>paidOrder. ret (sqlcPayment, paidOrder))
         else ret (sqlcPayment, sqlcOrder))"

text \<open>
  What happens between \<open>BeginTx\<close> and \<open>Commit\<close>. The flag of the result says whether the function goes
  on to commit: an order that is paid already, or whose payment succeeded, is returned as it is, and
  the deferred rollback ends the transaction.
\<close>

definition pay_steps ::
  "'s pay_queries \<Rightarrow> uuid \<Rightarrow> uuid \<Rightarrow> ('s, go_error, bool \<times> payment_row \<times> order_row) op" where
  "pay_steps q userID orderID =
     and_then (pay_lock q userID orderID) (\<lambda>(sqlcOrder, sqlcPayment).
       if o_status sqlcOrder = ''paid'' then ret (False, sqlcPayment, sqlcOrder)
       else if o_status sqlcOrder = ''cancelled'' then fail (PaymentErr ErrOrderNotPayable)
       else if y_status sqlcPayment = ''success'' then ret (False, sqlcPayment, sqlcOrder)
       else
         and_then (q_Charge q (o_id sqlcOrder) (y_amount sqlcPayment)) (\<lambda>(success, transactionID).
         and_then (pay_settle q sqlcOrder success transactionID) (\<lambda>res. ret (True, res))))"

definition Pay :: "uuid \<Rightarrow> uuid \<Rightarrow> (Payment \<times> Order) db_op" where
  "Pay userID orderID =
     and_then BeginTx (\<lambda>_ w.
       case pay_steps pg_queries userID orderID w of
         (Inl e, w1) \<Rightarrow> (Inl e, RollbackTx w1)
       | (Inr (changed, sqlcPayment, sqlcOrder), w1) \<Rightarrow>
           let res = (paymentFromSqlc sqlcPayment, orderFromSqlc sqlcOrder) in
           if changed
           then (case CommitTx w1 of (Inl e, w2) \<Rightarrow> (Inl e, w2) | (Inr _, w2) \<Rightarrow> (Inr res, w2))
           else (Inr res, RollbackTx w1))"

definition GetPaymentByOrderID :: "uuid \<Rightarrow> uuid \<Rightarrow> Payment db_op" where
  "GetPaymentByOrderID userID orderID =
     map_ok paymentFromSqlc
       (map_err (not_found (PaymentErr ErrNoPaymentFound)) (sql_GetPaymentByOrderID orderID userID))"

section \<open>What the statements keep\<close>

lemma keeps_updatePaymentStatus [keeps_intros]:
  "sql_keeps schema_ok (updatePaymentStatus status txid oid)"
  unfolding sql_keeps_def updatePaymentStatus_def
proof (intro allI impI)
  fix now t r t' ls
  assume t: "schema_ok t"
    and r: "unique_after (\<lambda>t. distinct (transaction_keys (t_payments t)))
       (returning_one
         (update_table (\<lambda>r. [PaymentLock (y_id r)]) t_payments (\<lambda>rs t. t\<lparr>t_payments := rs\<rparr>)
           (\<lambda>r. y_order_id r = oid)
           (\<lambda>now r. checked payment_check
              (r\<lparr>y_status := status, y_transaction_id := txid, y_updated_at := now\<rparr>)))) now t = Inr (r, t', ls)"
  then show "schema_ok t'"
    by (auto simp: op_simps intro!: schema_ok_update_payments)
qed

lemma pay_stays [stays_intros]:
  "stays (pay_lock pg_queries uid oid)" "stays (pay_settle pg_queries ord success txid)"
  unfolding pay_lock_def pay_settle_def pg_queries_simps sql_LockOrderForPayment_def sql_LockPaymentForUpdate_def
    sql_UpdatePaymentStatus_def sql_MarkOrderAsPaid_def
  by (intro stays_intros)+

lemma pay_keeps_schema [keeps_intros]:
  "keeps (holds schema_ok) (pay_lock pg_queries uid oid)"
  "keeps (holds schema_ok) (pay_settle pg_queries ord success txid)"
  unfolding pay_lock_def pay_settle_def pg_queries_simps sql_LockOrderForPayment_def sql_LockPaymentForUpdate_def
    sql_UpdatePaymentStatus_def sql_MarkOrderAsPaid_def lockOrderForPayment_def
    lockPaymentForUpdate_def markOrderAsPaid_def
  by (intro keeps_intros)+

section \<open>What a payment does\<close>

definition set_payment :: "uuid \<Rightarrow> string \<Rightarrow> string option \<Rightarrow> time \<Rightarrow> payment_row list \<Rightarrow> payment_row list" where
  "set_payment oid status txid now ps =
     map (\<lambda>r. if y_order_id r = oid
              then r\<lparr>y_status := status, y_transaction_id := txid, y_updated_at := now\<rparr> else r) ps"

text \<open>
  The tables after a charge of the pending order \<open>ord\<close> with the payment \<open>pay\<close> has been written, and
  what \<open>Pay\<close> returns.
\<close>

definition settled ::
  "uuid \<Rightarrow> time \<Rightarrow> bool \<Rightarrow> string \<Rightarrow> order_row \<Rightarrow> payment_row \<Rightarrow> tables \<Rightarrow> tables \<Rightarrow> Payment \<times> Order \<Rightarrow> bool" where
  "settled oid now success txid ord pay t t' res \<longleftrightarrow>
     (let status = (if success then ''success'' else ''failed'');
          pay' = pay\<lparr>y_status := status, y_transaction_id := Some txid, y_updated_at := now\<rparr>;
          ord' = (if success then ord\<lparr>o_status := ''paid'', o_updated_at := now\<rparr> else ord) in
      res = (paymentFromSqlc pay', orderFromSqlc ord') \<and>
      t' = t\<lparr>t_orders := (if success then set_status oid ''paid'' now (t_orders t) else t_orders t),
             t_payments := set_payment oid status (Some txid) now (t_payments t)\<rparr>)"

lemma update_status_one:
  assumes "schema_ok t" and row: "row_by o_id oid (t_orders t) = Some ord"
    and r: "returning_one (update_orders (\<lambda>r. o_id r = oid) status) now t = Inr (ord', t', ls)"
  shows "ord' = ord\<lparr>o_status := status, o_updated_at := now\<rparr> \<and>
    t' = t\<lparr>t_orders := set_status oid status now (t_orders t)\<rparr> \<and> ls = [OrderLock oid]"
proof -
  have d: "distinct (map o_id (t_orders t))" using assms(1) by (simp add: schema_ok_def)
  from r obtain rs qs where
    u: "update_where (\<lambda>r. o_id r = oid \<and> True)
          (\<lambda>r. checked order_check (r\<lparr>o_status := status, o_updated_at := now\<rparr>)) (t_orders t) = Inr (rs, ord' # qs)"
    and t': "t' = t\<lparr>t_orders := rs\<rparr>" and ls: "ls = concat (map (\<lambda>r. [OrderLock (o_id r)]) (ord' # qs))"
    by (auto simp: update_orders_def op_simps)
  from update_by_key [OF d u] row have
    o': "checked order_check (ord\<lparr>o_status := status, o_updated_at := now\<rparr>) = Inr ord'" "qs = []"
    and rs: "rs = map (\<lambda>x. if o_id x = oid then ord' else x) (t_orders t)" by auto
  from o'(1) have "ord' = ord\<lparr>o_status := status, o_updated_at := now\<rparr>" by (simp add: op_simps)
  moreover from this have "rs = set_status oid status now (t_orders t)"
    unfolding rs set_status_def by (intro map_at_key [OF d row]) simp
  ultimately show ?thesis using t' ls o'(2) row by (auto dest: row_by_SomeD)
qed

lemma updatePaymentStatus_one:
  assumes "schema_ok t" and row: "row_by y_order_id oid (t_payments t) = Some pay"
    and r: "updatePaymentStatus status txid oid now t = Inr (pay', t', ls)"
  shows "pay' = pay\<lparr>y_status := status, y_transaction_id := txid, y_updated_at := now\<rparr> \<and>
    t' = t\<lparr>t_payments := set_payment oid status txid now (t_payments t)\<rparr> \<and> ls = [PaymentLock (y_id pay)]"
proof -
  have d: "distinct (map y_order_id (t_payments t))" using assms(1) by (simp add: schema_ok_def)
  from r obtain rs qs where
    u: "update_where (\<lambda>r. y_order_id r = oid \<and> True)
          (\<lambda>r. checked payment_check (r\<lparr>y_status := status, y_transaction_id := txid, y_updated_at := now\<rparr>))
          (t_payments t) = Inr (rs, pay' # qs)"
    and t': "t' = t\<lparr>t_payments := rs\<rparr>" and ls: "ls = concat (map (\<lambda>r. [PaymentLock (y_id r)]) (pay' # qs))"
    by (auto simp: updatePaymentStatus_def op_simps)
  from update_by_key [OF d u] row have
    p': "checked payment_check (pay\<lparr>y_status := status, y_transaction_id := txid, y_updated_at := now\<rparr>) = Inr pay'"
      "qs = []"
    and rs: "rs = map (\<lambda>x. if y_order_id x = oid then pay' else x) (t_payments t)" by auto
  from p'(1) have "pay' = pay\<lparr>y_status := status, y_transaction_id := txid, y_updated_at := now\<rparr>"
    by (simp add: op_simps)
  moreover from this have "rs = set_payment oid status txid now (t_payments t)"
    unfolding rs set_payment_def by (intro map_at_key [OF d row]) simp
  ultimately show ?thesis using t' ls p'(2) row by auto
qed

text \<open>The order and its payment as \<open>Pay\<close> finds them, and whether it goes on to charge.\<close>

definition found :: "uuid \<Rightarrow> uuid \<Rightarrow> tables \<Rightarrow> order_row \<Rightarrow> payment_row \<Rightarrow> bool" where
  "found uid oid t ord pay \<longleftrightarrow>
     row_by o_id oid (t_orders t) = Some ord \<and> o_user_id ord = uid \<and>
     row_by y_order_id oid (t_payments t) = Some pay"

definition payable :: "order_row \<Rightarrow> payment_row \<Rightarrow> bool" where
  "payable ord pay \<longleftrightarrow>
     o_status ord \<noteq> ''paid'' \<and> o_status ord \<noteq> ''cancelled'' \<and> y_status pay \<noteq> ''success''"

section \<open>The contract of the queries\<close>

text \<open>
  What \<open>Pay\<close> may assume of its queries and of the provider inside a transaction: the row each returns,
  what it does to the tables, the row locks it takes (\<open>lk\<close>) and the charges made (\<open>ch\<close>). The updates
  are promised to a transaction that holds the lock of the row.
\<close>

locale payment_store =
  fixes q :: "'s pay_queries"
    and tb :: "'s \<Rightarrow> tables"
    and lk :: "'s \<Rightarrow> row_lock list"
    and nw :: "'s \<Rightarrow> time"
    and ch :: "'s \<Rightarrow> charge list"
    and lv :: "'s \<Rightarrow> bool"
  assumes lock_order: "lv s \<Longrightarrow> q_LockOrderForPayment q oid uid s = (Inr ord, s') \<Longrightarrow>
      lv s' \<and> nw s' = nw s \<and> ch s' = ch s \<and> tb s' = tb s \<and> lk s' = lk s @ [OrderLock oid] \<and>
      row_by o_id oid (t_orders (tb s)) = Some ord \<and> o_user_id ord = uid"
    and lock_payment: "lv s \<Longrightarrow> q_LockPaymentForUpdate q oid s = (Inr pay, s') \<Longrightarrow>
      lv s' \<and> nw s' = nw s \<and> ch s' = ch s \<and> tb s' = tb s \<and> lk s' = lk s @ [PaymentLock (y_id pay)] \<and>
      row_by y_order_id oid (t_payments (tb s)) = Some pay"
    and charge: "lv s \<Longrightarrow> q_Charge q oid amount s = (Inr (success, txid), s') \<Longrightarrow>
      lv s' \<and> nw s' = nw s \<and> tb s' = tb s \<and> lk s' = lk s \<and>
      ch s' = ch s @ [\<lparr>c_order = oid, c_amount = amount, c_txid = txid, c_success = success\<rparr>]"
    and update_payment: "lv s \<Longrightarrow> row_by y_order_id oid (t_payments (tb s)) = Some pay \<Longrightarrow>
      PaymentLock (y_id pay) \<in> set (lk s) \<Longrightarrow> q_UpdatePaymentStatus q status tid oid s = (Inr pay', s') \<Longrightarrow>
      lv s' \<and> nw s' = nw s \<and> ch s' = ch s \<and> lk s' = lk s @ [PaymentLock (y_id pay)] \<and>
      tb s' = (tb s)\<lparr>t_payments := set_payment oid status tid (nw s) (t_payments (tb s))\<rparr> \<and>
      pay' = pay\<lparr>y_status := status, y_transaction_id := tid, y_updated_at := nw s\<rparr>"
    and mark_paid: "lv s \<Longrightarrow> row_by o_id oid (t_orders (tb s)) = Some ord \<Longrightarrow>
      OrderLock oid \<in> set (lk s) \<Longrightarrow> q_MarkOrderAsPaid q oid s = (Inr ord', s') \<Longrightarrow>
      lv s' \<and> nw s' = nw s \<and> ch s' = ch s \<and> lk s' = lk s @ [OrderLock oid] \<and>
      tb s' = (tb s)\<lparr>t_orders := set_status oid ''paid'' (nw s) (t_orders (tb s))\<rparr> \<and>
      ord' = ord\<lparr>o_status := ''paid'', o_updated_at := nw s\<rparr>"
begin

lemma lock_Inr:
  assumes "lv s" and "pay_lock q uid oid s = (Inr (ord, pay), s')"
  shows "lv s' \<and> nw s' = nw s \<and> ch s' = ch s \<and> tb s' = tb s \<and>
    lk s' = lk s @ [OrderLock oid, PaymentLock (y_id pay)] \<and> found uid oid (tb s) ord pay"
proof -
  from assms(2) obtain s1 where o: "q_LockOrderForPayment q oid uid s = (Inr ord, s1)"
    and p: "q_LockPaymentForUpdate q (o_id ord) s1 = (Inr pay, s')"
    by (auto simp: pay_lock_def op_simps)
  from lock_order [OF assms(1) o] have s1: "lv s1" "nw s1 = nw s" "ch s1 = ch s" "tb s1 = tb s"
    "lk s1 = lk s @ [OrderLock oid]" "row_by o_id oid (t_orders (tb s)) = Some ord" "o_user_id ord = uid"
    by simp_all
  from s1(6) have "o_id ord = oid" by (auto dest: row_by_SomeD)
  with lock_payment [OF s1(1) p] s1 show ?thesis by (simp add: found_def)
qed

lemma settle_Inr:
  assumes "lv s" and f: "found uid oid (tb s) ord pay"
    and lk: "OrderLock oid \<in> set (lk s)" "PaymentLock (y_id pay) \<in> set (lk s)"
    and r: "pay_settle q ord success txid s = (Inr (pay', ord'), s')"
  shows "lv s' \<and> nw s' = nw s \<and> ch s' = ch s \<and>
    settled oid (nw s) success txid ord pay (tb s) (tb s') (paymentFromSqlc pay', orderFromSqlc ord')"
proof -
  let ?status = "if success then ''success'' else ''failed''"
  note f = f [unfolded found_def]
  have oid: "o_id ord = oid" using f by (auto dest: row_by_SomeD)
  from r oid obtain s1 where
    p: "q_UpdatePaymentStatus q ?status (Some txid) oid s = (Inr pay', s1)"
    and o: "if y_status pay' = ''success''
            then q_MarkOrderAsPaid q oid s1 = (Inr ord', s') else ord' = ord \<and> s' = s1"
    by (auto simp: pay_settle_def op_simps split: if_splits)
  from update_payment [OF assms(1) _ lk(2) p] f have
    s1: "lv s1" "nw s1 = nw s" "ch s1 = ch s" "lk s1 = lk s @ [PaymentLock (y_id pay)]"
      "tb s1 = (tb s)\<lparr>t_payments := set_payment oid ?status (Some txid) (nw s) (t_payments (tb s))\<rparr>"
    and pay': "pay' = pay\<lparr>y_status := ?status, y_transaction_id := Some txid, y_updated_at := nw s\<rparr>"
    by simp_all
  show ?thesis
  proof (cases success)
    case False
    with o pay' s1 show ?thesis by (simp add: settled_def)
  next
    case True
    with o pay' have "q_MarkOrderAsPaid q oid s1 = (Inr ord', s')" by simp
    from mark_paid [OF s1(1) _ _ this, of ord] f lk(1) s1 True pay' show ?thesis
      by (simp add: settled_def)
  qed
qed

text \<open>
  A run that goes on to commit charged a payable order and wrote the outcome; another that returns the
  order and its payment found them settled and changed nothing.
\<close>

lemma steps_Inr:
  assumes "lv s" and r: "pay_steps q uid oid s = (Inr (changed, pay', ord'), s')"
  obtains (charged) ord pay success txid where "changed" "lv s'" "found uid oid (tb s) ord pay" "payable ord pay"
      "settled oid (nw s) success txid ord pay (tb s) (tb s') (paymentFromSqlc pay', orderFromSqlc ord')"
      "ch s' = ch s @ [\<lparr>c_order = oid, c_amount = y_amount pay, c_txid = txid, c_success = success\<rparr>]"
    | (kept) "\<not> changed" "lv s'" "found uid oid (tb s) ord' pay'" "\<not> payable ord' pay'"
      "tb s' = tb s" "ch s' = ch s"
proof -
  from r obtain ord pay s1 where l: "pay_lock q uid oid s = (Inr (ord, pay), s1)"
    and n: "if \<not> payable ord pay then \<not> changed \<and> pay' = pay \<and> ord' = ord \<and> s' = s1
      else changed \<and> (\<exists>success txid s2. q_Charge q (o_id ord) (y_amount pay) s1 = (Inr (success, txid), s2) \<and>
        pay_settle q ord success txid s2 = (Inr (pay', ord'), s'))"
    by (auto simp: pay_steps_def payable_def op_simps split: if_splits)
  from lock_Inr [OF assms(1) l] have
    s1: "lv s1" "nw s1 = nw s" "ch s1 = ch s" "tb s1 = tb s"
      "lk s1 = lk s @ [OrderLock oid, PaymentLock (y_id pay)]" "found uid oid (tb s) ord pay" by simp_all
  show thesis
  proof (cases "payable ord pay")
    case False
    with n s1 show ?thesis by (auto intro: kept)
  next
    case True
    from s1(6) have "o_id ord = oid" by (auto simp: found_def dest: row_by_SomeD)
    with n True obtain success txid s2 where c: "q_Charge q oid (y_amount pay) s1 = (Inr (success, txid), s2)"
      and x: "pay_settle q ord success txid s2 = (Inr (pay', ord'), s')" and "changed" by auto
    from charge [OF s1(1) c] s1 have
      s2: "lv s2" "nw s2 = nw s" "tb s2 = tb s" "lk s2 = lk s1"
        "ch s2 = ch s @ [\<lparr>c_order = oid, c_amount = y_amount pay, c_txid = txid, c_success = success\<rparr>]" by simp_all
    from settle_Inr [OF s2(1) _ _ _ x, of uid oid pay] s1 s2 True \<open>changed\<close> show ?thesis
      by (auto intro: charged)
  qed
qed

end

text \<open>The queries over PostgreSQL keep the contract.\<close>

lemma Charge_simps:
  "Charge oid amount w = (r, w') \<Longrightarrow>
   \<exists>success txid. r = Inr (success, txid) \<and> tables w' = tables w \<and> tx w' = tx w \<and> locks w' = locks w \<and>
     env w' = env w \<and> db_now w' = db_now w \<and>
     txid = env_txid (env w) (draw_no w) \<and> success = (env_rand (env w) (draw_no w) mod 100 < 80) \<and>
     draw_no w' = Suc (draw_no w) \<and>
     charges w' = charges w @ [\<lparr>c_order = oid, c_amount = amount, c_txid = txid, c_success = success\<rparr>]"
  by (auto simp: Charge_def Let_def)

lemma pay_query_step:
  assumes "live w" and "exec_sql f w = (r, w')" and "sql_keeps schema_ok f"
  shows "live w' \<and> db_now w' = db_now w \<and> charges w' = charges w"
proof -
  have "stays (exec_sql f)" "keeps (holds schema_ok) (exec_sql f)"
    using assms(3) by (intro stays_intros keeps_intros)+
  from live_step [OF assms(1) this assms(2)] exec_sql_frame [OF assms(2)] show ?thesis by simp
qed

lemma sql_LockOrderForPayment_Inr:
  assumes "live w" and r: "sql_LockOrderForPayment oid uid w = (Inr ord, w')"
  shows "live w' \<and> db_now w' = db_now w \<and> charges w' = charges w \<and> tables w' = tables w \<and>
    locks w' = locks w @ [OrderLock oid] \<and>
    row_by o_id oid (t_orders (tables w)) = Some ord \<and> o_user_id ord = uid"
proof -
  let ?os = "t_orders (tables w)"
  have d: "distinct (map o_id ?os)" using assms(1) by (auto dest!: liveD simp: schema_ok_def)
  note r = r [unfolded sql_LockOrderForPayment_def lockOrderForPayment_def]
  from exec_sql_Inr [OF r] obtain rs where
    rs: "filter (\<lambda>r. o_id r = oid \<and> o_user_id r = uid) ?os = ord # rs"
    and w': "tables w' = tables w" "locks w' = locks w @ map (\<lambda>r. OrderLock (o_id r)) (ord # rs)"
    by (auto simp: op_simps)
  then have "ord \<in> set ?os" "o_id ord = oid"
    by (metis (mono_tags, lifting) filter_eq_ConsD in_set_conv_decomp)+
  then have ord: "row_by o_id oid ?os = Some ord" using d by (simp add: row_by_Some)
  with filter_row_by_and [OF d ord] rs have "rs = []" "o_user_id ord = uid"
    by (auto split: if_splits)
  with pay_query_step [OF assms(1) r] w' ord \<open>o_id ord = oid\<close> show ?thesis
    by (simp add: sql_keeps_select_for_update)
qed

lemma sql_LockPaymentForUpdate_Inr:
  assumes "live w" and r: "sql_LockPaymentForUpdate oid w = (Inr pay, w')"
  shows "live w' \<and> db_now w' = db_now w \<and> charges w' = charges w \<and> tables w' = tables w \<and>
    locks w' = locks w @ [PaymentLock (y_id pay)] \<and> row_by y_order_id oid (t_payments (tables w)) = Some pay"
proof -
  have d: "distinct (map y_order_id (t_payments (tables w)))"
    using assms(1) by (auto dest!: liveD simp: schema_ok_def)
  note r = r [unfolded sql_LockPaymentForUpdate_def lockPaymentForUpdate_def]
  from exec_sql_Inr [OF r] filter_row_by [OF d, of oid]
  have "tables w' = tables w" "locks w' = locks w @ [PaymentLock (y_id pay)]"
    "row_by y_order_id oid (t_payments (tables w)) = Some pay"
    by (auto simp: op_simps split: option.splits)
  with pay_query_step [OF assms(1) r] show ?thesis by (simp add: sql_keeps_select_for_update)
qed

lemma sql_UpdatePaymentStatus_Inr:
  assumes "live w" and "row_by y_order_id oid (t_payments (tables w)) = Some pay"
    and r: "sql_UpdatePaymentStatus status txid oid w = (Inr pay', w')"
  shows "live w' \<and> db_now w' = db_now w \<and> charges w' = charges w \<and>
    locks w' = locks w @ [PaymentLock (y_id pay)] \<and>
    tables w' = (tables w)\<lparr>t_payments := set_payment oid status txid (db_now w) (t_payments (tables w))\<rparr> \<and>
    pay' = pay\<lparr>y_status := status, y_transaction_id := txid, y_updated_at := db_now w\<rparr>"
proof -
  note r = r [unfolded sql_UpdatePaymentStatus_def]
  from exec_sql_Inr [OF r] updatePaymentStatus_one [OF liveD [OF assms(1)] assms(2)]
    pay_query_step [OF assms(1) r keeps_updatePaymentStatus] show ?thesis by fastforce
qed

lemma sql_MarkOrderAsPaid_Inr:
  assumes "live w" and "row_by o_id oid (t_orders (tables w)) = Some ord"
    and r: "sql_MarkOrderAsPaid oid w = (Inr ord', w')"
  shows "live w' \<and> db_now w' = db_now w \<and> charges w' = charges w \<and> locks w' = locks w @ [OrderLock oid] \<and>
    tables w' = (tables w)\<lparr>t_orders := set_status oid ''paid'' (db_now w) (t_orders (tables w))\<rparr> \<and>
    ord' = ord\<lparr>o_status := ''paid'', o_updated_at := db_now w\<rparr>"
proof -
  note r = r [unfolded sql_MarkOrderAsPaid_def markOrderAsPaid_def]
  have "sql_keeps schema_ok (returning_one (update_orders (\<lambda>r. o_id r = oid) ''paid''))"
    by (intro keeps_intros)
  from exec_sql_Inr [OF r] update_status_one [OF liveD [OF assms(1)] assms(2)]
    pay_query_step [OF assms(1) r this] show ?thesis by fastforce
qed

lemma Charge_Inr:
  assumes "live w" and "Charge oid amount w = (Inr (success, txid), w')"
  shows "live w' \<and> db_now w' = db_now w \<and> tables w' = tables w \<and> locks w' = locks w \<and>
    charges w' = charges w @ [\<lparr>c_order = oid, c_amount = amount, c_txid = txid, c_success = success\<rparr>]"
  using Charge_simps [OF assms(2)] assms(1) by (auto simp: live_def holds_def)

interpretation pg_pay: payment_store pg_queries tables locks db_now charges live
  by (unfold_locales, unfold pg_queries_simps)
    (erule (1) sql_LockOrderForPayment_Inr, erule (1) sql_LockPaymentForUpdate_Inr, erule (1) Charge_Inr,
     erule (2) sql_UpdatePaymentStatus_Inr, erule (2) sql_MarkOrderAsPaid_Inr)

text \<open>The transaction id and the outcome are those of a draw between two states.\<close>

definition drawn :: "world \<Rightarrow> world \<Rightarrow> bool \<Rightarrow> string \<Rightarrow> bool" where
  "drawn w w' success txid \<longleftrightarrow>
     (\<exists>n. draw_no w \<le> n \<and> n < draw_no w' \<and> txid = env_txid (env w) n \<and>
        success = (env_rand (env w) n mod 100 < 80))"

lemma pay_steps_cases:
  assumes "live w" and r: "pay_steps pg_queries uid oid w = (q, w')"
  shows "tx w' = tx w \<and> env w' = env w \<and> holds schema_ok w' \<and> draw_no w \<le> draw_no w' \<and>
    ((charges w' = charges w \<and>
      (isl q \<or> (\<exists>ord pay. q = Inr (False, pay, ord) \<and> found uid oid (tables w) ord pay \<and>
                 \<not> payable ord pay \<and> o_status ord \<noteq> ''cancelled''))) \<or>
     (\<exists>ord pay success txid.
        found uid oid (tables w) ord pay \<and> payable ord pay \<and> drawn w w' success txid \<and>
        charges w' = charges w @ [\<lparr>c_order = oid, c_amount = y_amount pay, c_txid = txid, c_success = success\<rparr>] \<and>
        (isl q \<or> (\<exists>pay' ord' now. q = Inr (True, pay', ord') \<and>
           settled oid now success txid ord pay (tables w) (tables w') (paymentFromSqlc pay', orderFromSqlc ord')))))"
    (is "?inv w' \<and> _")
proof (cases "pay_lock pg_queries uid oid w")
  case (Pair l w1)
  from staysD [OF pay_stays(1) Pair] keepsD [OF pay_keeps_schema(1) _ Pair] assms(1) have
    w1: "tx w1 = tx w" "env w1 = env w" "charges w1 = charges w" "holds schema_ok w1" "draw_no w \<le> draw_no w1"
    by (auto simp: same_tx_def live_def)
  show ?thesis
  proof (cases l)
    case (Inl e)
    with r Pair w1 show ?thesis by (auto simp: pay_steps_def and_then_def)
  next
    case (Inr op)
    obtain ord pay where op: "op = (ord, pay)" by (cases op)
    from pg_pay.lock_Inr [OF assms(1) Pair [unfolded Inr op]] have
      live1: "live w1" "tables w1 = tables w" "OrderLock oid \<in> set (locks w1)" "PaymentLock (y_id pay) \<in> set (locks w1)"
      and f: "found uid oid (tables w) ord pay" and oid: "o_id ord = oid" by (auto simp: found_def dest: row_by_SomeD)
    show ?thesis
    proof (cases "payable ord pay")
      case False
      then consider "o_status ord = ''paid''" | "o_status ord = ''cancelled''"
        | "o_status ord \<noteq> ''paid''" "o_status ord \<noteq> ''cancelled''" "y_status pay = ''success''"
        by (auto simp: payable_def)
      then show ?thesis
        using r Pair Inr op w1 f False by cases (auto simp: pay_steps_def and_then_def ret_def fail_def)
    next
      case True
      obtain c w2 where c: "Charge oid (y_amount pay) w1 = (c, w2)" by fastforce
      from Charge_simps [OF c] obtain success txid where
        c_eq: "c = Inr (success, txid)" and w2: "tables w2 = tables w1" "tx w2 = tx w1" "env w2 = env w1" "locks w2 = locks w1"
          "draw_no w2 = Suc (draw_no w1)" "txid = env_txid (env w1) (draw_no w1)"
          "success = (env_rand (env w1) (draw_no w1) mod 100 < 80)"
          "charges w2 = charges w1 @ [\<lparr>c_order = oid, c_amount = y_amount pay, c_txid = txid, c_success = success\<rparr>]"
        by blast
      from w2 live1 have live2: "live w2" by (simp add: live_def holds_def)
      obtain x w3 where x: "pay_settle pg_queries ord success txid w2 = (x, w3)" by fastforce
      from staysD [OF pay_stays(2) x] keepsD [OF pay_keeps_schema(2) _ x] live2 have
        w3: "tx w3 = tx w2" "env w3 = env w2" "charges w3 = charges w2" "holds schema_ok w3" "draw_no w2 \<le> draw_no w3"
        by (auto simp: same_tx_def live_def)
      have q: "q = (case x of Inl e \<Rightarrow> Inl e | Inr res \<Rightarrow> Inr (True, res)) \<and> w' = w3"
        using r Pair Inr op True c oid c_eq x
        by (auto simp: pay_steps_def and_then_def payable_def ret_def split: sum.splits)
      have "isl q \<or> (\<exists>pay' ord' now. q = Inr (True, pay', ord') \<and>
           settled oid now success txid ord pay (tables w) (tables w') (paymentFromSqlc pay', orderFromSqlc ord'))"
      proof (cases x)
        case (Inl e)
        with q show ?thesis by simp
      next
        case (Inr res)
        obtain pay' ord' where res: "res = (pay', ord')" by (cases res)
        from pg_pay.settle_Inr [OF live2 _ _ _ x [unfolded Inr res]] f w2 live1
        have "settled oid (db_now w2) success txid ord pay (tables w) (tables w3)
            (paymentFromSqlc pay', orderFromSqlc ord')" by (simp add: found_def)
        with q Inr res show ?thesis by auto
      qed
      moreover have "charges w' = charges w @
          [\<lparr>c_order = oid, c_amount = y_amount pay, c_txid = txid, c_success = success\<rparr>]"
        using w1 w2 w3 q by simp
      moreover have "tx w' = tx w \<and> env w' = env w \<and> holds schema_ok w' \<and> draw_no w \<le> draw_no w'"
        using w1 w2 w3 q by simp
      moreover have "drawn w w' success txid"
        unfolding drawn_def using w1 w2 w3 q by (intro exI [of _ "draw_no w1"]) auto
      ultimately show ?thesis using True f by blast
    qed
  qed
qed

lemma Pay_cases:
  assumes "idle w" and r: "Pay uid oid w = (r, w')"
  shows "(charges w' = charges w \<and> tables w' = tables w \<and>
      (isl r \<or> (\<exists>ord pay. found uid oid (tables w) ord pay \<and> \<not> payable ord pay \<and>
         o_status ord \<noteq> ''cancelled'' \<and> r = Inr (paymentFromSqlc pay, orderFromSqlc ord)))) \<or>
    (\<exists>ord pay success txid.
       found uid oid (tables w) ord pay \<and> payable ord pay \<and> drawn w w' success txid \<and>
       charges w' = charges w @ [\<lparr>c_order = oid, c_amount = y_amount pay, c_txid = txid, c_success = success\<rparr>] \<and>
       (isl r \<and> tables w' = tables w \<or>
        (\<exists>now res. settled oid now success txid ord pay (tables w) (tables w') res \<and> (isl r \<or> r = Inr res))))"
proof (cases "BeginTx w")
  case (Pair b w0)
  show ?thesis
  proof (cases b)
    case (Inl e)
    with Pair r BeginTx_Inl [of w e w0] show ?thesis by (auto simp: Pay_def and_then_def)
  next
    case (Inr x)
    with Pair have b: "BeginTx w = (Inr (), w0)" by simp
    from live_begin [OF b assms(1)] have w0: "live w0" "tables w0 = tables w" "tx w0 = Some (tables w)"
      "charges w0 = charges w" and drawn0: "env w0 = env w" "draw_no w0 = draw_no w" by simp_all
    have drawn: "drawn w0 w1 success txid \<Longrightarrow> draw_no w1 = draw_no w' \<Longrightarrow> drawn w w' success txid"
      for w1 success txid by (simp add: drawn_def drawn0)
    obtain q w1 where q: "pay_steps pg_queries uid oid w0 = (q, w1)" by fastforce
    note steps = pay_steps_cases [OF w0(1) q]
    then have tx1: "tx w1 = Some (tables w)" using w0 by simp
    have undo: "tables (RollbackTx w1) = tables w" "charges (RollbackTx w1) = charges w1"
      using tx1 by (simp_all add: RollbackTx_simps)
    show ?thesis
    proof (cases q)
      case (Inl e)
      with b q r have w': "r = Inl e" "w' = RollbackTx w1" by (auto simp: Pay_def and_then_def)
      then have "draw_no w1 = draw_no w'" by (simp add: RollbackTx_simps)
      note drawn = drawn [OF _ this]
      from steps w0 consider "charges w1 = charges w"
        | ord pay success txid where "found uid oid (tables w) ord pay" "payable ord pay"
          "drawn w0 w1 success txid"
          "charges w1 = charges w @ [\<lparr>c_order = oid, c_amount = y_amount pay, c_txid = txid, c_success = success\<rparr>]"
        by (simp only:) blast
      then show ?thesis
      proof cases
        case 1
        with w' undo show ?thesis by simp
      next
        case 2
        have "charges w' = charges w @ [\<lparr>c_order = oid, c_amount = y_amount pay, c_txid = txid, c_success = success\<rparr>]"
          "isl r \<and> tables w' = tables w" "drawn w w' success txid"
          using drawn [OF 2(3)] 2(4) w' undo by simp_all
        with 2(1,2) show ?thesis by blast
      qed
    next
      case (Inr res)
      obtain changed pay' ord' where res: "res = (changed, pay', ord')" by (cases res)
      show ?thesis
      proof (cases changed)
        case False
        with b q r Inr res have "r = Inr (paymentFromSqlc pay', orderFromSqlc ord')" "w' = RollbackTx w1"
          by (auto simp: Pay_def and_then_def Let_def)
        with steps Inr res False w0 undo show ?thesis by auto
      next
        case True
        obtain c w2 where c: "CommitTx w1 = (c, w2)" by (cases "CommitTx w1")
        with b q r Inr res True have w': "w' = w2"
          "r = (case c of Inl e \<Rightarrow> Inl e | Inr _ \<Rightarrow> Inr (paymentFromSqlc pay', orderFromSqlc ord'))"
          by (auto simp: Pay_def and_then_def Let_def split: sum.splits)
        have "draw_no w1 = draw_no w2 \<and> charges w2 = charges w1 \<and>
            (tables w2 = tables w1 \<or> isl c \<and> tables w2 = tables w)"
          using c tx1 CommitTx_Inr [of w1 w2] CommitTx_Inl [of w1 _ w2] by (cases c) auto
        moreover from steps Inr res True w0 obtain ord pay success txid now where
          f: "found uid oid (tables w) ord pay" "payable ord pay" "drawn w0 w1 success txid"
          "charges w1 = charges w @ [\<lparr>c_order = oid, c_amount = y_amount pay, c_txid = txid, c_success = success\<rparr>]"
          "settled oid now success txid ord pay (tables w) (tables w1) (paymentFromSqlc pay', orderFromSqlc ord')"
          by auto
        moreover have "isl r \<or> r = Inr (paymentFromSqlc pay', orderFromSqlc ord')" "isl c \<Longrightarrow> isl r"
          using w' by (auto split: sum.splits)
        ultimately show ?thesis
          using w'(1) drawn [OF f(3)]
          by (intro disjI2 exI [of _ ord] exI [of _ pay] exI [of _ success] exI [of _ txid]) auto
      qed
    qed
  qed
qed

section \<open>Without faults\<close>

lemma transaction_keys_Cons:
  "transaction_keys (r # rs) =
     (case y_transaction_id r of None \<Rightarrow> [] | Some s \<Rightarrow> [(y_provider r, s)]) @ transaction_keys rs"
  by (simp add: transaction_keys_def List.map_filter_def split: option.splits)

lemma set_transaction_keys:
  "(p, s) \<in> set (transaction_keys rs) \<longleftrightarrow> (\<exists>r \<in> set rs. y_provider r = p \<and> y_transaction_id r = Some s)"
  by (induction rs) (auto simp: transaction_keys_Cons transaction_keys_def List.map_filter_def split: option.splits)

lemma set_payment_Cons:
  "set_payment oid status txid now (r # rs) =
     (if y_order_id r = oid then r\<lparr>y_status := status, y_transaction_id := txid, y_updated_at := now\<rparr> else r)
     # set_payment oid status txid now rs"
  by (simp add: set_payment_def)

lemma set_payment_other: "oid \<notin> y_order_id ` set rs \<Longrightarrow> set_payment oid status txid now rs = rs"
  by (induction rs) (auto simp: set_payment_def)

lemma distinct_transaction_keys:
  assumes "distinct (map y_order_id rs)" "distinct (transaction_keys rs)"
    and "\<forall>r \<in> set rs. y_transaction_id r \<noteq> Some s"
  shows "distinct (transaction_keys (set_payment oid status (Some s) now rs))"
  using assms
proof (induction rs)
  case Nil
  then show ?case by (simp add: set_payment_def)
next
  case (Cons r rs)
  show ?case
  proof (cases "y_order_id r = oid")
    case True
    with Cons.prems have "set_payment oid status (Some s) now rs = rs"
      by (intro set_payment_other) auto
    with Cons.prems True show ?thesis
      by (auto simp: set_payment_Cons transaction_keys_Cons set_transaction_keys split: option.splits)
  next
    case False
    have "k \<in> set (transaction_keys rs)" if "k \<in> set (transaction_keys (set_payment oid status (Some s) now rs))"
      "snd k \<noteq> s" for k
    proof (cases k)
      case (Pair p x)
      with that obtain q where "q \<in> set rs" "y_provider q = p" "y_transaction_id q = Some x"
        by (simp add: set_transaction_keys) (auto simp: set_payment_def split: if_splits)
      with Pair show ?thesis by (auto simp: set_transaction_keys)
    qed
    with Cons False show ?thesis
      by (auto simp: set_payment_Cons transaction_keys_Cons split: option.splits)
  qed
qed


text \<open>Updates of one row that satisfy the constraints return it.\<close>

lemma updatePaymentStatus_returns:
  assumes "schema_ok t" and row: "row_by y_order_id oid (t_payments t) = Some pay"
    and "status \<in> set payment_statuses"
    and "\<forall>r \<in> set (t_payments t). y_transaction_id r \<noteq> Some txid"
  shows "updatePaymentStatus status (Some txid) oid now t \<noteq> Inl e"
proof -
  let ?ps = "t_payments t"
  let ?g = "\<lambda>r. r\<lparr>y_status := status, y_transaction_id := Some txid, y_updated_at := now\<rparr>"
  have d: "distinct (map y_order_id ?ps)" "distinct (transaction_keys ?ps)"
    "\<forall>r \<in> set ?ps. payment_check r"
    using assms(1) by (simp_all add: schema_ok_def)
  have "update_where (\<lambda>r. y_order_id r = oid) (\<lambda>r. checked payment_check (?g r)) ?ps =
      Inr (map (\<lambda>r. if y_order_id r = oid then ?g r else r) ?ps, map ?g (filter (\<lambda>r. y_order_id r = oid) ?ps))"
    by (rule update_where_ok) (use d(3) assms(3) in \<open>auto simp: checked_def payment_check_def\<close>)
  moreover have "filter (\<lambda>r. y_order_id r = oid) ?ps = [pay]"
    using filter_row_by [OF d(1), of oid] row by simp
  moreover have "distinct (transaction_keys (map (\<lambda>r. if y_order_id r = oid then ?g r else r) ?ps))"
    using distinct_transaction_keys [OF d(1,2) assms(4)] by (simp add: set_payment_def)
  ultimately show ?thesis
    by (simp add: updatePaymentStatus_def unique_after_def returning_one_def update_table_def one_row_def)
qed

lemma pay_lock_returns:
  assumes "faultless w" "live w" "found uid oid (tables w) ord pay"
  shows "pay_lock pg_queries uid oid w \<noteq> (Inl e, w')"
proof
  assume r: "pay_lock pg_queries uid oid w = (Inl e, w')"
  have o: "ord \<in> set (t_orders (tables w))" "o_id ord = oid" "o_user_id ord = uid"
    and p: "pay \<in> set (t_payments (tables w))" "y_order_id pay = oid"
    using assms(3) by (auto simp: found_def dest: row_by_SomeD)
  have "filter (\<lambda>r. o_id r = oid \<and> o_user_id r = uid) (t_orders (tables w)) \<noteq> []"
    using o by (auto simp: filter_empty_conv)
  with r obtain ord1 w1 where l: "sql_LockOrderForPayment oid uid w = (Inr ord1, w1)"
    and e: "\<exists>d. sql_LockPaymentForUpdate (o_id ord1) w1 = (Inl d, w')"
    using faultless_lock_Inl [OF assms(1), where lk = "\<lambda>r. OrderLock (o_id r)"
        and sel = "\<lambda>t. filter (\<lambda>r. o_id r = oid \<and> o_user_id r = uid) (t_orders t)"]
    by (auto simp: pay_lock_def op_simps sql_LockOrderForPayment_def lockOrderForPayment_def)
  from exec_sql_Inr [OF l [unfolded sql_LockOrderForPayment_def]] have
    "o_id ord1 = oid" and t: "tables w1 = tables w"
    by (auto simp: lockOrderForPayment_def op_simps filter_eq_Cons_iff)
  have "stays (sql_LockOrderForPayment oid uid)"
    unfolding sql_LockOrderForPayment_def by (intro stays_intros)
  from staysD [OF this l] assms(1) have "faultless w1" by (simp add: same_tx_def faultless_def)
  from e obtain d where "sql_LockPaymentForUpdate oid w1 = (Inl d, w')" using \<open>o_id ord1 = oid\<close> by auto
  from faultless_lock_Inl [OF \<open>faultless w1\<close> this [unfolded sql_LockPaymentForUpdate_def lockPaymentForUpdate_def]]
  show False using t p by (auto simp: filter_empty_conv)
qed

lemma pay_settle_returns:
  assumes "faultless w" "live w" and ord: "row_by o_id oid (t_orders (tables w)) = Some ord"
    and pay: "row_by y_order_id oid (t_payments (tables w)) = Some pay"
    and fresh: "\<forall>r \<in> set (t_payments (tables w)). y_transaction_id r \<noteq> Some txid"
  shows "pay_settle pg_queries ord success txid w \<noteq> (Inl e, w')"
proof
  let ?status = "if success then ''success'' else ''failed''"
  assume r: "pay_settle pg_queries ord success txid w = (Inl e, w')"
  have oid: "o_id ord = oid" using ord by (auto dest: row_by_SomeD)
  have "sql_UpdatePaymentStatus ?status (Some txid) oid w \<noteq> (Inl d, w1)" for d w1
    using faultless_exec_Inl [OF assms(1), of "updatePaymentStatus ?status (Some txid) oid" d w1]
      updatePaymentStatus_returns [OF liveD [OF assms(2)] pay, of ?status txid "db_now w1" d] fresh
    by (auto simp: sql_UpdatePaymentStatus_def payment_statuses_def)
  with r oid obtain pay1 w1 d where
    u: "sql_UpdatePaymentStatus ?status (Some txid) oid w = (Inr pay1, w1)"
    and m: "sql_MarkOrderAsPaid oid w1 = (Inl d, w')"
    by (auto simp: pay_settle_def op_simps split: if_splits)
  have "stays (sql_UpdatePaymentStatus ?status (Some txid) oid)"
    "keeps (holds schema_ok) (sql_UpdatePaymentStatus ?status (Some txid) oid)"
    unfolding sql_UpdatePaymentStatus_def by (intro stays_intros keeps_intros)+
  from live_step [OF assms(2) this u] staysD [OF this(1) u] assms(1) have
    w1: "live w1" "faultless w1" by (simp_all add: same_tx_def faultless_def)
  have "row_by o_id oid (t_orders (tables w1)) = Some ord"
    using exec_sql_Inr [OF u [unfolded sql_UpdatePaymentStatus_def]] ord
    by (auto simp: updatePaymentStatus_def op_simps)
  from update_orders_returns [OF liveD [OF w1(1)] this, of "\<lambda>_. True" "''paid''"]
    faultless_exec_Inl [OF w1(2) m [unfolded sql_MarkOrderAsPaid_def]]
  show False by (simp add: markOrderAsPaid_def order_statuses_def)
qed

lemma Pay_idle:
  assumes "idle w" and r: "Pay uid oid w = (r, w')"
  shows "idle w' \<and> env w' = env w \<and> draw_no w \<le> draw_no w'"
proof (cases "BeginTx w")
  case (Pair b w0)
  show ?thesis
  proof (cases b)
    case (Inl e)
    with Pair r assms BeginTx_Inl [of w e w0] show ?thesis by (auto simp: Pay_def and_then_def idle_def)
  next
    case (Inr x)
    with Pair have b: "BeginTx w = (Inr (), w0)" by simp
    from live_begin [OF b assms(1)] have w0: "live w0" "tx w0 = Some (tables w)" "env w0 = env w" "draw_no w0 = draw_no w" by simp_all
    obtain q w1 where q: "pay_steps pg_queries uid oid w0 = (q, w1)" by fastforce
    from pay_steps_cases [OF w0(1) q] w0 have
      w1: "tx w1 = Some (tables w)" "env w1 = env w" "holds schema_ok w1" "draw_no w \<le> draw_no w1" by auto
    obtain c w2 where c: "CommitTx w1 = (c, w2)" by (cases "CommitTx w1")
    have "tx w2 = None \<and> env w2 = env w \<and> draw_no w \<le> draw_no w2"
      using c w1 CommitTx_Inr [of w1 w2] CommitTx_Inl [of w1 _ w2] by (cases c) auto
    moreover have "schema_ok (tables w2)"
      using keepsD [OF keeps_CommitTx w1(3) c] by (simp add: holds_def)
    moreover have "idle (RollbackTx w1) \<and> env (RollbackTx w1) = env w \<and> draw_no w \<le> draw_no (RollbackTx w1)"
      using w1 holds_RollbackTx [OF w1(3)] by (simp add: idle_def holds_def RollbackTx_simps)
    moreover from b q r c have "w' = w2 \<or> w' = RollbackTx w1"
      by (auto simp: Pay_def and_then_def Let_def split: sum.splits prod.splits if_splits)
    ultimately show ?thesis by (auto simp: idle_def)
  qed
qed

text \<open>The sample order paid: \<open>rand\<close> below 80 lets the charge succeed.\<close>

definition sample_paid :: "nat \<Rightarrow> world" where
  "sample_paid rand = sample_world all_works rand (tables (snd (Pay 1 100 (sample_placed all_works rand))))"

lemma sample_paid_idle: "idle (sample_paid 7)" "idle (sample_paid 93)"
  by code_simp+

section \<open>Properties\<close>



text \<open>
  An order that is paid already (or whose payment succeeded) is never charged again: paying it
  once more changes nothing, and answers with the stored payment unless a statement fails.
\<close>

theorem Pay_again:
  assumes "idle w" and "found uid oid (tables w) ord pay" and "o_status ord = ''paid'' \<or> y_status pay = ''success''"
    and r: "Pay uid oid w = (r, w')"
  shows "charges w' = charges w \<and> tables w' = tables w \<and>
    (isl r \<or> r = Inr (paymentFromSqlc pay, orderFromSqlc ord))"
proof -
  have unique: "ord' = ord \<and> pay' = pay" if "found uid oid (tables w) ord' pay'" for ord' pay'
    using that assms(2) by (simp add: found_def)
  then have "\<not> (found uid oid (tables w) ord' pay' \<and> payable ord' pay')" for ord' pay'
    using assms(3) by (auto simp: payable_def)
  with Pay_cases [OF assms(1) r] unique show ?thesis by blast
qed

theorem Pay_again_witness:
  "charges (snd (Pay 1 100 (sample_paid 7))) = charges (sample_paid 7) \<and>
   tables (snd (Pay 1 100 (sample_paid 7))) = tables (sample_paid 7) \<and>
   map_sum (\<lambda>_. ()) (\<lambda>(p, ord). (Payment_Status p, Order_Status ord)) (fst (Pay 1 100 (sample_paid 7))) =
     Inr (''success'', ''paid'')"
proof -
  let ?t = "tables (sample_paid 7)"
  let ?ord = "the (row_by o_id 100 (t_orders ?t))" and ?pay = "the (row_by y_order_id 100 (t_payments ?t))"
  have "row_by o_id 100 (t_orders ?t) \<noteq> None" "row_by y_order_id 100 (t_payments ?t) \<noteq> None"
    "o_user_id ?ord = 1" "o_status ?ord = ''paid''"
    "map_sum (\<lambda>_. ()) (\<lambda>(p, ord). (Payment_Status p, Order_Status ord)) (fst (Pay 1 100 (sample_paid 7))) =
       Inr (''success'', ''paid'')"
    by code_simp+
  moreover from this have "found 1 100 ?t ?ord ?pay" by (simp add: found_def)
  ultimately show ?thesis
    using Pay_again [OF sample_paid_idle(1) _ _ prod.collapse [symmetric], of 1 100 ?ord ?pay] by blast
qed

text \<open>
  C19. A cancelled order is never charged, and neither is an order of somebody else: the caller gets
  an error and nothing changes.
\<close>

theorem Pay_refused:
  assumes "idle w" and r: "Pay uid oid w = (r, w')"
    and "\<forall>ord pay. found uid oid (tables w) ord pay \<longrightarrow> o_status ord = ''cancelled''"
  shows "isl r \<and> charges w' = charges w \<and> tables w' = tables w"
  using Pay_cases [OF assms(1) r] assms(3) by (auto simp: payable_def)

theorem Pay_refused_witness:
  "isl (fst (Pay 1 100 (sample_cancelled all_works 7))) \<and>
   charges (snd (Pay 1 100 (sample_cancelled all_works 7))) = charges (sample_cancelled all_works 7) \<and>
   tables (snd (Pay 1 100 (sample_cancelled all_works 7))) = tables (sample_cancelled all_works 7)"
proof (rule Pay_refused [OF sample_idle(3) prod.collapse [symmetric]])
  have "map_option o_status (row_by o_id 100 (t_orders (tables (sample_cancelled all_works 7)))) = Some ''cancelled''"
    by code_simp
  then show "\<forall>ord pay. found 1 100 (tables (sample_cancelled all_works 7)) ord pay \<longrightarrow> o_status ord = ''cancelled''"
    by (auto simp: found_def)
qed

lemma Pay_returns:
  assumes "idle w" and "faultless w" and "found uid oid (tables w) ord pay" and "payable ord pay"
    and fresh: "\<forall>n \<ge> draw_no w. \<forall>r \<in> set (t_payments (tables w)). y_transaction_id r \<noteq> Some (env_txid (env w) n)"
    and r: "Pay uid oid w = (r, w')"
  shows "\<not> isl r"
proof -
  obtain w0 where b: "BeginTx w = (Inr (), w0)"
    using faultless_BeginTx [OF assms(2)] by (metis prod.collapse)
  from live_begin [OF b assms(1)] assms(2) have w0: "live w0" "tables w0 = tables w" "faultless w0"
    "env w0 = env w" "draw_no w0 = draw_no w" by (auto simp: faultless_def)
  have "pay_steps pg_queries uid oid w0 \<noteq> (Inl e, w1)" for e w1
  proof
    assume "pay_steps pg_queries uid oid w0 = (Inl e, w1)"
    moreover have "pay_lock pg_queries uid oid w0 \<noteq> (Inl e, w1)"
      using pay_lock_returns [OF w0(3,1)] w0(2) assms(3) by simp
    ultimately obtain ord1 pay1 w2 where l: "pay_lock pg_queries uid oid w0 = (Inr (ord1, pay1), w2)"
      and c: "(if o_status ord1 = ''paid'' then ret (False, pay1, ord1)
         else if o_status ord1 = ''cancelled'' then fail (PaymentErr ErrOrderNotPayable)
         else if y_status pay1 = ''success'' then ret (False, pay1, ord1)
         else and_then (Charge (o_id ord1) (y_amount pay1)) (\<lambda>(success, transactionID).
           and_then (pay_settle pg_queries ord1 success transactionID) (\<lambda>res. ret (True, res)))) w2 = (Inl e, w1)"
      unfolding pay_steps_def pg_queries_simps by (auto simp: op_simps)
    from pg_pay.lock_Inr [OF w0(1) l] w0(2) assms(3) have
      w2: "live w2" "tables w2 = tables w" "ord1 = ord" "pay1 = pay"
      and row: "row_by o_id oid (t_orders (tables w)) = Some ord"
        "row_by y_order_id oid (t_payments (tables w)) = Some pay"
      by (auto simp: found_def)
    from staysD [OF pay_stays(1) l] w0 have w2e: "env w2 = env w" "draw_no w \<le> draw_no w2" by (simp_all add: same_tx_def)
    from c assms(4) w2 obtain success txid w3 where
      ch: "Charge (o_id ord) (y_amount pay) w2 = (Inr (success, txid), w3)"
      and s: "pay_settle pg_queries ord success txid w3 = (Inl e, w1)"
      by (auto simp: payable_def op_simps) (auto simp: Charge_def Let_def)
    from ch have tx: "txid = env_txid (env w) (draw_no w2)" by (auto simp: Charge_def Let_def w2e)
    from Charge_simps [OF ch] w2 w2e assms(2) have
      "live w3" "tables w3 = tables w" "faultless w3" by (auto simp: live_def holds_def faultless_def)
    with pay_settle_returns [OF this(3,1), of oid ord pay txid success e w1] row fresh tx s w2e(2)
    show False by simp
  qed
  then obtain res w1 where q: "pay_steps pg_queries uid oid w0 = (Inr res, w1)"
    by (metis prod.collapse sum.collapse(1) sum.collapse(2))
  from pay_steps_cases [OF w0(1) q] assms(2) w0 have "faultless w1" by (auto simp: faultless_def)
  from faultless_CommitTx [OF this] obtain w2 where "CommitTx w1 = (Inr (), w2)" by (metis prod.collapse)
  with b q r show ?thesis by (auto simp: Pay_def and_then_def Let_def split: prod.splits if_splits)
qed

text \<open>
  C20. When no statement fails, paying a pending order answers, and the outcome of the provider's
  draw is recorded: the payment succeeded or failed with the drawn transaction id, and the order is
  paid exactly when it succeeded.
\<close>

theorem Pay_completes:
  assumes "idle w" and "faultless w" and "found uid oid (tables w) ord pay" and "payable ord pay"
    and fresh: "\<forall>n \<ge> draw_no w. \<forall>r \<in> set (t_payments (tables w)). y_transaction_id r \<noteq> Some (env_txid (env w) n)"
    and r: "Pay uid oid w = (r, w')"
  shows "\<exists>success txid now res. r = Inr res \<and> drawn w w' success txid \<and>
    settled oid now success txid ord pay (tables w) (tables w') res \<and>
    charges w' = charges w @ [\<lparr>c_order = oid, c_amount = y_amount pay, c_txid = txid, c_success = success\<rparr>]"
proof -
  have "ord' = ord \<and> pay' = pay" if "found uid oid (tables w) ord' pay'" for ord' pay'
    using that assms(3) by (simp add: found_def)
  with Pay_returns [OF assms] Pay_cases [OF assms(1) r] assms(4) show ?thesis by blast
qed

theorem Pay_completes_witness:
  "\<exists>ord pay success txid now res. fst (Pay 1 100 (sample_placed all_works 93)) = Inr res \<and>
     settled 100 now success txid ord pay (tables (sample_placed all_works 93))
       (tables (snd (Pay 1 100 (sample_placed all_works 93)))) res \<and>
     map c_success (charges (snd (Pay 1 100 (sample_placed all_works 93)))) = [False]"
proof -
  let ?w = "sample_placed all_works 93"
  let ?t = "tables ?w"
  let ?ord = "the (row_by o_id 100 (t_orders ?t))" and ?pay = "the (row_by y_order_id 100 (t_payments ?t))"
  have "row_by o_id 100 (t_orders ?t) \<noteq> None" "row_by y_order_id 100 (t_payments ?t) \<noteq> None"
    "o_user_id ?ord = 1" and payable: "payable ?ord ?pay"
    and "\<forall>r \<in> set (t_payments ?t). y_transaction_id r = None"
    and failed: "map c_success (charges (snd (Pay 1 100 ?w))) = [False]"
    by code_simp+
  then have found: "found 1 100 ?t ?ord ?pay"
    and fresh: "\<forall>n \<ge> draw_no ?w. \<forall>r \<in> set (t_payments ?t). y_transaction_id r \<noteq> Some (env_txid (env ?w) n)"
    by (simp_all add: found_def)
  have "faultless ?w"
    by (simp add: faultless_def sample_placed_def sample_env_def all_works_def)
  from Pay_completes [OF sample_idle(2) this found payable fresh prod.collapse [symmetric]]
  obtain success txid now res where "fst (Pay 1 100 ?w) = Inr res"
    "settled 100 now success txid ?ord ?pay ?t (tables (snd (Pay 1 100 ?w))) res" by (elim exE conjE)
  with failed show ?thesis by (intro exI conjI)
qed

text \<open>
  Reading a payment never changes anything, and only the owner of the order sees its payment.
\<close>

theorem GetPaymentByOrderID_own_payment:
  assumes "GetPaymentByOrderID uid oid w = (r, w')"
  shows "tables w' = tables w \<and>
    (case r of
       Inr p \<Rightarrow> \<exists>pay \<in> set (t_payments (tables w)). \<exists>ord \<in> set (t_orders (tables w)).
         y_order_id pay = oid \<and> o_id ord = oid \<and> o_user_id ord = uid \<and> p = paymentFromSqlc pay
     | Inl e \<Rightarrow> e = ErrConn \<or> e = PaymentErr ErrNoPaymentFound \<and>
         getPaymentByOrderID oid uid (tables w) = [])"
proof -
  from assms obtain q where q: "sql_GetPaymentByOrderID oid uid w = (q, w')"
    and r: "r = (case q of Inl e \<Rightarrow> Inl (not_found (PaymentErr ErrNoPaymentFound) e) | Inr p \<Rightarrow> Inr (paymentFromSqlc p))"
    by (auto simp: GetPaymentByOrderID_def map_ok_def map_err_def and_then_def ret_def
        split: prod.splits sum.splits)
  from query_rows_cases [OF q [unfolded sql_GetPaymentByOrderID_def]] show ?thesis
  proof (elim conjE disjE exE)
    fix rs
    assume t: "tables w' = tables w"
      and rs: "mset rs = mset (getPaymentByOrderID oid uid (tables w))" "q = one_row rs"
    show ?thesis
    proof (cases rs)
      case Nil
      with t rs r show ?thesis by (simp add: one_row_def not_found_def)
    next
      case (Cons p ps)
      with mset_eq_setD [OF rs(1)] have "p \<in> set (getPaymentByOrderID oid uid (tables w))" by auto
      with t rs(2) r Cons show ?thesis
        by (simp add: one_row_def) (force simp: getPaymentByOrderID_def split: if_splits)
    qed
  qed (use r in \<open>simp add: not_found_def\<close>)
qed

theorem GetPaymentByOrderID_own_payment_witness:
  "tables (snd (GetPaymentByOrderID 1 100 (sample_placed all_works 0))) = tables (sample_placed all_works 0) \<and>
   map_sum (\<lambda>_. ()) Payment_Amount (fst (GetPaymentByOrderID 1 100 (sample_placed all_works 0))) = Inr 1250 \<and>
   fst (GetPaymentByOrderID 2 100 (sample_placed all_works 0)) = Inl (PaymentErr ErrNoPaymentFound)"
proof -
  have "map_sum (\<lambda>_. ()) Payment_Amount (fst (GetPaymentByOrderID 1 100 (sample_placed all_works 0))) = Inr 1250"
    "fst (GetPaymentByOrderID 2 100 (sample_placed all_works 0)) = Inl (PaymentErr ErrNoPaymentFound)"
    by code_simp+
  with GetPaymentByOrderID_own_payment [OF prod.collapse [symmetric], of 1 100 "sample_placed all_works 0"]
  show ?thesis by blast
qed

end
