(* ===== verification/Lock_Order.thy ===== *)
theory Lock_Order
  imports Payment "HOL-Library.Product_Lexorder"
begin

text \<open>
  The order in which transactions take row locks, and that it excludes deadlocks. \<open>lockAndPrice\<close> and
  \<open>CancelOrder\<close> sort by product UUID because \<^emph>\<open>two concurrent orders touching the same pair of products
  in opposite orders would deadlock\<close>. Here: placing, cancelling and paying an order take their locks
  in ascending order, whatever fails, and transactions that do so never deadlock.
\<close>

section \<open>The order of locks\<close>

text \<open>Orders come before payments, payments before products; rows of a table are ordered by UUID.\<close>

instantiation row_lock :: linorder
begin

fun lock_key :: "row_lock \<Rightarrow> nat \<times> uuid" where
  "lock_key (OrderLock u) = (0, u)"
| "lock_key (PaymentLock u) = (1, u)"
| "lock_key (ProductLock u) = (2, u)"

definition less_eq_row_lock :: "row_lock \<Rightarrow> row_lock \<Rightarrow> bool" where
  "less_eq_row_lock a b \<longleftrightarrow> lock_key a \<le> lock_key b"

definition less_row_lock :: "row_lock \<Rightarrow> row_lock \<Rightarrow> bool" where
  "less_row_lock a b \<longleftrightarrow> lock_key a < lock_key b"

instance
proof
  fix a b c :: row_lock
  have inj: "a = b" if "lock_key a = lock_key b"
    using that by (cases a; cases b) simp_all
  show "a < b \<longleftrightarrow> a \<le> b \<and> \<not> b \<le> a" by (auto simp: less_eq_row_lock_def less_row_lock_def)
  show "a \<le> a" by (simp add: less_eq_row_lock_def)
  show "a \<le> b \<Longrightarrow> b \<le> c \<Longrightarrow> a \<le> c" unfolding less_eq_row_lock_def by (rule order_trans)
  show "a \<le> b \<Longrightarrow> b \<le> a \<Longrightarrow> a = b" unfolding less_eq_row_lock_def by (rule inj) (rule antisym)
  show "a \<le> b \<or> b \<le> a" unfolding less_eq_row_lock_def by (rule linear)
qed

end

lemma lock_less_simps [simp]:
  "OrderLock u < OrderLock v \<longleftrightarrow> u < v" "OrderLock u < PaymentLock v" "OrderLock u < ProductLock v"
  "PaymentLock u < PaymentLock v \<longleftrightarrow> u < v" "PaymentLock u < ProductLock v"
  "ProductLock u < ProductLock v \<longleftrightarrow> u < v"
  by (simp_all add: less_row_lock_def)

text \<open>
  A list of lock requests is ascending above the locks held already when each request is for a lock
  held, or for one above all locks held.
\<close>

fun ascending :: "row_lock set \<Rightarrow> row_lock list \<Rightarrow> bool" where
  "ascending held [] \<longleftrightarrow> True"
| "ascending held (l # ls) \<longleftrightarrow> (l \<in> held \<or> (\<forall>h \<in> held. h < l)) \<and> ascending (insert l held) ls"

lemma ascending_append: "ascending held (xs @ ys) \<longleftrightarrow> ascending held xs \<and> ascending (held \<union> set xs) ys"
  by (induction xs arbitrary: held) auto

lemma ascending_held: "set ls \<subseteq> held \<Longrightarrow> ascending held ls"
  by (induction ls arbitrary: held) (auto simp: insert_absorb)

lemma ascending_one: "set ls \<subseteq> {l} \<Longrightarrow> l \<in> held \<or> (\<forall>h \<in> held. h < l) \<Longrightarrow> ascending held ls"
proof (induction ls arbitrary: held)
  case Nil
  then show ?case by simp
next
  case (Cons k ls)
  then have "k = l" "set ls \<subseteq> insert l held" by auto
  with Cons.prems(2) show ?case by (auto intro: ascending_held)
qed

section \<open>Which locks an operation takes\<close>

definition takes :: "row_lock set \<Rightarrow> 'a db_op \<Rightarrow> bool" where
  "takes S f \<longleftrightarrow> (\<forall>w r w'. f w = (r, w') \<longrightarrow> (\<exists>ls. locks w' = locks w @ ls \<and> set ls \<subseteq> S))"

named_theorems takes_intros \<open>the locks an operation takes\<close>

lemma takesI: "(\<And>w r w'. f w = (r, w') \<Longrightarrow> \<exists>ls. locks w' = locks w @ ls \<and> set ls \<subseteq> S) \<Longrightarrow> takes S f"
  by (simp add: takes_def)

lemma takesD: "takes S f \<Longrightarrow> f w = (r, w') \<Longrightarrow> \<exists>ls. locks w' = locks w @ ls \<and> set ls \<subseteq> S"
  by (simp add: takes_def)

lemma takes_mono: "takes S f \<Longrightarrow> S \<subseteq> T \<Longrightarrow> takes T f"
  unfolding takes_def by (meson order_trans)

lemma takes_ret [takes_intros]: "takes S (ret a)" and takes_fail [takes_intros]: "takes S (fail e)"
  by (auto simp: takes_def ret_def fail_def)

lemma takes_and_then [takes_intros]:
  assumes f: "takes S f" and g: "\<And>a. takes S (g a)"
  shows "takes S (and_then f g)"
proof (rule takesI)
  fix w r w'
  assume r: "and_then f g w = (r, w')"
  obtain q w1 where q: "f w = (q, w1)" by fastforce
  from takesD [OF f q] obtain ls where ls: "locks w1 = locks w @ ls" "set ls \<subseteq> S" by blast
  show "\<exists>ls. locks w' = locks w @ ls \<and> set ls \<subseteq> S"
  proof (cases q)
    case (Inl e)
    with r q ls show ?thesis by (auto simp: and_then_def)
  next
    case (Inr a)
    with r q have "g a w1 = (r, w')" by (simp add: and_then_def)
    from takesD [OF g this] ls show ?thesis by (metis Un_least append_assoc set_append)
  qed
qed

lemma takes_map_err [takes_intros]: "takes S f \<Longrightarrow> takes S (map_err h f)"
  by (auto simp: takes_def map_err_def split: prod.splits sum.splits)

lemma takes_map_ok [takes_intros]: "takes S f \<Longrightarrow> takes S (map_ok h f)"
  by (simp add: map_ok_def takes_intros)

lemma takes_if [takes_intros]: "takes S f \<Longrightarrow> takes S g \<Longrightarrow> takes S (if b then f else g)"
  by simp

lemma takes_case_prod [takes_intros]: "(\<And>a b. takes S (f a b)) \<Longrightarrow> takes S (case p of (a, b) \<Rightarrow> f a b)"
  by (cases p) simp

lemma takes_sql_stmt: "takes S body \<Longrightarrow> takes S (sql_stmt body)"
proof (rule takesI)
  fix w r w'
  assume b: "takes S body" and r: "sql_stmt body w = (r, w')"
  obtain q w1 where q: "body (next_stmt w) = (q, w1)" by fastforce
  from takesD [OF b q] r q show "\<exists>ls. locks w' = locks w @ ls \<and> set ls \<subseteq> S"
    by (auto simp: sql_stmt_def Let_def split: fault.splits)
qed

lemma takes_exec_sql:
  "(\<And>now t a t' ls. f now t = Inr (a, t', ls) \<Longrightarrow> set ls \<subseteq> S) \<Longrightarrow> takes S (exec_sql f)"
  unfolding exec_sql_def
  by (intro takes_sql_stmt takesI) (force simp: on_tables_def split: sum.splits prod.splits)

lemma takes_exec_insert:
  "(\<And>u now t a t' ls. f u now t = Inr (a, t', ls) \<Longrightarrow> set ls \<subseteq> S) \<Longrightarrow> takes S (exec_insert f)"
  unfolding exec_insert_def
  by (intro takes_sql_stmt takesI) (force simp: on_tables_def split: sum.splits prod.splits)

lemma takes_query_rows [takes_intros]: "takes S (query_rows sel f)"
  unfolding query_rows_def by (rule takes_sql_stmt) (auto simp: takes_def Let_def)

lemma update_where_out:
  "update_where P f rs = Inr (rs', out) \<Longrightarrow> (\<And>r r'. P r \<Longrightarrow> f r = Inr r' \<Longrightarrow> Q r') \<Longrightarrow> \<forall>r \<in> set out. Q r"
  by (auto simp: update_where_Inr isl_def)

lemma takes_update_orders:
  assumes "returning_one (update_orders (\<lambda>r. o_id r = oid \<and> C r) status) now t = Inr (r, t', ls)"
  shows "set ls \<subseteq> {OrderLock oid}"
proof -
  let ?g = "\<lambda>r. checked order_check (r\<lparr>o_status := status, o_updated_at := now\<rparr>)"
  from assms obtain rs out where u: "update_where (\<lambda>r. o_id r = oid \<and> C r) ?g (t_orders t) = Inr (rs, out)"
    and "ls = concat (map (\<lambda>r. [OrderLock (o_id r)]) out)"
    by (auto simp: update_orders_def op_simps)
  moreover have "\<forall>r \<in> set out. o_id r = oid"
    by (rule update_where_out [OF u]) (auto simp: op_simps)
  ultimately show ?thesis by auto
qed

lemma takes_store [takes_intros]:
  "ProductLock pid \<in> S \<Longrightarrow> takes S (store_LockProductForUpdate pid)"
  "ProductLock pid \<in> S \<Longrightarrow> takes S (store_DecreaseProductStock pid q)"
  "ProductLock pid \<in> S \<Longrightarrow> takes S (store_IncreaseProductStock pid q)"
  "takes S (store_CreateOrder uid amt)" "takes S (store_CreateOrderItem params)"
  "takes S (store_CreatePayment oid amt)" "takes S (store_GetOrderItemsByOrderID oid)"
  "OrderLock oid \<in> S \<Longrightarrow> takes S (store_LockOrderForUpdate uid oid)"
  "OrderLock oid \<in> S \<Longrightarrow> takes S (store_UpdateOrderStatus uid oid status)"
proof -
  have products: "set ls \<subseteq> S"
    if "rows_affected (update_products (\<lambda>r. p_id r = pid \<and> C r) (\<lambda>now r. set_stock (s r) now r)) now t = Inr (n, t', ls)"
      "ProductLock pid \<in> S" for C s now t n t' ls
  proof -
    from that(1) obtain rs out where u: "update_where (\<lambda>r. p_id r = pid \<and> C r) (\<lambda>r. set_stock (s r) now r) (t_products t) = Inr (rs, out)"
      and "ls = concat (map (\<lambda>r. [ProductLock (p_id r)]) out)"
      by (auto simp: update_products_def op_simps)
    moreover have "\<forall>r \<in> set out. p_id r = pid"
      by (rule update_where_out [OF u]) (auto simp: op_simps)
    ultimately show ?thesis using that(2) by auto
  qed
  show "takes S (store_LockProductForUpdate pid)" if "ProductLock pid \<in> S"
    unfolding store_LockProductForUpdate_def sql_LockProductForUpdate_def lockProductForUpdate_def
    by (intro takes_intros takes_exec_sql) (use that in \<open>auto simp: op_simps\<close>)
  show "takes S (store_DecreaseProductStock pid q)" if "ProductLock pid \<in> S"
    unfolding store_DecreaseProductStock_def sql_DecreaseProductStock_def decreaseProductStock_def
    by (rule takes_exec_sql) (erule products [OF _ that, where C = "\<lambda>r. int32_of q \<le>s p_stock r"])
  show "takes S (store_IncreaseProductStock pid q)" if "ProductLock pid \<in> S"
    unfolding store_IncreaseProductStock_def sql_IncreaseProductStock_def increaseProductStock_def
    by (rule takes_exec_sql) (use products [OF _ that, where C = "\<lambda>_. True"] in simp)
  show "takes S (store_CreateOrder uid amt)" "takes S (store_CreateOrderItem params)"
    "takes S (store_CreatePayment oid amt)"
    unfolding store_defs sql_defs
    by (intro takes_intros takes_exec_insert,
        auto simp: createOrder_def createOrderItem_def createPayment_def Let_def split: if_splits)+
  show "takes S (store_GetOrderItemsByOrderID oid)"
    unfolding store_defs sql_defs by (intro takes_intros)
  show "takes S (store_LockOrderForUpdate uid oid)" if "OrderLock oid \<in> S"
    unfolding store_LockOrderForUpdate_def sql_LockOrderForUpdate_def lockOrderForUpdate_def
    by (intro takes_intros takes_exec_sql) (use that in \<open>auto simp: op_simps\<close>)
  show "takes S (store_UpdateOrderStatus uid oid status)" if S: "OrderLock oid \<in> S"
    unfolding store_UpdateOrderStatus_def sql_UpdateOrderStatus_def updateOrderStatus_def
  proof (intro takes_intros takes_exec_sql)
    fix now t r t' ls
    assume "returning_one (update_orders (\<lambda>r. o_id r = oid \<and> o_user_id r = uid) status) now t = Inr (r, t', ls)"
    then show "set ls \<subseteq> S" using takes_update_orders [of oid "\<lambda>r. o_user_id r = uid"] S by blast
  qed
qed

section \<open>The locks of the transactions\<close>

lemma RollbackTx_locks [simp]: "locks (RollbackTx w) = locks w"
  by (simp add: RollbackTx_def split: option.splits)

lemma CommitTx_locks: "CommitTx w = (r, w') \<Longrightarrow> locks w' = locks w"
  by (auto simp: CommitTx_def Let_def split: fault.splits)

lemma BeginTx_locks: "BeginTx w = (Inl e, w') \<Longrightarrow> locks w' = locks w"
  by (auto simp: BeginTx_def Let_def split: if_splits)

lemma WithinTx_locks:
  assumes "idle w" and fn: "\<And>w0 r w1. live w0 \<Longrightarrow> locks w0 = [] \<Longrightarrow> fn w0 = (r, w1) \<Longrightarrow> ascending {} (locks w1)"
    and r: "WithinTx fn w = (r, w')"
  shows "locks w' = locks w \<or> ascending {} (locks w')"
proof (cases "BeginTx w")
  case (Pair b w0)
  show ?thesis
  proof (cases b)
    case (Inl e)
    with Pair r BeginTx_locks [of w e w0] show ?thesis by (auto simp: WithinTx_def and_then_def)
  next
    case (Inr x)
    with Pair live_begin [OF _ assms(1), of w0] have w0: "live w0" "locks w0 = []" by auto
    obtain q w1 where f: "fn w0 = (q, w1)" by fastforce
    obtain c w2 where c: "CommitTx w1 = (c, w2)" by fastforce
    from Pair Inr f c r have "w' = RollbackTx w1 \<or> w' = w2"
      by (auto simp: WithinTx_def and_then_def split: sum.splits)
    with fn [OF w0 f] CommitTx_locks [OF c] show ?thesis by auto
  qed
qed

lemma ascending_products:
  "sorted ids \<Longrightarrow> distinct ids \<Longrightarrow> \<forall>h \<in> held. \<forall>i \<in> set ids. h < ProductLock i \<Longrightarrow>
   ascending held (map ProductLock ids)"
proof (induction ids arbitrary: held)
  case Nil
  then show ?case by simp
next
  case (Cons pid ids)
  then have "\<forall>i \<in> set ids. pid < i" by (auto simp: order_less_le)
  then have "\<forall>h \<in> insert (ProductLock pid) held. \<forall>i \<in> set ids. h < ProductLock i"
    using Cons.prems(3) by auto
  with Cons show ?case by simp
qed

lemma lock_loop_locks:
  assumes "lock_loop order_repository qs ids ps tot w = (r, w')" and "sorted ids" "distinct ids"
    and "\<forall>h \<in> held. \<forall>i \<in> set ids. h < ProductLock i"
  shows "\<exists>ls. locks w' = locks w @ ls \<and> ascending held ls"
  using assms
proof (induction ids arbitrary: ps tot w held)
  case Nil
  then show ?case by (auto simp: ret_def)
next
  case (Cons pid ids)
  let ?lock = "store_LockProductForUpdate pid"
  obtain q w1 where q: "?lock w = (q, w1)" by fastforce
  from takesD [OF takes_store(1) q, of "{ProductLock pid}"] obtain ls where
    ls: "locks w1 = locks w @ ls" "set ls \<subseteq> {ProductLock pid}" by blast
  have up: "ascending held ls" using ls(2) Cons.prems(4) by (intro ascending_one) auto
  show ?case
  proof (cases "w' = w1")
    case True
    with ls up show ?thesis by auto
  next
    case False
    with q Cons.prems(1) have "\<exists>p :: Product. lock_loop order_repository qs ids (go_set pid (Product_Price p) ps)
         (tot + Product_Price p * go_get qs pid) w1 = (r, w')"
      by (cases q) (auto simp: and_then_def fail_def split: if_splits)
    then obtain p :: Product where
      l: "lock_loop order_repository qs ids (go_set pid (Product_Price p) ps)
         (tot + Product_Price p * go_get qs pid) w1 = (r, w')" ..
    have "\<forall>i \<in> set ids. pid < i" using Cons.prems(2,3) by (auto simp: order_less_le)
    then have "\<forall>h \<in> held \<union> set ls. \<forall>i \<in> set ids. h < ProductLock i"
      using Cons.prems(4) ls(2) by auto
    from Cons.IH [OF l _ _ this] Cons.prems(2,3) obtain ls' where
      "locks w' = locks w1 @ ls'" "ascending (held \<union> set ls) ls'" by auto
    with ls(1) up show ?thesis by (intro exI [of _ "ls @ ls'"]) (simp add: ascending_append)
  qed
qed

lemma takes_place_items:
  "ProductLock ` req_ProductID ` set items \<subseteq> S \<Longrightarrow> takes S (place_items order_repository oid ps items before)"
  by (induction items arbitrary: before) (auto intro!: takes_intros)

lemma create_order_locks:
  assumes "live w" "locks w = []" and r: "create_order_body order_repository uid items w = (r, w')"
  shows "ascending {} (locks w')"
proof -
  let ?ids = "sortedProductIDs (quantityByProduct items)"
  note ids = sortedProductIDs_quantity [of items]
  obtain q w1 where q: "lock_loop order_repository (quantityByProduct items) ?ids [] 0 w = (q, w1)" by fastforce
  show ?thesis
  proof (cases q)
    case (Inl e)
    with q r have "w' = w1" by (simp add: create_order_body_def lockAndPrice_def and_then_def)
    with lock_loop_locks [OF q ids(1,2), of "{}"] assms(2) show ?thesis by auto
  next
    case (Inr a)
    obtain ps total where a: "a = (ps, total)" by (cases a)
    let ?rest = "and_then (st_CreateOrder order_repository uid total) (\<lambda>createdOrder.
      and_then (place_items order_repository (Order_ID createdOrder) ps items []) (\<lambda>createdItems.
      and_then (st_CreatePayment order_repository (Order_ID createdOrder) (Order_TotalAmount createdOrder))
        (\<lambda>createdPayment. ret (createdOrder, createdItems, createdPayment))))"
    from r q Inr a have rest: "?rest w1 = (r, w')"
      by (simp add: create_order_body_def lockAndPrice_def and_then_def)
    from pg.lock_loop_Inr [OF assms(1) q [unfolded Inr a]] assms(2) have w1: "locks w1 = map ProductLock ?ids" by simp
    have "takes (ProductLock ` set ?ids) ?rest"
      using ids(3) by (intro takes_intros takes_place_items) (auto intro: takes_intros)
    from takesD [OF this rest] obtain ls where "locks w' = locks w1 @ ls" "set ls \<subseteq> ProductLock ` set ?ids" by blast
    with w1 ascending_products [OF ids(1,2), of "{}"] show ?thesis
      by (simp add: ascending_append ascending_held)
  qed
qed

lemma restock_locks:
  assumes "restock_items order_repository its w = (r, w')" and "sorted (map OrderItem_ProductID its)"
    and "\<forall>h \<in> held. \<forall>i \<in> set its. h \<le> ProductLock (OrderItem_ProductID i)"
  shows "\<exists>ls. locks w' = locks w @ ls \<and> ascending held ls"
  using assms
proof (induction its arbitrary: w held)
  case Nil
  then show ?case by (auto simp: ret_def)
next
  case (Cons it its)
  let ?pid = "OrderItem_ProductID it"
  let ?both = "and_then (store_LockProductForUpdate ?pid) (\<lambda>_. store_IncreaseProductStock ?pid (OrderItem_Quantity it))"
  obtain q w1 where q: "?both w = (q, w1)" by fastforce
  have "takes {ProductLock ?pid} ?both" by (intro takes_intros) simp_all
  from takesD [OF this q] obtain ls where ls: "locks w1 = locks w @ ls" "set ls \<subseteq> {ProductLock ?pid}" by blast
  have up: "ascending held ls"
    using ls(2) Cons.prems(3) by (intro ascending_one) (auto simp: order_less_le)
  show ?case
  proof (cases "w' = w1")
    case True
    with ls up show ?thesis by auto
  next
    case False
    with q Cons.prems(1) have l: "restock_items order_repository its w1 = (r, w')"
      by (auto simp: and_then_def fail_def split: sum.splits prod.splits if_splits)
    have "\<forall>h \<in> held \<union> set ls. \<forall>i \<in> set its. h \<le> ProductLock (OrderItem_ProductID i)"
      using Cons.prems(2,3) ls(2) by (auto simp: less_eq_row_lock_def)
    from Cons.IH [OF l _ this] Cons.prems(2) obtain ls' where
      "locks w' = locks w1 @ ls'" "ascending (held \<union> set ls) ls'" by auto
    with ls(1) up show ?thesis by (intro exI [of _ "ls @ ls'"]) (simp add: ascending_append)
  qed
qed

lemma cancel_order_locks:
  assumes "live w" "locks w = []" and r: "cancel_order_body order_repository uid oid w = (r, w')"
  shows "ascending {} (locks w')"
proof -
  obtain q w1 where q: "store_LockOrderForUpdate uid oid w = (q, w1)" by fastforce
  show ?thesis
  proof (cases q)
    case (Inl e)
    with q r have "w' = w1" by (simp add: cancel_order_body_def and_then_def)
    with takesD [OF takes_store(8) q, of "{OrderLock oid}"] assms(2) show ?thesis
      by (auto intro: ascending_one)
  next
    case (Inr ord)
    from store_LockOrderForUpdate_Inr [OF assms(1) q [unfolded Inr]] assms(2) have
      w1: "locks w1 = [OrderLock oid]" by simp
    obtain g w2 where g: "store_GetOrderItemsByOrderID oid w1 = (g, w2)" by fastforce
    from takesD [OF takes_store(7) g, of "{}"] w1 have w2: "locks w2 = [OrderLock oid]" by auto
    show ?thesis
    proof (cases "w' = w1 \<or> w' = w2")
      case True
      with w1 w2 show ?thesis by auto
    next
      case False
      with r q g Inr obtain its where its: "g = Inr its"
        and l: "and_then (restock_items order_repository (by_product its))
                  (\<lambda>_. store_UpdateOrderStatus uid oid ''cancelled'') w2 = (r, w')"
        by (cases g) (auto simp: cancel_order_body_def by_product_def and_then_def fail_def split: if_splits)
      obtain x w3 where x: "restock_items order_repository (by_product its) w2 = (x, w3)" by fastforce
      have "sorted (map OrderItem_ProductID (by_product its))" by (simp add: by_product_eq)
      from restock_locks [OF x this, of "{OrderLock oid}"] obtain ls where
        w3: "locks w3 = OrderLock oid # ls" "ascending {OrderLock oid} ls"
        using w2 by (auto simp: order_less_imp_le)
      show ?thesis
      proof (cases x)
        case (Inl e)
        with x l w3 show ?thesis by (simp add: and_then_def)
      next
        case (Inr u)
        with x l have "store_UpdateOrderStatus uid oid ''cancelled'' w3 = (r, w')" by (simp add: and_then_def)
        from takesD [OF takes_store(9) this, of "{OrderLock oid}"] obtain ls' where
          "locks w' = locks w3 @ ls'" "set ls' \<subseteq> {OrderLock oid}" by auto
        with w3 show ?thesis by (auto simp: ascending_append intro!: ascending_held)
      qed
    qed
  qed
qed

lemma exec_sql_locks:
  "exec_sql f w = (r, w') \<Longrightarrow>
   locks w' = locks w \<or> (\<exists>now a t ls. f now (tables w) = Inr (a, t, ls) \<and> locks w' = locks w @ ls)"
  by (auto simp: exec_sql_def sql_stmt_def Let_def on_tables_def split: fault.splits sum.splits prod.splits)

lemma pay_lock_locks:
  assumes "live w" "locks w = []" and r: "pay_lock pg_queries uid oid w = (r, w')"
  shows "ascending {} (locks w')"
proof -
  obtain q w1 where q: "sql_LockOrderForPayment oid uid w = (q, w1)" by fastforce
  have "takes {OrderLock oid} (sql_LockOrderForPayment oid uid)"
    unfolding sql_LockOrderForPayment_def lockOrderForPayment_def
    by (rule takes_exec_sql) (auto simp: op_simps)
  from takesD [OF this q] assms(2) have w1: "set (locks w1) \<subseteq> {OrderLock oid}" by auto
  show ?thesis
  proof (cases q)
    case (Inl e)
    with q r have "w' = w1" by (simp add: pay_lock_def and_then_def map_err_def)
    with w1 show ?thesis by (auto intro: ascending_one)
  next
    case (Inr ord)
    from exec_sql_Inr [OF q [unfolded sql_LockOrderForPayment_def Inr]] have
      t1: "tables w1 = tables w" by (auto simp: lockOrderForPayment_def op_simps)
    obtain g where g: "sql_LockPaymentForUpdate (o_id ord) w1 = (g, w')"
      using q r Inr by (auto simp: pay_lock_def and_then_def map_err_def ret_def split: prod.splits sum.splits)
    have d: "distinct (map y_order_id (t_payments (tables w)))"
      using liveD [OF assms(1)] by (simp add: schema_ok_def)
    from exec_sql_locks [OF g [unfolded sql_LockPaymentForUpdate_def]] filter_row_by [OF d, of "o_id ord"] t1
    obtain ls y where "locks w' = locks w1 @ ls" "set ls \<subseteq> {PaymentLock y}"
      by (auto simp: lockPaymentForUpdate_def op_simps split: option.splits)
    moreover have "ascending (set (locks w1)) ls"
      using calculation(2) w1 by (intro ascending_one [where l = "PaymentLock y"]) auto
    ultimately show ?thesis
      using ascending_one [OF w1, of "{}"] by (simp add: ascending_append)
  qed
qed

lemma pay_settle_locks:
  assumes "live w" and ord: "row_by o_id oid (t_orders (tables w)) = Some ord"
    and pay: "row_by y_order_id oid (t_payments (tables w)) = Some pay"
    and r: "pay_settle pg_queries ord success txid w = (r, w')"
  shows "\<exists>ls. locks w' = locks w @ ls \<and> set ls \<subseteq> {OrderLock oid, PaymentLock (y_id pay)}"
proof -
  let ?status = "if success then ''success'' else ''failed''"
  have oid: "o_id ord = oid" using ord by (auto dest: row_by_SomeD)
  obtain q w1 where q: "sql_UpdatePaymentStatus ?status (Some txid) oid w = (q, w1)" by fastforce
  from exec_sql_locks [OF q [unfolded sql_UpdatePaymentStatus_def]]
    updatePaymentStatus_one [OF liveD [OF assms(1)] pay] obtain ls where
    ls: "locks w1 = locks w @ ls" "set ls \<subseteq> {PaymentLock (y_id pay)}" by fastforce
  show ?thesis
  proof (cases "w' = w1")
    case True
    with ls show ?thesis by auto
  next
    case False
    with q r oid obtain m where m: "sql_MarkOrderAsPaid oid w1 = (m, w')"
      by (auto simp: pay_settle_def and_then_def map_err_def ret_def split: prod.splits sum.splits if_splits)
    have "takes {OrderLock oid} (sql_MarkOrderAsPaid oid)"
      unfolding sql_MarkOrderAsPaid_def markOrderAsPaid_def
      by (rule takes_exec_sql) (use takes_update_orders [where C = "\<lambda>_. True"] in simp, blast?)
    from takesD [OF this m] ls show ?thesis by auto
  qed
qed

lemma pay_steps_locks:
  assumes "live w" "locks w = []" and r: "pay_steps pg_queries uid oid w = (r, w')"
  shows "ascending {} (locks w')"
proof -
  obtain q w1 where q: "pay_lock pg_queries uid oid w = (q, w1)" by fastforce
  show ?thesis
  proof (cases "w' = w1")
    case True
    with pay_lock_locks [OF assms(1,2) q] show ?thesis by simp
  next
    case False
    with q r obtain ord pay where op: "q = Inr (ord, pay)"
      and c: "and_then (Charge (o_id ord) (y_amount pay)) (\<lambda>(success, transactionID).
         and_then (pay_settle pg_queries ord success transactionID) (\<lambda>res. ret (True, res))) w1 = (r, w')"
      by (cases q) (auto simp: pay_steps_def and_then_def ret_def fail_def split: if_splits)
    from pg_pay.lock_Inr [OF assms(1) q [unfolded op]] assms(2) have
      live1: "live w1" "tables w1 = tables w" "locks w1 = [OrderLock oid, PaymentLock (y_id pay)]"
      and row: "row_by o_id oid (t_orders (tables w)) = Some ord" "row_by y_order_id oid (t_payments (tables w)) = Some pay"
      by (auto simp: found_def)
    obtain x w2 where ch: "Charge (o_id ord) (y_amount pay) w1 = (x, w2)" by fastforce
    from Charge_simps [OF ch] obtain success txid where x: "x = Inr (success, txid)"
      and w2: "tables w2 = tables w1" "tx w2 = tx w1" "locks w2 = locks w1" by blast
    obtain y w3 where s: "pay_settle pg_queries ord success txid w2 = (y, w3)" by fastforce
    from c ch x s have "w' = w3" by (auto simp: and_then_def ret_def split: sum.splits)
    moreover have "live w2" using w2 live1 by (simp add: live_def holds_def)
    ultimately obtain ls where "locks w' = locks w2 @ ls" "set ls \<subseteq> {OrderLock oid, PaymentLock (y_id pay)}"
      using pay_settle_locks [OF _ _ _ s, of oid pay] row w2 live1 by auto
    with w2 live1 have all: "locks w' = [OrderLock oid, PaymentLock (y_id pay)] @ ls"
      and "set ls \<subseteq> {} \<union> set [OrderLock oid, PaymentLock (y_id pay)]" by simp_all
    then show ?thesis using ascending_held [of ls "{} \<union> set [OrderLock oid, PaymentLock (y_id pay)]"]
      unfolding all ascending_append by simp
  qed
qed

lemma Pay_locks:
  assumes "idle w" and r: "Pay uid oid w = (r, w')"
  shows "locks w' = locks w \<or> ascending {} (locks w')"
proof (cases "BeginTx w")
  case (Pair b w0)
  show ?thesis
  proof (cases b)
    case (Inl e)
    with Pair r BeginTx_locks [of w e w0] show ?thesis by (auto simp: Pay_def and_then_def)
  next
    case (Inr x)
    with Pair live_begin [OF _ assms(1), of w0] have w0: "live w0" "locks w0 = []" by auto
    obtain q w1 where f: "pay_steps pg_queries uid oid w0 = (q, w1)" by fastforce
    obtain c w2 where c: "CommitTx w1 = (c, w2)" by fastforce
    from Pair Inr f c r have "w' = RollbackTx w1 \<or> w' = w2"
      by (auto simp: Pay_def and_then_def Let_def split: sum.splits prod.splits if_splits)
    with pay_steps_locks [OF w0 f] CommitTx_locks [OF c] show ?thesis by auto
  qed
qed

lemma order_locks:
  assumes "idle w"
  shows "CreateOrder uid items w = (r1, w1) \<Longrightarrow> locks w1 = locks w \<or> ascending {} (locks w1)"
    "CancelOrder uid oid w = (r2, w2) \<Longrightarrow> locks w2 = locks w \<or> ascending {} (locks w2)"
  unfolding CreateOrder_run CancelOrder_run
  by (rule WithinTx_locks [OF assms], rule create_order_locks cancel_order_locks, assumption+)+

section \<open>Transactions that wait for locks\<close>

text \<open>
  Concurrent transactions, each with the locks it holds and those it is still going to ask for. A
  transaction acquires the next lock unless another one holds it; when it has nothing left to ask
  for it ends and releases its locks.
\<close>

record txn =
  held :: "row_lock list"
  todo :: "row_lock list"

inductive lock_step :: "txn list \<Rightarrow> txn list \<Rightarrow> bool" where
  acquire: "i < length ts \<Longrightarrow> todo (ts ! i) = l # ls \<Longrightarrow>
    (\<And>j. j < length ts \<Longrightarrow> j \<noteq> i \<Longrightarrow> l \<notin> set (held (ts ! j))) \<Longrightarrow>
    lock_step ts (ts[i := \<lparr>held = l # held (ts ! i), todo = ls\<rparr>])"
| finish: "i < length ts \<Longrightarrow> todo (ts ! i) = [] \<Longrightarrow> held (ts ! i) \<noteq> [] \<Longrightarrow>
    lock_step ts (ts[i := \<lparr>held = [], todo = []\<rparr>])"

inductive_cases lock_stepE: "lock_step ts ts'"

definition starting :: "row_lock list \<Rightarrow> txn" where
  "starting ls = \<lparr>held = [], todo = ls\<rparr>"

definition finished :: "txn list \<Rightarrow> bool" where
  "finished ts \<longleftrightarrow> (\<forall>t \<in> set ts. held t = [] \<and> todo t = [])"

text \<open>The requests of every transaction ascend above what it holds, and no lock is held twice.\<close>

definition orderly :: "txn list \<Rightarrow> bool" where
  "orderly ts \<longleftrightarrow>
     (\<forall>i < length ts. ascending (set (held (ts ! i))) (todo (ts ! i))) \<and>
     (\<forall>i < length ts. \<forall>j < length ts. i \<noteq> j \<longrightarrow> set (held (ts ! i)) \<inter> set (held (ts ! j)) = {})"

lemma orderly_step: "lock_step ts ts' \<Longrightarrow> orderly ts \<Longrightarrow> orderly ts'"
  by (erule lock_stepE) (auto simp: orderly_def nth_list_update)

lemma orderly_start: "\<forall>ls \<in> set requests. ascending {} ls \<Longrightarrow> orderly (map starting requests)"
  by (auto simp: orderly_def starting_def)

text \<open>
  The transaction that waits for the greatest lock would wait for a transaction that waits for an
  even greater one.
\<close>

lemma orderly_progress:
  assumes "orderly ts" and "\<not> finished ts"
  shows "\<exists>ts'. lock_step ts ts'"
proof (rule ccontr)
  assume stuck: "\<not> (\<exists>ts'. lock_step ts ts')"
  let ?n = "length ts"
  have busy: "todo (ts ! i) \<noteq> []" if "i < ?n" "held (ts ! i) \<noteq> []" for i
    using stuck finish that by blast
  let ?wait = "{i. i < ?n \<and> todo (ts ! i) \<noteq> []}"
  let ?want = "\<lambda>i. hd (todo (ts ! i))"
  have "?wait \<noteq> {}"
    using assms(2) busy by (fastforce simp: finished_def in_set_conv_nth)
  moreover have "finite (?want ` ?wait)" by simp
  ultimately obtain i where i: "i < ?n" "todo (ts ! i) \<noteq> []"
    and greatest: "\<And>j. j \<in> ?wait \<Longrightarrow> ?want j \<le> ?want i"
    using Max_in [of "?want ` ?wait"] Max_ge [of "?want ` ?wait"] by fastforce
  from i(2) have "todo (ts ! i) = ?want i # tl (todo (ts ! i))" by simp
  with stuck acquire [OF i(1)] obtain j where j: "j < ?n" "j \<noteq> i" "?want i \<in> set (held (ts ! j))" by blast
  then have "held (ts ! j) \<noteq> []" by force
  with busy j(1) have todo: "todo (ts ! j) \<noteq> []" by blast
  then have wants: "todo (ts ! j) = ?want j # tl (todo (ts ! j))" by simp
  with assms(1) j(1) have "?want j \<in> set (held (ts ! j)) \<or> (\<forall>h \<in> set (held (ts ! j)). h < ?want j)"
    unfolding orderly_def by (metis ascending.simps(2))
  moreover have "?want j \<le> ?want i" using greatest j(1) todo by simp
  ultimately have own: "?want j \<in> set (held (ts ! j))" using j(3) by auto
  from stuck acquire [OF j(1) wants] obtain k where "k < ?n" "k \<noteq> j" "?want j \<in> set (held (ts ! k))" by blast
  with own j(1) assms(1) show False by (auto simp: orderly_def)
qed

text \<open>Every step uses up a request or ends a transaction, so the steps come to an end.\<close>

definition work :: "txn list \<Rightarrow> nat" where
  "work ts = sum_list (map (\<lambda>t. 2 * length (todo t) + (if held t = [] then 0 else 1)) ts)"

lemma sum_list_replace:
  "i < length ts \<Longrightarrow> (f t :: nat) < f (ts ! i) \<Longrightarrow> sum_list (map f (ts[i := t])) < sum_list (map f ts)"
  by (induction ts arbitrary: i) (auto simp: less_Suc_eq_0_disj split: nat.splits)

lemma work_step: "lock_step ts ts' \<Longrightarrow> work ts' < work ts"
  unfolding work_def by (erule lock_stepE) (auto intro!: sum_list_replace)

section \<open>Properties\<close>

text \<open>
  Placing, cancelling and paying an order take their row locks in ascending order (orders,
  then payments, then products by UUID), on every path: success, refusal, and the failure of any
  statement.
\<close>

theorem transactions_lock_in_order:
  assumes "idle w" and "locks w = []"
  shows "ascending {} (locks (snd (CreateOrder uid items w))) \<and>
    ascending {} (locks (snd (CancelOrder uid oid w))) \<and>
    ascending {} (locks (snd (Pay uid oid w)))"
  using order_locks [OF assms(1), OF prod.collapse [symmetric]] Pay_locks [OF assms(1) prod.collapse [symmetric]]
    assms(2) by (metis ascending.simps(1))

theorem transactions_lock_in_order_witness:
  "locks (snd (sample_order all_works)) =
     [ProductLock 10, ProductLock 20, ProductLock 20, ProductLock 10, ProductLock 20] \<and>
   ascending {} (locks (snd (sample_order all_works))) \<and>
   ascending {} (locks (snd (Pay 1 100 (sample_placed all_works 7))))"
proof -
  have "locks (sample_world all_works 0 sample_tables) = []" "locks (sample_placed all_works 7) = []"
    by (simp_all add: sample_world_def sample_placed_def)
  moreover have "locks (snd (sample_order all_works)) =
     [ProductLock 10, ProductLock 20, ProductLock 20, ProductLock 10, ProductLock 20]" by code_simp
  ultimately show ?thesis
    using transactions_lock_in_order [OF sample_idle(1) [of all_works 0], of 1 sample_items 100]
      transactions_lock_in_order [OF sample_idle(2) [of all_works 7], of 1 sample_items 100]
    by (simp add: sample_order_def)
qed

text \<open>The lock requests of one run of one of the three transactions.\<close>

definition service_locks :: "row_lock list \<Rightarrow> bool" where
  "service_locks ls \<longleftrightarrow>
     (\<exists>w uid oid items. idle w \<and> locks w = [] \<and>
        (ls = locks (snd (CreateOrder uid items w)) \<or> ls = locks (snd (CancelOrder uid oid w)) \<or>
         ls = locks (snd (Pay uid oid w))))"

lemma service_locks_ascending: "service_locks ls \<Longrightarrow> ascending {} ls"
  unfolding service_locks_def
  using order_locks [OF _ prod.collapse [symmetric]] Pay_locks [OF _ prod.collapse [symmetric]]
  by (elim exE conjE disjE) (metis ascending.simps(1))+

text \<open>
  C3. No deadlock: however the lock requests of any number of concurrent order placements,
  cancellations and payments interleave, some transaction can always go on until all have finished,
  and they finish after boundedly many steps.
\<close>

theorem transactions_never_deadlock:
  assumes "\<forall>ls \<in> set requests. service_locks ls"
    and "(lock_step ^^ n) (map starting requests) ts"
  shows "(finished ts \<or> (\<exists>ts'. lock_step ts ts')) \<and> n + work ts \<le> work (map starting requests)"
proof -
  have "orderly ts \<and> n + work ts \<le> work (map starting requests)"
    using assms(2)
  proof (induction n arbitrary: ts)
    case 0
    with assms(1) service_locks_ascending show ?case by (auto intro!: orderly_start)
  next
    case (Suc n)
    then obtain ts0 where "(lock_step ^^ n) (map starting requests) ts0" "lock_step ts0 ts" by auto
    with Suc.IH work_step orderly_step show ?case by fastforce
  qed
  then show ?thesis using orderly_progress by blast
qed

definition sample_requests :: "row_lock list list" where
  "sample_requests = [locks (snd (sample_order all_works)),
     locks (snd (CreateOrder 1 (rev sample_items) (sample_world all_works 0 sample_tables)))]"

theorem transactions_never_deadlock_witness:
  "\<exists>ts. lock_step (map starting sample_requests) ts \<and> (\<exists>ts'. lock_step ts ts') \<and>
     Suc (work ts) \<le> work (map starting sample_requests)"
proof -
  let ?start = "map starting sample_requests"
  have "idle (sample_world all_works 0 sample_tables)" "locks (sample_world all_works 0 sample_tables) = []"
    by (rule sample_idle_tables) (simp add: sample_world_def)
  then have ok: "\<forall>ls \<in> set sample_requests. service_locks ls"
    by (auto simp: sample_requests_def service_locks_def sample_order_def)
  have requests: "hd sample_requests = [ProductLock 10, ProductLock 20, ProductLock 20, ProductLock 10, ProductLock 20]"
    "length sample_requests = 2" by code_simp+
  then have nonempty: "sample_requests \<noteq> []" by force
  with requests have first: "todo (?start ! 0) = ProductLock 10 # [ProductLock 20, ProductLock 20, ProductLock 10, ProductLock 20]"
    using hd_conv_nth [of sample_requests] nonempty by (simp add: starting_def)
  define ts where "ts = ?start[0 := \<lparr>held = ProductLock 10 # held (?start ! 0),
    todo = [ProductLock 20, ProductLock 20, ProductLock 10, ProductLock 20]\<rparr>]"
  have step: "lock_step ?start ts"
    unfolding ts_def by (rule acquire [OF _ first]) (use requests(2) in \<open>auto simp: starting_def\<close>)
  then have "(lock_step ^^ 1) ?start ts" by auto
  moreover have "held (ts ! 0) \<noteq> []" "0 < length ts" using requests(2) by (simp_all add: ts_def)
  then have "\<not> finished ts" unfolding finished_def using nth_mem by blast
  ultimately show ?thesis
    using transactions_never_deadlock [OF ok, of 1 ts] step by auto
qed

end
