(* ===== verification/Idempotency.thy ===== *)
theory Idempotency
  imports Sample
begin

text \<open>
  The idempotency keys: the SQL statements (\<open>idempotency/sqlc/idempotency.sql.go\<close>), the repository
  (\<open>idempotency_repository.go\<close>) and the service (\<open>idempotency_service.go\<close>) that claims a key before an
  order is placed and stores the response after. No transaction spans these statements: each takes
  effect on its own. The service is written against the repository interface, a record of
  operations whose contract is the locale \<open>key_store\<close>.
\<close>

section \<open>Model structs\<close>

record IdempotencyKey =
  Key_Key :: string
  Key_UserID :: uuid
  Key_RequestHash :: string
  Key_Response :: "string option"
  Key_CreatedAt :: time
  Key_UpdatedAt :: time

datatype IdempotencyKeyStatus = New | Replayed | Mismatch | InProgress

record IdempotencyResult =
  Result_Status :: IdempotencyKeyStatus
  Result_Response :: "string option"

section \<open>The SQL statements\<close>

text \<open>\<open>INSERT ... ON CONFLICT (key) DO NOTHING RETURNING\<close>: no row comes back when the key is taken.\<close>

definition new_key :: "string \<Rightarrow> uuid \<Rightarrow> string \<Rightarrow> time \<Rightarrow> key_row" where
  "new_key key user_id request_hash now =
     \<lparr>k_key = key, k_user_id = user_id, k_request_hash = request_hash, k_response = None,
      k_created_at = now, k_updated_at = now\<rparr>"

definition createIdempotency :: "string \<Rightarrow> uuid \<Rightarrow> string \<Rightarrow> key_row sql" where
  "createIdempotency key user_id request_hash now t =
     (let r = new_key key user_id request_hash now in
      if key \<in> k_key ` set (t_keys t) then Inl ErrNoRows
      else if user_id \<notin> u_id ` set (t_users t) then Inl (PgError ForeignKeyViolation)
      else Inr (r, t\<lparr>t_keys := t_keys t @ [r]\<rparr>, []))"

definition sql_CreateIdempotency :: "string \<Rightarrow> uuid \<Rightarrow> string \<Rightarrow> key_row db_op" where
  "sql_CreateIdempotency key user_id request_hash = exec_sql (createIdempotency key user_id request_hash)"

definition getIdempotencyByUserID :: "string \<Rightarrow> uuid \<Rightarrow> tables \<Rightarrow> key_row list" where
  "getIdempotencyByUserID key user_id t = filter (\<lambda>r. k_key r = key \<and> k_user_id r = user_id) (t_keys t)"

definition sql_GetIdempotencyByUserID :: "string \<Rightarrow> uuid \<Rightarrow> key_row db_op" where
  "sql_GetIdempotencyByUserID key user_id = query_rows (getIdempotencyByUserID key user_id) one_row"

text \<open>The updates. A response that is no JSON (\<open>None\<close>) cannot be stored in a \<open>JSONB\<close> column.\<close>

definition update_keys :: "(key_row \<Rightarrow> bool) \<Rightarrow> (time \<Rightarrow> key_row \<Rightarrow> key_row) \<Rightarrow> key_row sql" where
  "update_keys P f =
     returning_one (update_table (\<lambda>r. []) t_keys (\<lambda>rs t. t\<lparr>t_keys := rs\<rparr>) P (\<lambda>now r. Inr (f now r)))"

definition reclaimStaleIdempotency :: "string \<Rightarrow> string \<Rightarrow> uuid \<Rightarrow> time \<Rightarrow> key_row sql" where
  "reclaimStaleIdempotency request_hash key user_id created_at =
     update_keys
       (\<lambda>r. k_key r = key \<and> k_user_id r = user_id \<and> k_response r = None \<and> k_created_at r < created_at)
       (\<lambda>now r. r\<lparr>k_request_hash := request_hash, k_created_at := now, k_updated_at := now\<rparr>)"

definition sql_ReclaimStaleIdempotency :: "string \<Rightarrow> string \<Rightarrow> uuid \<Rightarrow> time \<Rightarrow> key_row db_op" where
  "sql_ReclaimStaleIdempotency request_hash key user_id created_at =
     exec_sql (reclaimStaleIdempotency request_hash key user_id created_at)"

definition updateIdempotency :: "string option \<Rightarrow> string \<Rightarrow> uuid \<Rightarrow> key_row sql" where
  "updateIdempotency response key user_id now t =
     (case response of
        None \<Rightarrow> Inl (PgError InvalidTextRepresentation)
      | Some json \<Rightarrow>
          update_keys (\<lambda>r. k_key r = key \<and> k_user_id r = user_id)
            (\<lambda>now r. r\<lparr>k_response := Some json, k_updated_at := now\<rparr>) now t)"

definition sql_UpdateIdempotency :: "string \<Rightarrow> string \<Rightarrow> uuid \<Rightarrow> key_row db_op" where
  "sql_UpdateIdempotency response key user_id w =
     exec_sql (updateIdempotency (env_jsonb (env w) response) key user_id) w"

section \<open>The repository\<close>

definition key_not_found :: "idempotency_err \<Rightarrow> go_error \<Rightarrow> go_error" where
  "key_not_found target err = (if errors_Is err ErrNoRows then IdempotencyErr target else err)"

definition keyFromSqlc :: "uuid \<Rightarrow> string \<Rightarrow> key_row \<Rightarrow> IdempotencyKey" where
  "keyFromSqlc userID requestHash r = \<lparr>Key_Key = k_key r, Key_UserID = userID,
     Key_RequestHash = requestHash, Key_Response = k_response r,
     Key_CreatedAt = k_created_at r, Key_UpdatedAt = k_updated_at r\<rparr>"

definition repo_CreateIdempotency :: "string \<Rightarrow> string \<Rightarrow> uuid \<Rightarrow> IdempotencyKey db_op" where
  "repo_CreateIdempotency key requestHash userID =
     map_ok (keyFromSqlc userID requestHash)
       (map_err (key_not_found ErrIdempotencyKeyExists) (sql_CreateIdempotency key userID requestHash))"

definition repo_GetIdempotencyByUserID :: "string \<Rightarrow> uuid \<Rightarrow> IdempotencyKey db_op" where
  "repo_GetIdempotencyByUserID key userID =
     map_ok (\<lambda>r. keyFromSqlc userID (k_request_hash r) r)
       (map_err (key_not_found ErrNoIdempotencyFound) (sql_GetIdempotencyByUserID key userID))"

text \<open>\<open>time.Now().Add(-staleAfter)\<close> reads the application's clock.\<close>

definition repo_ReclaimStaleIdempotency :: "string \<Rightarrow> string \<Rightarrow> uuid \<Rightarrow> time \<Rightarrow> IdempotencyKey db_op" where
  "repo_ReclaimStaleIdempotency key requestHash userID staleAfter w =
     map_ok (keyFromSqlc userID requestHash)
       (map_err (key_not_found ErrNoIdempotencyFound)
         (sql_ReclaimStaleIdempotency requestHash key userID
           (env_app_clock (env w) (stmt_no w) - staleAfter))) w"

definition repo_UpdateIdempotency :: "string \<Rightarrow> uuid \<Rightarrow> string \<Rightarrow> IdempotencyKey db_op" where
  "repo_UpdateIdempotency key userID response =
     map_ok (\<lambda>r. keyFromSqlc userID (k_request_hash r) r)
       (map_err (key_not_found ErrNoIdempotencyFound) (sql_UpdateIdempotency response key userID))"

record 's key_repository =
  kr_Create :: "string \<Rightarrow> string \<Rightarrow> uuid \<Rightarrow> ('s, go_error, IdempotencyKey) op"
  kr_Get :: "string \<Rightarrow> uuid \<Rightarrow> ('s, go_error, IdempotencyKey) op"
  kr_Reclaim :: "string \<Rightarrow> string \<Rightarrow> uuid \<Rightarrow> time \<Rightarrow> ('s, go_error, IdempotencyKey) op"
  kr_Update :: "string \<Rightarrow> uuid \<Rightarrow> string \<Rightarrow> ('s, go_error, IdempotencyKey) op"

definition idempotency_repository :: "world key_repository" where
  "idempotency_repository = \<lparr>
     kr_Create = repo_CreateIdempotency,
     kr_Get = repo_GetIdempotencyByUserID,
     kr_Reclaim = repo_ReclaimStaleIdempotency,
     kr_Update = repo_UpdateIdempotency\<rparr>"

section \<open>The service\<close>

text \<open>\<open>30 * time.Second\<close>.\<close>

definition staleClaimTimeout :: time where
  "staleClaimTimeout = 30 * 1000000"

definition svc_CheckAndClaim ::
  "'s key_repository \<Rightarrow> string \<Rightarrow> string \<Rightarrow> uuid \<Rightarrow> ('s, go_error, IdempotencyResult) op" where
  "svc_CheckAndClaim kr key requestHash userID s =
     (case kr_Create kr key requestHash userID s of
        (Inr _, s1) \<Rightarrow> (Inr \<lparr>Result_Status = New, Result_Response = None\<rparr>, s1)
      | (Inl err, s1) \<Rightarrow>
          if errors_Is err (IdempotencyErr ErrIdempotencyKeyExists) then
            and_then (kr_Get kr key userID) (\<lambda>existing.
              if requestHash \<noteq> Key_RequestHash existing
              then ret \<lparr>Result_Status = Mismatch, Result_Response = None\<rparr>
              else if Key_Response existing = None \<or> Key_Response existing = Some [] then
                (\<lambda>s2. case kr_Reclaim kr key requestHash userID staleClaimTimeout s2 of
                   (Inl reclaimErr, s3) \<Rightarrow>
                     if errors_Is reclaimErr (IdempotencyErr ErrNoIdempotencyFound)
                     then (Inr \<lparr>Result_Status = InProgress, Result_Response = None\<rparr>, s3)
                     else (Inl reclaimErr, s3)
                 | (Inr _, s3) \<Rightarrow> (Inr \<lparr>Result_Status = New, Result_Response = None\<rparr>, s3))
              else ret \<lparr>Result_Status = Replayed, Result_Response = Key_Response existing\<rparr>) s1
          else (Inl err, s1))"

definition svc_SaveResponse ::
  "'s key_repository \<Rightarrow> string \<Rightarrow> uuid \<Rightarrow> string \<Rightarrow> ('s, go_error, unit) op" where
  "svc_SaveResponse kr key userID response =
     and_then (kr_Update kr key userID response) (\<lambda>_. ret ())"

definition CheckAndClaim :: "string \<Rightarrow> string \<Rightarrow> uuid \<Rightarrow> IdempotencyResult db_op" where
  "CheckAndClaim = svc_CheckAndClaim idempotency_repository"

definition SaveResponse :: "string \<Rightarrow> uuid \<Rightarrow> string \<Rightarrow> unit db_op" where
  "SaveResponse = svc_SaveResponse idempotency_repository"

section \<open>The contract\<close>

text \<open>
  \<open>look s k\<close> is the row of the key \<open>k\<close>. Whatever happens to the statement, it has no effect or its
  whole effect, and only a failure of the connection leaves open which.
\<close>

definition claimable :: "uuid \<Rightarrow> time \<Rightarrow> key_row option \<Rightarrow> bool" where
  "claimable uid before r \<longleftrightarrow>
     (case r of None \<Rightarrow> False
      | Some row \<Rightarrow> k_user_id row = uid \<and> k_response row = None \<and> k_created_at row < before)"

definition reclaimed :: "string \<Rightarrow> time \<Rightarrow> key_row option \<Rightarrow> key_row option" where
  "reclaimed hash now r =
     map_option (\<lambda>row. row\<lparr>k_request_hash := hash, k_created_at := now, k_updated_at := now\<rparr>) r"

definition answered :: "string \<Rightarrow> time \<Rightarrow> key_row option \<Rightarrow> key_row option" where
  "answered json now r = map_option (\<lambda>row. row\<lparr>k_response := Some json, k_updated_at := now\<rparr>) r"

definition owned :: "uuid \<Rightarrow> key_row option \<Rightarrow> bool" where
  "owned uid r \<longleftrightarrow> (case r of None \<Rightarrow> False | Some row \<Rightarrow> k_user_id row = uid)"

text \<open>\<open>clock s n\<close> is what the application's clock shows \<open>n\<close> statements after \<open>s\<close>.\<close>

locale key_store =
  fixes kr :: "'s key_repository"
    and look :: "'s \<Rightarrow> string \<Rightarrow> key_row option"
    and clock :: "'s \<Rightarrow> nat \<Rightarrow> time"
    and jsonb :: "'s \<Rightarrow> string \<Rightarrow> string option"
    and ok :: "'s \<Rightarrow> bool"
  assumes create: "ok s \<Longrightarrow> kr_Create kr key hash uid s = (r, s') \<Longrightarrow>
      ok s' \<and> clock s' = (\<lambda>n. clock s (Suc n)) \<and> jsonb s' = jsonb s \<and>
      (look s' = look s \<and> (r = Inl (IdempotencyErr ErrIdempotencyKeyExists) \<and> look s key \<noteq> None \<or>
         (\<exists>e. r = Inl e \<and> \<not> errors_Is e (IdempotencyErr ErrIdempotencyKeyExists))) \<or>
       look s key = None \<and> (\<exists>now. look s' = (look s)(key \<mapsto> new_key key uid hash now)) \<and>
         (r = Inl ErrConn \<or> \<not> isl r))"
    and get: "ok s \<Longrightarrow> kr_Get kr key uid s = (r, s') \<Longrightarrow>
      ok s' \<and> clock s' = (\<lambda>n. clock s (Suc n)) \<and> jsonb s' = jsonb s \<and> look s' = look s \<and>
      (r = Inl ErrConn \<or>
       r = Inl (IdempotencyErr ErrNoIdempotencyFound) \<and> \<not> owned uid (look s key) \<or>
       (\<exists>row. r = Inr (keyFromSqlc uid (k_request_hash row) row) \<and> look s key = Some row \<and> owned uid (Some row)))"
    and reclaim: "ok s \<Longrightarrow> kr_Reclaim kr key hash uid after s = (r, s') \<Longrightarrow>
      ok s' \<and> clock s' = (\<lambda>n. clock s (Suc n)) \<and> jsonb s' = jsonb s \<and>
      (look s' = look s \<and> (r = Inl ErrConn \<or>
         r = Inl (IdempotencyErr ErrNoIdempotencyFound) \<and> \<not> claimable uid (clock s 0 - after) (look s key)) \<or>
       claimable uid (clock s 0 - after) (look s key) \<and>
         (\<exists>now. look s' = (look s)(key := reclaimed hash now (look s key))) \<and> (r = Inl ErrConn \<or> \<not> isl r))"
    and update: "ok s \<Longrightarrow> kr_Update kr key uid resp s = (r, s') \<Longrightarrow>
      ok s' \<and> clock s' = (\<lambda>n. clock s (Suc n)) \<and> jsonb s' = jsonb s \<and>
      (look s' = look s \<and> isl r \<or>
       owned uid (look s key) \<and>
       (\<exists>json now. jsonb s resp = Some json \<and> look s' = (look s)(key := answered json now (look s key))) \<and>
         (r = Inl ErrConn \<or> \<not> isl r))"
begin

lemma check_and_claim:
  assumes "ok s" and r: "svc_CheckAndClaim kr key hash uid s = (r, s')"
  shows "(look s' = look s \<and> (isl r \<or> (\<exists>row. look s key = Some row \<and> k_user_id row = uid \<and>
      (r = Inr \<lparr>Result_Status = Mismatch, Result_Response = None\<rparr> \<and> k_request_hash row \<noteq> hash \<or>
       k_request_hash row = hash \<and>
       (r = Inr \<lparr>Result_Status = InProgress, Result_Response = None\<rparr> \<and>
          (k_response row = None \<or> k_response row = Some []) \<and>
          \<not> claimable uid (clock s 2 - staleClaimTimeout) (look s key) \<or>
        r = Inr \<lparr>Result_Status = Replayed, Result_Response = k_response row\<rparr> \<and>
          k_response row \<noteq> None \<and> k_response row \<noteq> Some []))))) \<or>
    (look s key = None \<and> (\<exists>now. look s' = (look s)(key \<mapsto> new_key key uid hash now)) \<and>
      (r = Inl ErrConn \<or> r = Inr \<lparr>Result_Status = New, Result_Response = None\<rparr>)) \<or>
    (\<exists>row now. look s key = Some row \<and> k_request_hash row = hash \<and>
      claimable uid (clock s 2 - staleClaimTimeout) (look s key) \<and>
      look s' = (look s)(key := reclaimed hash now (look s key)) \<and>
      (r = Inl ErrConn \<or> r = Inr \<lparr>Result_Status = New, Result_Response = None\<rparr>))"
proof -
  obtain c s1 where c: "kr_Create kr key hash uid s = (c, s1)" by fastforce
  note create = create [OF assms(1) c]
  show ?thesis
  proof (cases "\<exists>e. c = Inl e \<and> errors_Is e (IdempotencyErr ErrIdempotencyKeyExists)")
    case False
    with create r c show ?thesis by (cases c) (auto simp: svc_CheckAndClaim_def)
  next
    case True
    then obtain e where e: "c = Inl e" "errors_Is e (IdempotencyErr ErrIdempotencyKeyExists)" by blast
    with create have s1: "ok s1" "look s1 = look s" "clock s1 = (\<lambda>n. clock s (Suc n))" by auto
    obtain g s2 where g: "kr_Get kr key uid s1 = (g, s2)" by fastforce
    from get [OF s1(1) g] s1 have
      s2: "ok s2" "look s2 = look s" "clock s2 0 = clock s 2"
      and got: "isl g \<or> (\<exists>row. g = Inr (keyFromSqlc uid (k_request_hash row) row) \<and>
        look s key = Some row \<and> k_user_id row = uid)"
      by (auto simp: numeral_2_eq_2 owned_def)
    show ?thesis
    proof (cases g)
      case (Inl d)
      with r c e g s2 show ?thesis by (auto simp: svc_CheckAndClaim_def and_then_def)
    next
      case (Inr x)
      with got obtain row where row: "g = Inr (keyFromSqlc uid (k_request_hash row) row)"
        "look s key = Some row" "k_user_id row = uid" by auto
      obtain q s3 where q: "kr_Reclaim kr key hash uid staleClaimTimeout s2 = (q, s3)" by fastforce
      note reclaim = reclaim [OF s2(1) q]
      consider "k_request_hash row \<noteq> hash"
        | "k_request_hash row = hash" "k_response row \<noteq> None" "k_response row \<noteq> Some []"
        | "k_request_hash row = hash" "k_response row = None \<or> k_response row = Some []"
        by metis
      then show ?thesis
      proof cases
        case 3
        then have "r = (case q of Inl e \<Rightarrow> if errors_Is e (IdempotencyErr ErrNoIdempotencyFound)
              then Inr \<lparr>Result_Status = InProgress, Result_Response = None\<rparr> else Inl e
            | Inr _ \<Rightarrow> Inr \<lparr>Result_Status = New, Result_Response = None\<rparr>) \<and> s' = s3"
          using r c e g q row
          by (auto simp: svc_CheckAndClaim_def and_then_def keyFromSqlc_def split: sum.splits)
        with reclaim s2 row 3 show ?thesis by (cases q) auto
      qed (use r c e g row s2 in \<open>auto simp: svc_CheckAndClaim_def and_then_def keyFromSqlc_def ret_def\<close>)
    qed
  qed
qed

lemma save_response:
  assumes "ok s" and "svc_SaveResponse kr key uid resp s = (r, s')"
  shows "ok s' \<and> (look s' = look s \<and> isl r \<or>
      owned uid (look s key) \<and>
      (\<exists>json now. jsonb s resp = Some json \<and> look s' = (look s)(key := answered json now (look s key))) \<and>
        (r = Inl ErrConn \<or> \<not> isl r))"
proof -
  obtain u s1 where u: "kr_Update kr key uid resp s = (u, s1)" by fastforce
  with assms(2) have "s' = s1" "isl r = isl u" "r = Inl ErrConn \<longleftrightarrow> u = Inl ErrConn"
    by (auto simp: svc_SaveResponse_def and_then_def ret_def split: sum.splits)
  with update [OF assms(1) u] show ?thesis by auto
qed

end

section \<open>The repository meets the contract\<close>

lemma keeps_createIdempotency [keeps_intros]: "sql_keeps schema_ok (createIdempotency key uid hash)"
  unfolding sql_keeps_def createIdempotency_def Let_def new_key_def
  by (auto simp: schema_ok_def split: if_splits)

lemma keeps_update_keys:
  "(\<And>now r. k_key (f now r) = k_key r \<and> k_user_id (f now r) = k_user_id r) \<Longrightarrow>
   sql_keeps schema_ok (update_keys P f)"
  unfolding sql_keeps_def update_keys_def
  by (auto simp: op_simps intro!: schema_ok_update_keys)

lemma keeps_updateIdempotency [keeps_intros]: "sql_keeps schema_ok (updateIdempotency resp key uid)"
proof -
  have "updateIdempotency resp key uid now t = Inr (a, t', ls) \<Longrightarrow> schema_ok t \<Longrightarrow> schema_ok t'" for now t a t' ls
    using keeps_update_keys [of "\<lambda>now r. r\<lparr>k_response := resp, k_updated_at := now\<rparr>"
        "\<lambda>r. k_key r = key \<and> k_user_id r = uid"]
    by (cases resp) (simp_all add: updateIdempotency_def sql_keeps_def, blast)
  then show ?thesis by (auto simp: sql_keeps_def)
qed

lemma keeps_reclaim [keeps_intros]: "sql_keeps schema_ok (reclaimStaleIdempotency hash key uid before)"
  unfolding reclaimStaleIdempotency_def by (rule keeps_update_keys) simp

definition key_look :: "tables \<Rightarrow> string \<Rightarrow> key_row option" where
  "key_look t key = row_by k_key key (t_keys t)"

lemma key_look_create:
  assumes "createIdempotency key uid hash now t = Inr (r, t', ls)"
  shows "key_look t key = None \<and> key_look t' = (key_look t)(key \<mapsto> new_key key uid hash now)"
proof -
  from assms have "key_look t key = None" "t' = t\<lparr>t_keys := t_keys t @ [new_key key uid hash now]\<rparr>"
    by (auto simp: createIdempotency_def Let_def key_look_def row_by_None split: if_splits)
  then show ?thesis
    by (auto simp: key_look_def row_by_append new_key_def fun_eq_iff split: option.splits)
qed

lemma key_look_update:
  assumes "schema_ok t" and "\<And>r. k_key (f now r) = k_key r"
    and u: "update_keys (\<lambda>r. k_key r = key \<and> C r) f now t = Inr (r, t', ls)"
  shows "\<exists>row. key_look t key = Some row \<and> C row \<and> key_look t' = (key_look t)(key \<mapsto> f now row)"
proof -
  have d: "distinct (map k_key (t_keys t))" using assms(1) by (simp add: schema_ok_def)
  from u obtain rs qs where
    u: "update_where (\<lambda>r. k_key r = key \<and> C r) (\<lambda>r. Inr (f now r)) (t_keys t) = Inr (rs, r # qs)"
    and t': "t' = t\<lparr>t_keys := rs\<rparr>"
    by (auto simp: update_keys_def op_simps)
  from update_by_key [OF d u] obtain row where
    row: "row_by k_key key (t_keys t) = Some row" "C row"
    and rs: "rs = map (\<lambda>x. if k_key x = key then f now row else x) (t_keys t)" by auto
  have "rs = map (\<lambda>x. if k_key x = key then f now x else x) (t_keys t)"
    unfolding rs by (rule map_at_key [OF d row(1) refl])
  then have "row_by k_key k rs = map_option (\<lambda>x. if k_key x = key then f now x else x) (row_by k_key k (t_keys t))" for k
    using row_by_update [of k_key "f now" k "\<lambda>x. k_key x = key"] assms(2) by simp
  then have "key_look t' k = ((key_look t)(key \<mapsto> f now row)) k" for k
    using row(1) by (cases "row_by k_key k (t_keys t)") (auto simp: key_look_def t' dest: row_by_SomeD)
  with row show ?thesis by (auto simp: key_look_def)
qed

lemma update_keys_Inl:
  assumes "schema_ok t" and u: "update_keys (\<lambda>r. k_key r = key \<and> C r) f now t = Inl e"
  shows "e = ErrNoRows \<and> (\<forall>row. key_look t key = Some row \<longrightarrow> \<not> C row)"
proof -
  have "update_where (\<lambda>r. k_key r = key \<and> C r) (\<lambda>r. Inr (f now r)) (t_keys t) =
      Inr (map (\<lambda>r. if k_key r = key \<and> C r then f now r else r) (t_keys t),
           map (f now) (filter (\<lambda>r. k_key r = key \<and> C r) (t_keys t)))"
    by (rule update_where_ok) simp
  with u show ?thesis
    by (auto simp: update_keys_def returning_one_def update_table_def one_row_def filter_empty_conv key_look_def
        split: list.splits dest: row_by_SomeD)
qed

lemma key_not_found_simps [simp]:
  "key_not_found target ErrConn = ErrConn" "key_not_found target ErrNoRows = IdempotencyErr target"
  "key_not_found target (PgError d) = PgError d"
  by (simp_all add: key_not_found_def)

lemma repo_create:
  assumes "idle w" and r: "repo_CreateIdempotency key hash uid w = (r, w')"
  shows "idle w' \<and> env w' = env w \<and> stmt_no w' = Suc (stmt_no w) \<and>
    (key_look (tables w') = key_look (tables w) \<and>
       (r = Inl (IdempotencyErr ErrIdempotencyKeyExists) \<and> key_look (tables w) key \<noteq> None \<or>
        (\<exists>e. r = Inl e \<and> \<not> errors_Is e (IdempotencyErr ErrIdempotencyKeyExists))) \<or>
     key_look (tables w) key = None \<and>
       (\<exists>now. key_look (tables w') = (key_look (tables w))(key \<mapsto> new_key key uid hash now)) \<and>
       (r = Inl ErrConn \<or> \<not> isl r))"
proof -
  from r obtain q where q: "exec_sql (createIdempotency key uid hash) w = (q, w')"
    and r: "r = (case q of Inl e \<Rightarrow> Inl (key_not_found ErrIdempotencyKeyExists e) | Inr a \<Rightarrow> Inr (keyFromSqlc uid hash a))"
    by (auto simp: repo_CreateIdempotency_def map_result sql_CreateIdempotency_def)
  have err: "e = ErrNoRows \<and> key_look (tables w) key \<noteq> None \<or> e = PgError ForeignKeyViolation"
    if "createIdempotency key uid hash now (tables w) = Inl e" for now e
    using that by (auto simp: createIdempotency_def Let_def key_look_def row_by_None split: if_splits)
  have frame: "idle w' \<and> env w' = env w \<and> stmt_no w' = Suc (stmt_no w)"
    using exec_sql_frame [OF q] idle_exec [OF assms(1) keeps_createIdempotency q] by simp
  from q show ?thesis
  proof (cases rule: exec_sql_elim)
    case none
    with frame r show ?thesis by simp
  next
    case (error now e)
    with frame r err [of now e] show ?thesis by auto
  next
    case (effect now a ls)
    with frame r key_look_create [OF effect(1)] show ?thesis by (auto intro!: exI [of _ now])
  qed
qed


lemma repo_get:
  assumes "idle w" and r: "repo_GetIdempotencyByUserID key uid w = (r, w')"
  shows "idle w' \<and> env w' = env w \<and> stmt_no w' = Suc (stmt_no w) \<and> tables w' = tables w \<and>
    (r = Inl ErrConn \<or>
     r = Inl (IdempotencyErr ErrNoIdempotencyFound) \<and> \<not> owned uid (key_look (tables w) key) \<or>
     (\<exists>row. r = Inr (keyFromSqlc uid (k_request_hash row) row) \<and> key_look (tables w) key = Some row \<and>
        owned uid (Some row)))"
proof -
  let ?ks = "t_keys (tables w)"
  have d: "distinct (map k_key ?ks)" using assms(1) by (simp add: idle_def schema_ok_def)
  from r obtain q where q: "query_rows (getIdempotencyByUserID key uid) one_row w = (q, w')"
    and r: "r = (case q of Inl e \<Rightarrow> Inl (key_not_found ErrNoIdempotencyFound e)
                 | Inr a \<Rightarrow> Inr (keyFromSqlc uid (k_request_hash a) a))"
    by (auto simp: repo_GetIdempotencyByUserID_def map_result sql_GetIdempotencyByUserID_def)
  have frame: "env w' = env w \<and> stmt_no w' = Suc (stmt_no w) \<and> tables w' = tables w \<and> idle w'"
    using query_rows_frame [OF q] query_rows_cases [OF q] assms(1) by (auto simp: idle_def)
  from query_rows_cases [OF q] consider "q = Inl ErrConn"
    | rs where "mset rs = mset (getIdempotencyByUserID key uid (tables w))" "q = one_row rs" by blast
  then show ?thesis
  proof cases
    case 1
    with frame r show ?thesis by simp
  next
    case 2
    show ?thesis
    proof (cases "key_look (tables w) key")
      case None
      then have "getIdempotencyByUserID key uid (tables w) = []"
        by (auto simp: getIdempotencyByUserID_def key_look_def row_by_None filter_empty_conv)
      with 2 frame r None show ?thesis by (simp add: one_row_def owned_def)
    next
      case (Some row)
      with filter_row_by_and [OF d, of key row "\<lambda>r. k_user_id r = uid"] have
        "getIdempotencyByUserID key uid (tables w) = (if k_user_id row = uid then [row] else [])"
        by (simp add: getIdempotencyByUserID_def key_look_def)
      with 2 frame r Some show ?thesis by (cases "k_user_id row = uid") (simp_all add: one_row_def owned_def)
    qed
  qed
qed

lemma repo_reclaim:
  assumes "idle w" and r: "repo_ReclaimStaleIdempotency key hash uid after w = (r, w')"
  defines "before \<equiv> env_app_clock (env w) (stmt_no w) - after"
  shows "idle w' \<and> env w' = env w \<and> stmt_no w' = Suc (stmt_no w) \<and>
    (key_look (tables w') = key_look (tables w) \<and> (r = Inl ErrConn \<or>
       r = Inl (IdempotencyErr ErrNoIdempotencyFound) \<and> \<not> claimable uid before (key_look (tables w) key)) \<or>
     claimable uid before (key_look (tables w) key) \<and>
       (\<exists>now. key_look (tables w') = (key_look (tables w))(key := reclaimed hash now (key_look (tables w) key))) \<and>
       (r = Inl ErrConn \<or> \<not> isl r))"
proof -
  let ?f = "reclaimStaleIdempotency hash key uid before"
  have ok: "schema_ok (tables w)" using assms(1) by (simp add: idle_def)
  from r obtain q where q: "exec_sql ?f w = (q, w')"
    and r: "r = (case q of Inl e \<Rightarrow> Inl (key_not_found ErrNoIdempotencyFound e) | Inr a \<Rightarrow> Inr (keyFromSqlc uid hash a))"
    by (auto simp: repo_ReclaimStaleIdempotency_def map_result sql_ReclaimStaleIdempotency_def before_def)
  have frame: "idle w' \<and> env w' = env w \<and> stmt_no w' = Suc (stmt_no w)"
    using exec_sql_frame [OF q] idle_exec [OF assms(1) keeps_reclaim q] by simp
  from q show ?thesis
  proof (cases rule: exec_sql_elim)
    case none
    with frame r show ?thesis by simp
  next
    case (error now e)
    from update_keys_Inl [OF ok error(2) [unfolded reclaimStaleIdempotency_def]] error frame r
    show ?thesis by (auto simp: claimable_def split: option.splits)
  next
    case (effect now a ls)
    from key_look_update [OF ok _ effect(1) [unfolded reclaimStaleIdempotency_def]] obtain row where
      "key_look (tables w) key = Some row" "k_user_id row = uid" "k_response row = None" "k_created_at row < before"
      "key_look (tables w') = (key_look (tables w))
         (key \<mapsto> row\<lparr>k_request_hash := hash, k_created_at := now, k_updated_at := now\<rparr>)"
      by auto
    with frame r effect(2) show ?thesis by (auto simp: claimable_def reclaimed_def intro!: exI [of _ now])
  qed
qed

lemma repo_update:
  assumes "idle w" and r: "repo_UpdateIdempotency key uid resp w = (r, w')"
  shows "idle w' \<and> env w' = env w \<and> stmt_no w' = Suc (stmt_no w) \<and>
    (key_look (tables w') = key_look (tables w) \<and> isl r \<or>
     owned uid (key_look (tables w) key) \<and>
     (\<exists>json now. env_jsonb (env w) resp = Some json \<and>
        key_look (tables w') = (key_look (tables w))(key := answered json now (key_look (tables w) key))) \<and>
     (r = Inl ErrConn \<or> \<not> isl r))"
proof -
  let ?f = "updateIdempotency (env_jsonb (env w) resp) key uid"
  have ok: "schema_ok (tables w)" using assms(1) by (simp add: idle_def)
  from r obtain q where q: "exec_sql ?f w = (q, w')"
    and r: "r = (case q of Inl e \<Rightarrow> Inl (key_not_found ErrNoIdempotencyFound e)
                 | Inr a \<Rightarrow> Inr (keyFromSqlc uid (k_request_hash a) a))"
    by (auto simp: repo_UpdateIdempotency_def map_result sql_UpdateIdempotency_def)
  have frame: "idle w' \<and> env w' = env w \<and> stmt_no w' = Suc (stmt_no w)"
    using exec_sql_frame [OF q] idle_exec [OF assms(1) keeps_updateIdempotency q] by simp
  from q show ?thesis
  proof (cases rule: exec_sql_elim)
    case none
    with frame r show ?thesis by simp
  next
    case (error now e)
    with frame r show ?thesis by simp
  next
    case (effect now a ls)
    from effect(1) obtain json where json: "env_jsonb (env w) resp = Some json"
      and u: "update_keys (\<lambda>r. k_key r = key \<and> k_user_id r = uid)
        (\<lambda>now r. r\<lparr>k_response := Some json, k_updated_at := now\<rparr>) now (tables w) = Inr (a, tables w', ls)"
      by (auto simp: updateIdempotency_def split: option.splits)
    from key_look_update [OF ok _ u] obtain row where
      "key_look (tables w) key = Some row" "k_user_id row = uid"
      "key_look (tables w') = (key_look (tables w))(key \<mapsto> row\<lparr>k_response := Some json, k_updated_at := now\<rparr>)"
      by auto
    with frame r effect(2) json show ?thesis by (auto simp: owned_def answered_def intro!: exI [of _ now])
  qed
qed

interpretation pg_keys: key_store idempotency_repository
  "\<lambda>w. key_look (tables w)" "\<lambda>w n. env_app_clock (env w) (stmt_no w + n)" "\<lambda>w. env_jsonb (env w)" idle
proof (unfold_locales, unfold idempotency_repository_def key_repository.select_convs)
  fix w w' :: world and key hash uid r
  assume "idle w" "repo_CreateIdempotency key hash uid w = (r, w')"
  from repo_create [OF this] show "idle w' \<and>
      (\<lambda>n. env_app_clock (env w') (stmt_no w' + n)) = (\<lambda>n. env_app_clock (env w) (stmt_no w + Suc n)) \<and>
      env_jsonb (env w') = env_jsonb (env w) \<and>
      (key_look (tables w') = key_look (tables w) \<and>
       (r = Inl (IdempotencyErr ErrIdempotencyKeyExists) \<and> key_look (tables w) key \<noteq> None \<or>
         (\<exists>e. r = Inl e \<and> \<not> errors_Is e (IdempotencyErr ErrIdempotencyKeyExists))) \<or>
       key_look (tables w) key = None \<and>
         (\<exists>now. key_look (tables w') = (key_look (tables w))(key \<mapsto> new_key key uid hash now)) \<and>
         (r = Inl ErrConn \<or> \<not> isl r))"
    by simp
next
  fix w w' :: world and key uid r
  assume "idle w" "repo_GetIdempotencyByUserID key uid w = (r, w')"
  from repo_get [OF this] show "idle w' \<and>
      (\<lambda>n. env_app_clock (env w') (stmt_no w' + n)) = (\<lambda>n. env_app_clock (env w) (stmt_no w + Suc n)) \<and>
      env_jsonb (env w') = env_jsonb (env w) \<and> key_look (tables w') = key_look (tables w) \<and>
      (r = Inl ErrConn \<or>
       r = Inl (IdempotencyErr ErrNoIdempotencyFound) \<and> \<not> owned uid (key_look (tables w) key) \<or>
       (\<exists>row. r = Inr (keyFromSqlc uid (k_request_hash row) row) \<and> key_look (tables w) key = Some row \<and>
          owned uid (Some row)))"
    by simp
qed (drule (1) repo_reclaim repo_update, simp)+

section \<open>Claiming a key\<close>

definition claim_new :: "IdempotencyResult" where
  "claim_new = \<lparr>Result_Status = New, Result_Response = None\<rparr>"

lemma CheckAndClaim_cases:
  assumes "idle w" and r: "CheckAndClaim key hash uid w = (r, w')"
  defines "t \<equiv> tables w" and "t' \<equiv> tables w'"
  defines "before \<equiv> env_app_clock (env w) (stmt_no w + 2) - staleClaimTimeout"
  shows "case key_look t key of
      None \<Rightarrow> isl r \<and> key_look t' = key_look t \<or>
        (r = Inl ErrConn \<or> r = Inr claim_new) \<and> (\<exists>now. key_look t' = (key_look t)(key \<mapsto> new_key key uid hash now))
    | Some row \<Rightarrow>
        if k_user_id row \<noteq> uid then isl r \<and> key_look t' = key_look t
        else if k_request_hash row \<noteq> hash then
          (isl r \<or> r = Inr \<lparr>Result_Status = Mismatch, Result_Response = None\<rparr>) \<and> key_look t' = key_look t
        else if k_response row \<noteq> None \<and> k_response row \<noteq> Some [] then
          (isl r \<or> r = Inr \<lparr>Result_Status = Replayed, Result_Response = k_response row\<rparr>) \<and> key_look t' = key_look t
        else if k_response row \<noteq> None \<or> \<not> k_created_at row < before then
          (isl r \<or> r = Inr \<lparr>Result_Status = InProgress, Result_Response = None\<rparr>) \<and> key_look t' = key_look t
        else isl r \<and> key_look t' = key_look t \<or>
          (r = Inl ErrConn \<or> r = Inr claim_new) \<and>
          (\<exists>now. key_look t' = (key_look t)(key \<mapsto> row\<lparr>k_request_hash := hash, k_created_at := now, k_updated_at := now\<rparr>))"
proof -
  note claim = pg_keys.check_and_claim [OF assms(1) r [unfolded CheckAndClaim_def]]
  show ?thesis
  proof (cases "key_look t key")
    case None
    with claim show ?thesis by (auto simp: t_def t'_def claim_new_def claimable_def)
  next
    case (Some row)
    with claim show ?thesis
      unfolding t_def t'_def before_def claim_new_def claimable_def reclaimed_def
      by (elim disjE exE conjE) auto
  qed
qed

lemma SaveResponse_cases:
  assumes "idle w" and "SaveResponse key uid resp w = (r, w')"
  shows "idle w' \<and> env w' = env w \<and>
    (key_look (tables w') = key_look (tables w) \<and> isl r \<or>
     (\<exists>row json now. key_look (tables w) key = Some row \<and> k_user_id row = uid \<and> env_jsonb (env w) resp = Some json \<and>
        key_look (tables w') = (key_look (tables w))(key \<mapsto> row\<lparr>k_response := Some json, k_updated_at := now\<rparr>) \<and>
        (r = Inl ErrConn \<or> r = Inr ())))"
proof -
  have "env w' = env w"
    using assms(2) repo_update [OF assms(1)]
    by (auto simp: SaveResponse_def svc_SaveResponse_def idempotency_repository_def and_then_def ret_def
        split: prod.splits sum.splits)
  with pg_keys.save_response [OF assms(1) assms(2) [unfolded SaveResponse_def]] show ?thesis
    by (cases r) (auto simp: owned_def answered_def split: option.splits)
qed

lemma repo_frames:
  "idle w \<Longrightarrow> repo_CreateIdempotency key hash uid w = (r, w') \<Longrightarrow> idle w' \<and> env w' = env w"
  "idle w \<Longrightarrow> repo_GetIdempotencyByUserID key uid w = (r2, w') \<Longrightarrow> idle w' \<and> env w' = env w"
  "idle w \<Longrightarrow> repo_ReclaimStaleIdempotency key hash uid after w = (r, w') \<Longrightarrow> idle w' \<and> env w' = env w"
  by (drule (1) repo_create repo_get repo_reclaim, blast)+

lemma CheckAndClaim_frame:
  assumes "idle w" and r: "CheckAndClaim key hash uid w = (r, w')"
  shows "idle w' \<and> env w' = env w"
proof -
  obtain c w1 where c: "repo_CreateIdempotency key hash uid w = (c, w1)" by fastforce
  obtain g w2 where g: "repo_GetIdempotencyByUserID key uid w1 = (g, w2)" by fastforce
  obtain q w3 where q: "repo_ReclaimStaleIdempotency key hash uid staleClaimTimeout w2 = (q, w3)" by fastforce
  note f1 = repo_frames(1) [OF assms(1) c]
  note f2 = repo_frames(2) [OF conjunct1 [OF f1] g]
  note f3 = repo_frames(3) [OF conjunct1 [OF f2] q]
  from r c g q have "w' = w1 \<or> w' = w2 \<or> w' = w3"
    unfolding CheckAndClaim_def svc_CheckAndClaim_def idempotency_repository_def key_repository.select_convs
    by (simp add: and_then_def ret_def split: sum.splits if_splits)
  with f1 f2 f3 show ?thesis by auto
qed

text \<open>A key claimed by the sample user, and with the response stored.\<close>

definition sample_claim :: "nat \<Rightarrow> world" where
  "sample_claim n = snd (CheckAndClaim ''k'' ''h'' 1 (sample_world all_works 0 sample_tables))
     \<lparr>stmt_no := n\<rparr>"

definition sample_answer :: world where
  "sample_answer = snd (SaveResponse ''k'' 1 ''{}'' (sample_claim 1))"

lemma sample_claim_idle: "idle (sample_claim 1)" "idle (sample_claim 8)" "idle sample_answer"
  by code_simp+

section \<open>Properties\<close>

text \<open>
  C6. \<open>CheckAndClaim\<close> by the state of the key. A free key is claimed. A key of another user is refused
  with an error; one claimed with another request hash is a mismatch; one with a stored response is
  replayed with that response; one still unanswered is in progress, until the claim is more than
  30 seconds old, when it is claimed anew. In all cases a statement may fail instead, and every
  other key stays as it is.
\<close>

theorem CheckAndClaim_by_state:
  assumes "idle w" and r: "CheckAndClaim key hash uid w = (r, w')"
  defines "t \<equiv> tables w" and "t' \<equiv> tables w'"
  defines "before \<equiv> env_app_clock (env w) (stmt_no w + 2) - staleClaimTimeout"
  shows "idle w' \<and> (case key_look t key of
      None \<Rightarrow> isl r \<and> key_look t' = key_look t \<or>
        (r = Inl ErrConn \<or> r = Inr claim_new) \<and> (\<exists>now. key_look t' = (key_look t)(key \<mapsto> new_key key uid hash now))
    | Some row \<Rightarrow>
        if k_user_id row \<noteq> uid then isl r \<and> key_look t' = key_look t
        else if k_request_hash row \<noteq> hash then
          (isl r \<or> r = Inr \<lparr>Result_Status = Mismatch, Result_Response = None\<rparr>) \<and> key_look t' = key_look t
        else if k_response row \<noteq> None \<and> k_response row \<noteq> Some [] then
          (isl r \<or> r = Inr \<lparr>Result_Status = Replayed, Result_Response = k_response row\<rparr>) \<and> key_look t' = key_look t
        else if k_response row \<noteq> None \<or> \<not> k_created_at row < before then
          (isl r \<or> r = Inr \<lparr>Result_Status = InProgress, Result_Response = None\<rparr>) \<and> key_look t' = key_look t
        else isl r \<and> key_look t' = key_look t \<or>
          (r = Inl ErrConn \<or> r = Inr claim_new) \<and>
          (\<exists>now. key_look t' = (key_look t)(key \<mapsto> row\<lparr>k_request_hash := hash, k_created_at := now, k_updated_at := now\<rparr>)))"
  unfolding t_def t'_def before_def
  using CheckAndClaim_cases [OF assms(1,2)] CheckAndClaim_frame [OF assms(1,2)] by blast

theorem CheckAndClaim_by_state_witness:
  "fst (CheckAndClaim ''k'' ''h'' 1 (sample_world all_works 0 sample_tables)) = Inr claim_new \<and>
   (\<exists>now. key_look (tables (sample_claim 1)) = (key_look sample_tables)(''k'' \<mapsto> new_key ''k'' 1 ''h'' now)) \<and>
   fst (CheckAndClaim ''k'' ''h'' 1 (sample_claim 1)) =
     Inr \<lparr>Result_Status = InProgress, Result_Response = None\<rparr> \<and>
   fst (CheckAndClaim ''k'' ''x'' 1 (sample_claim 1)) =
     Inr \<lparr>Result_Status = Mismatch, Result_Response = None\<rparr> \<and>
   isl (fst (CheckAndClaim ''k'' ''h'' 2 (sample_claim 1)))"
proof -
  let ?w = "sample_world all_works 0 sample_tables"
  have "fst (CheckAndClaim ''k'' ''h'' 1 ?w) = Inr claim_new" "key_look (tables ?w) ''k'' = None"
    "fst (CheckAndClaim ''k'' ''h'' 1 (sample_claim 1)) = Inr \<lparr>Result_Status = InProgress, Result_Response = None\<rparr>"
    "fst (CheckAndClaim ''k'' ''x'' 1 (sample_claim 1)) = Inr \<lparr>Result_Status = Mismatch, Result_Response = None\<rparr>"
    "isl (fst (CheckAndClaim ''k'' ''h'' 2 (sample_claim 1)))"
    by code_simp+
  with CheckAndClaim_by_state [OF sample_idle_tables [of all_works 0] prod.collapse [symmetric], where key = "''k''" and hash = "''h''" and uid = 1]
  show ?thesis by (simp add: sample_claim_def)
qed

text \<open>
  C30. Once the response of a request has been stored, every later request of the same user with the
  same key and body is answered with the stored response (or an error), and is never let through to
  place a second order. JSON texts are not empty.
\<close>

theorem SaveResponse_then_replayed:
  assumes "idle w" and nonempty: "\<forall>x. env_jsonb (env w) x \<noteq> Some []"
    and save: "SaveResponse key uid resp w = (Inr (), w1)"
    and hash: "\<exists>row. key_look (tables w) key = Some row \<and> k_request_hash row = hash"
    and later: "idle w2" "key_look (tables w2) key = key_look (tables w1) key"
    and again: "CheckAndClaim key hash uid w2 = (r, w3)"
  shows "key_look (tables w3) = key_look (tables w2) \<and>
    (isl r \<or> r = Inr \<lparr>Result_Status = Replayed, Result_Response = env_jsonb (env w) resp\<rparr>)"
proof -
  from SaveResponse_cases [OF assms(1) save] obtain row json now where
    row: "key_look (tables w) key = Some row" "k_user_id row = uid" and json: "env_jsonb (env w) resp = Some json"
    and "key_look (tables w1) = (key_look (tables w))(key \<mapsto> row\<lparr>k_response := Some json, k_updated_at := now\<rparr>)"
    by auto
  then have "key_look (tables w2) key = Some (row\<lparr>k_response := Some json, k_updated_at := now\<rparr>)"
    using later(2) by simp
  with CheckAndClaim_cases [OF later(1) again] row hash json nonempty show ?thesis
    by (auto split: if_splits)
qed

theorem SaveResponse_then_replayed_witness:
  "key_look (tables (snd (CheckAndClaim ''k'' ''h'' 1 sample_answer))) = key_look (tables sample_answer) \<and>
   fst (CheckAndClaim ''k'' ''h'' 1 sample_answer) =
     Inr \<lparr>Result_Status = Replayed, Result_Response = Some ''{}''\<rparr>"
proof -
  have "env (sample_claim 1) = sample_env all_works 0"
    using CheckAndClaim_frame [OF sample_idle_tables [of all_works 0] prod.collapse [symmetric], where key = "''k''" and hash = "''h''" and uid = 1]
    by (simp add: sample_claim_def)
  then have json: "env_jsonb (env (sample_claim 1)) = (\<lambda>x. if x = [] then None else Some x)"
    by (simp add: sample_env_def)
  have saved: "fst (SaveResponse ''k'' 1 ''{}'' (sample_claim 1)) = Inr ()"
    and row: "map_option k_request_hash (key_look (tables (sample_claim 1)) ''k'') = Some ''h''"
    and "fst (CheckAndClaim ''k'' ''h'' 1 sample_answer) =
      Inr \<lparr>Result_Status = Replayed, Result_Response = Some ''{}''\<rparr>"
    by code_simp+
  have save: "SaveResponse ''k'' 1 ''{}'' (sample_claim 1) = (Inr (), sample_answer)"
    using saved by (metis prod.collapse sample_answer_def)
  from SaveResponse_then_replayed [OF sample_claim_idle(1) _ save _ sample_claim_idle(3) refl prod.collapse [symmetric]]
    json row \<open>fst (CheckAndClaim _ _ _ _) = _\<close>
  show ?thesis by auto
qed

text \<open>
  A claim excludes others for 30 seconds: after a request was let through with a key, another
  request with this key is let through only when the application's clock, at its last statement,
  is more than 30 seconds past the claim.
\<close>

theorem CheckAndClaim_excludes:
  assumes "idle w" and first: "CheckAndClaim key hash uid w = (Inr claim_new, w1)"
    and later: "idle w2" "key_look (tables w2) key = key_look (tables w1) key"
    and second: "CheckAndClaim key hash' uid' w2 = (Inr claim_new, w3)"
  shows "\<exists>row. key_look (tables w1) key = Some row \<and> k_user_id row = uid \<and> k_request_hash row = hash \<and>
    k_response row = None \<and> uid' = uid \<and> hash' = hash \<and>
    k_created_at row + staleClaimTimeout < env_app_clock (env w2) (stmt_no w2 + 2)"
proof -
  from CheckAndClaim_cases [OF assms(1) first] obtain row where
    row: "key_look (tables w1) key = Some row" "k_user_id row = uid" "k_request_hash row = hash"
      "k_response row = None"
    by (cases "key_look (tables w) key") (auto simp: claim_new_def new_key_def split: if_splits)
  with CheckAndClaim_cases [OF later(1) second] later(2) show ?thesis
    by (auto simp: claim_new_def split: if_splits)
qed

theorem CheckAndClaim_excludes_witness:
  "fst (CheckAndClaim ''k'' ''h'' 1 (sample_claim 8)) = Inr claim_new \<and>
   (\<exists>row. key_look (tables (sample_claim 8)) ''k'' = Some row \<and>
      k_created_at row + staleClaimTimeout < env_app_clock (env (sample_claim 8)) 10)"
proof -
  let ?w = "sample_world all_works 0 sample_tables"
  have first: "CheckAndClaim ''k'' ''h'' 1 ?w = (Inr claim_new, snd (CheckAndClaim ''k'' ''h'' 1 ?w))"
    by (rule prod_eqI) (simp_all, code_simp)
  have second: "fst (CheckAndClaim ''k'' ''h'' 1 (sample_claim 8)) = Inr claim_new" by code_simp
  then have "CheckAndClaim ''k'' ''h'' 1 (sample_claim 8) =
      (Inr claim_new, snd (CheckAndClaim ''k'' ''h'' 1 (sample_claim 8)))"
    by (metis prod.collapse)
  from CheckAndClaim_excludes [OF sample_idle_tables [of all_works 0] first sample_claim_idle(2) _ this] second
  show ?thesis by (auto simp: sample_claim_def)
qed

end
