(* ===== verification/Product_Catalog.thy ===== *)
theory Product_Catalog
  imports Order_Store Sample
begin

text \<open>
  The product catalog: the SQL statements (\<open>product/sqlc/products.sql.go\<close>), the repository
  (\<open>product_repository.go\<close>) and the service (\<open>product_service.go\<close>). The package's \<open>Product\<close> struct has
  the fields of the order package's and is modelled by the same record. The service is written
  against the repository interface, whose contract is the locale \<open>product_repo\<close>.
\<close>

record CreateProductRequest =
  cp_Name :: string
  cp_Description :: string
  cp_Price :: goint
  cp_Stock :: goint

record UpdateProductRequest =
  up_Name :: "string option"
  up_Description :: "string option"
  up_Price :: "goint option"
  up_Stock :: "goint option"

section \<open>The SQL statements\<close>

text \<open>
  A \<open>VARCHAR(255)\<close> refuses longer names; the \<open>CHECK\<close>s, then the unique indexes are tested, and
  deleting a product an order item refers to violates the foreign key.
\<close>

definition product_valid :: "product_row \<Rightarrow> sqlstate + product_row" where
  "product_valid r =
     (if 255 < length (p_name r) then Inl StringDataRightTruncation else checked product_check r)"

definition new_product :: "string \<Rightarrow> string \<Rightarrow> int64 \<Rightarrow> int32 \<Rightarrow> uuid \<Rightarrow> time \<Rightarrow> product_row" where
  "new_product name description price stock u now =
     \<lparr>p_id = u, p_name = name, p_description = description, p_price = price, p_stock = stock,
      p_created_at = now, p_updated_at = now\<rparr>"

definition createProduct :: "string \<Rightarrow> string \<Rightarrow> int64 \<Rightarrow> int32 \<Rightarrow> uuid \<Rightarrow> product_row sql" where
  "createProduct name description price stock u now t =
     (case product_valid (new_product name description price stock u now) of
        Inl e \<Rightarrow> Inl (PgError e)
      | Inr r \<Rightarrow>
          if u \<in> p_id ` set (t_products t) \<or> name \<in> p_name ` set (t_products t)
          then Inl (PgError UniqueViolation)
          else Inr (r, t\<lparr>t_products := t_products t @ [r]\<rparr>, []))"

definition sql_CreateProduct :: "string \<Rightarrow> string \<Rightarrow> int64 \<Rightarrow> int32 \<Rightarrow> product_row db_op" where
  "sql_CreateProduct name description price stock =
     exec_insert (createProduct name description price stock)"

definition deleteProductByID :: "uuid \<Rightarrow> int64 sql" where
  "deleteProductByID pid now t =
     (let gone = filter (\<lambda>r. p_id r = pid) (t_products t) in
      if gone \<noteq> [] \<and> pid \<in> i_product_id ` set (t_items t) then Inl (PgError ForeignKeyViolation)
      else Inr (of_nat (length gone), t\<lparr>t_products := filter (\<lambda>r. p_id r \<noteq> pid) (t_products t)\<rparr>,
                map (\<lambda>r. ProductLock (p_id r)) gone))"

definition sql_DeleteProductByID :: "uuid \<Rightarrow> int64 db_op" where
  "sql_DeleteProductByID pid = exec_sql (deleteProductByID pid)"

definition getProductByID :: "uuid \<Rightarrow> tables \<Rightarrow> product_row list" where
  "getProductByID pid t = filter (\<lambda>r. p_id r = pid) (t_products t)"

definition sql_GetProductByID :: "uuid \<Rightarrow> product_row db_op" where
  "sql_GetProductByID pid = query_rows (getProductByID pid) one_row"

definition getProductByName :: "string \<Rightarrow> tables \<Rightarrow> product_row list" where
  "getProductByName name t = filter (\<lambda>r. p_name r = name) (t_products t)"

definition sql_GetProductByName :: "string \<Rightarrow> product_row db_op" where
  "sql_GetProductByName name = query_rows (getProductByName name) one_row"

text \<open>There is no \<open>ORDER BY\<close>: a page is a piece of the table in whatever order the scan had.\<close>

definition listProducts :: "int32 \<Rightarrow> int32 \<Rightarrow> product_row list \<Rightarrow> go_error + product_row list" where
  "listProducts limit offset rs =
     (if limit <s 0 then Inl (PgError InvalidRowCountInLimit)
      else if offset <s 0 then Inl (PgError InvalidRowCountInOffset)
      else Inr (take (nat (sint limit)) (drop (nat (sint offset)) rs)))"

definition sql_ListProducts :: "int32 \<Rightarrow> int32 \<Rightarrow> product_row list db_op" where
  "sql_ListProducts limit offset = query_rows t_products (listProducts limit offset)"

definition coalesce :: "'a option \<Rightarrow> 'a \<Rightarrow> 'a" where
  "coalesce x y = (case x of None \<Rightarrow> y | Some v \<Rightarrow> v)"

definition merge_product ::
  "string option \<Rightarrow> string option \<Rightarrow> int64 option \<Rightarrow> int32 option \<Rightarrow> time \<Rightarrow> product_row \<Rightarrow> product_row" where
  "merge_product name description price stock now r =
     r\<lparr>p_name := coalesce name (p_name r), p_description := coalesce description (p_description r),
       p_price := coalesce price (p_price r), p_stock := coalesce stock (p_stock r), p_updated_at := now\<rparr>"

definition updateProduct ::
  "string option \<Rightarrow> string option \<Rightarrow> int64 option \<Rightarrow> int32 option \<Rightarrow> uuid \<Rightarrow> product_row sql" where
  "updateProduct name description price stock pid =
     unique_after (\<lambda>t. distinct (map p_name (t_products t)))
       (returning_one
         (update_products (\<lambda>r. p_id r = pid)
           (\<lambda>now r. product_valid (merge_product name description price stock now r))))"

definition sql_UpdateProduct ::
  "string option \<Rightarrow> string option \<Rightarrow> int64 option \<Rightarrow> int32 option \<Rightarrow> uuid \<Rightarrow> product_row db_op" where
  "sql_UpdateProduct name description price stock pid =
     exec_sql (updateProduct name description price stock pid)"

section \<open>The repository\<close>

text \<open>\<open>errors.As(err, &pgErr) && pgErr.Code == pgerrcode.UniqueViolation\<close>.\<close>

fun is_unique_violation :: "go_error \<Rightarrow> bool" where
  "is_unique_violation (PgError d) \<longleftrightarrow> d = UniqueViolation"
| "is_unique_violation (Wrapped msg e) \<longleftrightarrow> is_unique_violation e"
| "is_unique_violation e \<longleftrightarrow> False"

definition name_exists :: "go_error \<Rightarrow> go_error" where
  "name_exists err = (if is_unique_violation err then ProductErr ErrExistingProductName else err)"

definition repo_GetProductByID :: "uuid \<Rightarrow> Product db_op" where
  "repo_GetProductByID pid = map_ok productFromSqlc (sql_GetProductByID pid)"

definition repo_ListProducts :: "goint \<Rightarrow> goint \<Rightarrow> Product list db_op" where
  "repo_ListProducts limit offset =
     map_ok (map productFromSqlc) (sql_ListProducts (int32_of limit) (int32_of offset))"

definition repo_CreateProduct :: "string \<Rightarrow> string \<Rightarrow> goint \<Rightarrow> goint \<Rightarrow> Product db_op" where
  "repo_CreateProduct name desc price stock =
     map_ok productFromSqlc (map_err name_exists (sql_CreateProduct name desc price (int32_of stock)))"

definition repo_UpdateProduct ::
  "uuid \<Rightarrow> string option \<Rightarrow> string option \<Rightarrow> goint option \<Rightarrow> goint option \<Rightarrow> Product db_op" where
  "repo_UpdateProduct pid name desc price stock =
     map_ok productFromSqlc
       (map_err name_exists (sql_UpdateProduct name desc price (map_option int32_of stock) pid))"

definition repo_DeleteProductByID :: "uuid \<Rightarrow> goint db_op" where
  "repo_DeleteProductByID pid = sql_DeleteProductByID pid"

record 's product_repository =
  pr_Get :: "uuid \<Rightarrow> ('s, go_error, Product) op"
  pr_List :: "goint \<Rightarrow> goint \<Rightarrow> ('s, go_error, Product list) op"
  pr_Create :: "string \<Rightarrow> string \<Rightarrow> goint \<Rightarrow> goint \<Rightarrow> ('s, go_error, Product) op"
  pr_Update :: "uuid \<Rightarrow> string option \<Rightarrow> string option \<Rightarrow> goint option \<Rightarrow> goint option \<Rightarrow> ('s, go_error, Product) op"
  pr_Delete :: "uuid \<Rightarrow> ('s, go_error, goint) op"

definition pg_product_repository :: "world product_repository" where
  "pg_product_repository = \<lparr>
     pr_Get = repo_GetProductByID,
     pr_List = repo_ListProducts,
     pr_Create = repo_CreateProduct,
     pr_Update = repo_UpdateProduct,
     pr_Delete = repo_DeleteProductByID\<rparr>"

section \<open>The service\<close>

definition maxLimit :: goint where
  "maxLimit = 100"

text \<open>The page and the limit \<open>ListProducts\<close> asks the repository for, as \<open>(limit, offset)\<close>.\<close>

definition list_window :: "goint \<Rightarrow> goint \<Rightarrow> goint \<times> goint" where
  "list_window page limit =
     (let page = (if page <s 1 then 1 else page);
          limit = (if limit <s 1 then 1 else limit);
          limit = (if maxLimit <s limit then maxLimit else limit) in
      (limit, (page - 1) * limit))"

definition svc_ListProducts :: "'s product_repository \<Rightarrow> goint \<Rightarrow> goint \<Rightarrow> ('s, go_error, Product list) op" where
  "svc_ListProducts pr page limit =
     (case list_window page limit of (limit, offset) \<Rightarrow>
        and_then (pr_List pr limit offset) (\<lambda>listProducts.
          if listProducts = [] then fail (ProductErr ErrNoProduct) else ret listProducts))"

definition svc_GetProductByID :: "'s product_repository \<Rightarrow> uuid \<Rightarrow> ('s, go_error, Product) op" where
  "svc_GetProductByID pr pid = map_err (not_found (ProductErr ErrProductNotFound)) (pr_Get pr pid)"

definition svc_CreateProduct :: "'s product_repository \<Rightarrow> CreateProductRequest \<Rightarrow> ('s, go_error, Product) op" where
  "svc_CreateProduct pr req = pr_Create pr (cp_Name req) (cp_Description req) (cp_Price req) (cp_Stock req)"

definition svc_UpdateProduct ::
  "'s product_repository \<Rightarrow> uuid \<Rightarrow> UpdateProductRequest \<Rightarrow> ('s, go_error, Product) op" where
  "svc_UpdateProduct pr pid req =
     map_err (not_found (ProductErr ErrProductNotFound))
       (pr_Update pr pid (up_Name req) (up_Description req) (up_Price req) (up_Stock req))"

definition svc_DeleteProduct :: "'s product_repository \<Rightarrow> uuid \<Rightarrow> ('s, go_error, unit) op" where
  "svc_DeleteProduct pr pid =
     and_then (pr_Delete pr pid) (\<lambda>effectedRows.
       if effectedRows = 0 then fail (ProductErr ErrProductNotFound) else ret ())"

definition ListProducts :: "goint \<Rightarrow> goint \<Rightarrow> Product list db_op" where
  "ListProducts = svc_ListProducts pg_product_repository"

definition GetProductByID :: "uuid \<Rightarrow> Product db_op" where
  "GetProductByID = svc_GetProductByID pg_product_repository"

definition CreateProduct :: "CreateProductRequest \<Rightarrow> Product db_op" where
  "CreateProduct = svc_CreateProduct pg_product_repository"

definition UpdateProduct :: "uuid \<Rightarrow> UpdateProductRequest \<Rightarrow> Product db_op" where
  "UpdateProduct = svc_UpdateProduct pg_product_repository"

definition DeleteProduct :: "uuid \<Rightarrow> unit db_op" where
  "DeleteProduct = svc_DeleteProduct pg_product_repository"

section \<open>The contract\<close>

text \<open>\<open>cat s\<close> is the catalog: the product each id names.\<close>

locale product_repo =
  fixes pr :: "'s product_repository"
    and cat :: "'s \<Rightarrow> uuid \<Rightarrow> product_row option"
    and ok :: "'s \<Rightarrow> bool"
  assumes get: "ok s \<Longrightarrow> pr_Get pr pid s = (r, s') \<Longrightarrow> ok s' \<and> cat s' = cat s \<and>
      (r = Inl ErrConn \<or>
       r = (case cat s pid of None \<Rightarrow> Inl ErrNoRows | Some row \<Rightarrow> Inr (productFromSqlc row)))"
    and page: "ok s \<Longrightarrow> pr_List pr limit offset s = (l, s') \<Longrightarrow> ok s' \<and> cat s' = cat s \<and>
      (\<forall>ps. l = Inr ps \<longrightarrow> length ps \<le> nat (sint (int32_of limit)) \<and> distinct (map Product_ID ps) \<and>
         (\<forall>p \<in> set ps. \<exists>row. cat s (Product_ID p) = Some row \<and> p = productFromSqlc row))"
    and create: "ok s \<Longrightarrow> pr_Create pr name desc price stock s = (r, s') \<Longrightarrow> ok s' \<and>
      (isl r \<and> cat s' = cat s \<or>
       (\<exists>u now. cat s u = None \<and> cat s' = (cat s)(u \<mapsto> new_product name desc price (int32_of stock) u now) \<and>
          (r = Inl ErrConn \<or> r = Inr (productFromSqlc (new_product name desc price (int32_of stock) u now)))))"
    and update: "ok s \<Longrightarrow> pr_Update pr pid name' desc' price' stock' s = (r, s') \<Longrightarrow> ok s' \<and>
      (isl r \<and> cat s' = cat s \<and> (r = Inl ErrNoRows \<longrightarrow> cat s pid = None) \<or>
       (\<exists>row row' now. cat s pid = Some row \<and>
          row' = merge_product name' desc' price' (map_option int32_of stock') now row \<and>
          cat s' = (cat s)(pid \<mapsto> row') \<and> (r = Inl ErrConn \<or> r = Inr (productFromSqlc row'))))"
    and delete: "ok s \<Longrightarrow> pr_Delete pr pid s = (n, s') \<Longrightarrow> ok s' \<and>
      (isl n \<and> cat s' = cat s \<or>
       cat s' = (cat s)(pid := None) \<and> (n = Inl ErrConn \<or> n = Inr (if cat s pid = None then 0 else 1)))"
begin

lemma get_product:
  assumes "ok s" "svc_GetProductByID pr pid s = (r, s')"
  shows "ok s' \<and> cat s' = cat s \<and>
    (r = Inl ErrConn \<or>
     r = (case cat s pid of None \<Rightarrow> Inl (ProductErr ErrProductNotFound) | Some row \<Rightarrow> Inr (productFromSqlc row)))"
proof -
  obtain g where g: "pr_Get pr pid s = (g, s')"
    and r: "r = (case g of Inl e \<Rightarrow> Inl (not_found (ProductErr ErrProductNotFound) e) | Inr p \<Rightarrow> Inr p)"
    using assms(2) by (auto simp: svc_GetProductByID_def map_err_def split: prod.splits sum.splits)
  from get [OF assms(1) g] r show ?thesis by (cases "cat s pid") (auto simp: not_found_def)
qed

lemma update_product:
  assumes "ok s" "svc_UpdateProduct pr pid req s = (r, s')"
  shows "ok s' \<and>
    (isl r \<and> cat s' = cat s \<or>
     (\<exists>row row' now. cat s pid = Some row \<and>
        row' = merge_product (up_Name req) (up_Description req) (up_Price req)
                 (map_option int32_of (up_Stock req)) now row \<and>
        cat s' = (cat s)(pid \<mapsto> row') \<and> (r = Inl ErrConn \<or> r = Inr (productFromSqlc row'))))"
proof -
  obtain g where g: "pr_Update pr pid (up_Name req) (up_Description req) (up_Price req) (up_Stock req) s = (g, s')"
    and r: "r = (case g of Inl e \<Rightarrow> Inl (not_found (ProductErr ErrProductNotFound) e) | Inr p \<Rightarrow> Inr p)"
    using assms(2) by (auto simp: svc_UpdateProduct_def map_err_def split: prod.splits sum.splits)
  from update [OF assms(1) g] have "ok s'" by blast
  moreover have "isl r = isl g" "g = Inl ErrConn \<Longrightarrow> r = Inl ErrConn" "\<And>p. g = Inr p \<Longrightarrow> r = Inr p"
    using r by (auto simp: not_found_def split: sum.splits)
  ultimately show ?thesis
    using update [OF assms(1) g] by (elim conjE disjE exE) auto
qed

lemma delete_product:
  assumes "ok s" "svc_DeleteProduct pr pid s = (r, s')"
  shows "ok s' \<and>
    (isl r \<and> cat s' = cat s \<or> cat s pid \<noteq> None \<and> cat s' = (cat s)(pid := None) \<and> (r = Inl ErrConn \<or> r = Inr ()))"
proof -
  obtain g where g: "pr_Delete pr pid s = (g, s')"
    and r: "r = (case g of Inl e \<Rightarrow> Inl e | Inr n \<Rightarrow> if n = 0 then Inl (ProductErr ErrProductNotFound) else Inr ())"
    using assms(2) by (auto simp: svc_DeleteProduct_def and_then_def fail_def ret_def split: prod.splits sum.splits if_splits)
  from delete [OF assms(1) g] r show ?thesis
    by (cases "cat s pid"; cases g) (auto simp: fun_upd_idem_iff)
qed

end

section \<open>The repository meets the contract\<close>

definition catalog :: "tables \<Rightarrow> uuid \<Rightarrow> product_row option" where
  "catalog t pid = row_by p_id pid (t_products t)"

lemma product_valid_Inr [op_simps]:
  "product_valid r = Inr r' \<longleftrightarrow> length (p_name r) \<le> 255 \<and> product_check r \<and> r' = r"
  by (auto simp: product_valid_def checked_def)

lemma merge_product_simps [simp]:
  "p_id (merge_product name desc price stock now r) = p_id r"
  by (simp add: merge_product_def)

lemma keeps_createProduct [keeps_intros]: "sql_keeps schema_ok (createProduct name desc price stock u)"
  unfolding sql_keeps_def createProduct_def new_product_def
  by (auto simp: schema_ok_def op_simps split: sum.splits if_splits)

lemma keeps_updateProduct [keeps_intros]: "sql_keeps schema_ok (updateProduct name desc price stock pid)"
  unfolding sql_keeps_def updateProduct_def update_products_def
  by (auto simp: op_simps intro!: schema_ok_update_products)

lemma keeps_deleteProductByID [keeps_intros]: "sql_keeps schema_ok (deleteProductByID pid)"
proof -
  have "schema_ok (t\<lparr>t_products := filter (\<lambda>r. p_id r \<noteq> pid) (t_products t)\<rparr>)"
    if t: "schema_ok t" and free: "filter (\<lambda>r. p_id r = pid) (t_products t) = [] \<or> pid \<notin> i_product_id ` set (t_items t)" for t
  proof -
    have "i_product_id r \<in> p_id ` {x \<in> set (t_products t). p_id x \<noteq> pid}" if "r \<in> set (t_items t)" for r
    proof -
      from t that obtain x where "x \<in> set (t_products t)" "p_id x = i_product_id r"
        by (auto simp: schema_ok_def)
      moreover from this free that have "p_id x \<noteq> pid" by (auto simp: filter_empty_conv)
      ultimately show ?thesis by (metis (mono_tags, lifting) image_eqI mem_Collect_eq)
    qed
    with t show ?thesis by (auto simp: schema_ok_def distinct_map_filter)
  qed
  then show ?thesis
    by (auto simp: sql_keeps_def deleteProductByID_def Let_def split: if_splits)
qed

lemma catalog_create:
  assumes "createProduct name desc price stock u now t = Inr (r, t', ls)"
  shows "r = new_product name desc price stock u now \<and> catalog t u = None \<and>
    catalog t' = (catalog t)(u \<mapsto> r)"
proof -
  from assms have r: "r = new_product name desc price stock u now" "catalog t u = None"
    "t' = t\<lparr>t_products := t_products t @ [r]\<rparr>"
    by (auto simp: createProduct_def op_simps catalog_def row_by_None split: sum.splits if_splits)
  then show ?thesis
    by (auto simp: catalog_def row_by_append new_product_def fun_eq_iff split: option.splits)
qed

lemma catalog_update:
  assumes "schema_ok t" and u: "updateProduct name desc price stock pid now t = Inr (r, t', ls)"
  shows "\<exists>row. catalog t pid = Some row \<and> r = merge_product name desc price stock now row \<and>
    catalog t' = (catalog t)(pid \<mapsto> r)"
proof -
  let ?g = "merge_product name desc price stock now"
  have d: "distinct (map p_id (t_products t))" using assms(1) by (simp add: schema_ok_def)
  from u obtain rs qs where
    u: "update_where (\<lambda>r. p_id r = pid \<and> True) (\<lambda>r. product_valid (?g r)) (t_products t) = Inr (rs, r # qs)"
    and t': "t' = t\<lparr>t_products := rs\<rparr>"
    by (auto simp: updateProduct_def update_products_def op_simps)
  from update_by_key [OF d u] obtain row where
    row: "row_by p_id pid (t_products t) = Some row" and r: "r = ?g row"
    and rs: "rs = map (\<lambda>x. if p_id x = pid then r else x) (t_products t)"
    by (auto simp: op_simps)
  have "rs = map (\<lambda>x. if p_id x = pid then ?g x else x) (t_products t)"
    unfolding rs using map_at_key [OF d row, of r ?g] r by simp
  then have "row_by p_id k rs = map_option (\<lambda>x. if p_id x = pid then ?g x else x) (row_by p_id k (t_products t))" for k
    using row_by_update [of p_id ?g k "\<lambda>x. p_id x = pid"] by simp
  then have "catalog t' k = ((catalog t)(pid \<mapsto> r)) k" for k
    using row r by (cases "row_by p_id k (t_products t)") (auto simp: catalog_def t' dest: row_by_SomeD)
  with row r show ?thesis by (auto simp: catalog_def)
qed

lemma catalog_delete:
  assumes "schema_ok t" and "deleteProductByID pid now t = Inr (n, t', ls)"
  shows "catalog t' = (catalog t)(pid := None) \<and> n = (if catalog t pid = None then 0 else 1)"
proof -
  have d: "distinct (map p_id (t_products t))" using assms(1) by (simp add: schema_ok_def)
  from assms(2) have t': "t' = t\<lparr>t_products := filter (\<lambda>r. p_id r \<noteq> pid) (t_products t)\<rparr>"
    and n: "n = of_nat (length (filter (\<lambda>r. p_id r = pid) (t_products t)))"
    by (auto simp: deleteProductByID_def Let_def split: if_splits)
  have "row_by p_id k (filter (\<lambda>r. p_id r \<noteq> pid) rs) = (if k = pid then None else row_by p_id k rs)"
    for k and rs :: "product_row list"
    by (induction rs) auto
  with n filter_row_by [OF d, of pid] show ?thesis
    by (auto simp: catalog_def t' fun_eq_iff split: option.splits)
qed

lemma repo_get_product:
  assumes "idle w" and r: "repo_GetProductByID pid w = (r, w')"
  shows "idle w' \<and> tables w' = tables w \<and>
    (r = Inl ErrConn \<or>
     r = (case catalog (tables w) pid of None \<Rightarrow> Inl ErrNoRows | Some row \<Rightarrow> Inr (productFromSqlc row)))"
proof -
  have d: "distinct (map p_id (t_products (tables w)))" using assms(1) by (simp add: idle_def schema_ok_def)
  from r obtain q where q: "query_rows (getProductByID pid) one_row w = (q, w')"
    and r: "r = (case q of Inl e \<Rightarrow> Inl e | Inr a \<Rightarrow> Inr (productFromSqlc a))"
    by (auto simp: repo_GetProductByID_def sql_GetProductByID_def map_ok_def and_then_def ret_def
        split: prod.splits sum.splits)
  from query_rows_frame [OF q] query_rows_cases [OF q] assms(1) have "idle w'" by (auto simp: idle_def)
  with query_rows_cases [OF q] filter_row_by [OF d, of pid] r show ?thesis
    by (auto simp: getProductByID_def catalog_def one_row_def split: option.splits)
qed

lemma repo_list_products:
  assumes "idle w" and r: "repo_ListProducts limit offset w = (r, w')"
  shows "idle w' \<and> tables w' = tables w \<and>
    (\<forall>ps. r = Inr ps \<longrightarrow> length ps \<le> nat (sint (int32_of limit)) \<and> distinct (map Product_ID ps) \<and>
       (\<forall>p \<in> set ps. \<exists>row. catalog (tables w) (Product_ID p) = Some row \<and> p = productFromSqlc row))"
proof -
  have d: "distinct (map p_id (t_products (tables w)))" using assms(1) by (simp add: idle_def schema_ok_def)
  from r obtain q where q: "query_rows t_products (listProducts (int32_of limit) (int32_of offset)) w = (q, w')"
    and r: "r = (case q of Inl e \<Rightarrow> Inl e | Inr rs \<Rightarrow> Inr (map productFromSqlc rs))"
    by (auto simp: repo_ListProducts_def sql_ListProducts_def map_ok_def and_then_def ret_def
        split: prod.splits sum.splits)
  from query_rows_frame [OF q] query_rows_cases [OF q] assms(1) have
    frame: "idle w'" "tables w' = tables w" by (auto simp: idle_def)
  have id: "Product_ID (productFromSqlc r) = p_id r" for r by (simp add: productFromSqlc_def)
  have "length ps \<le> nat (sint (int32_of limit)) \<and> distinct (map Product_ID ps) \<and>
       (\<forall>p \<in> set ps. \<exists>row. catalog (tables w) (Product_ID p) = Some row \<and> p = productFromSqlc row)"
    if ps: "r = Inr ps" for ps
  proof -
    from ps r query_rows_cases [OF q] obtain rs qs where
      rs: "mset rs = mset (t_products (tables w))" "ps = map productFromSqlc qs"
      "qs = take (nat (sint (int32_of limit))) (drop (nat (sint (int32_of offset))) rs)"
      by (auto simp: listProducts_def split: sum.splits if_splits)
    have "mset (map p_id rs) = mset (map p_id (t_products (tables w)))" by (simp add: rs(1))
    then have "distinct (map p_id rs)" using mset_eq_imp_distinct_iff d by blast
    then have "distinct (map p_id qs)"
      by (simp add: rs(3) take_map [symmetric] drop_map [symmetric])
    moreover have "set qs \<subseteq> set (t_products (tables w))"
      unfolding rs(3) mset_eq_setD [OF rs(1), symmetric] by (auto dest: in_set_takeD in_set_dropD)
    moreover have "length ps \<le> nat (sint (int32_of limit))" by (simp add: rs(2,3))
    moreover have "map Product_ID ps = map p_id qs" by (simp add: rs(2) id)
    moreover have "\<exists>row. catalog (tables w) (Product_ID p) = Some row \<and> p = productFromSqlc row"
      if "p \<in> set ps" for p
    proof -
      from that obtain row where "row \<in> set qs" "p = productFromSqlc row" by (auto simp: rs(2))
      with \<open>set qs \<subseteq> _\<close> d show ?thesis by (auto simp: catalog_def id row_by_Some)
    qed
    ultimately show ?thesis by simp
  qed
  with frame show ?thesis by blast
qed

lemma repo_create_product:
  assumes "idle w" and r: "repo_CreateProduct name desc price stock w = (r, w')"
  shows "idle w' \<and>
    (isl r \<and> catalog (tables w') = catalog (tables w) \<or>
     (\<exists>u now. catalog (tables w) u = None \<and>
        catalog (tables w') = (catalog (tables w))(u \<mapsto> new_product name desc price (int32_of stock) u now) \<and>
        (r = Inl ErrConn \<or> r = Inr (productFromSqlc (new_product name desc price (int32_of stock) u now)))))"
proof -
  from r obtain q where q: "exec_insert (createProduct name desc price (int32_of stock)) w = (q, w')"
    and r: "r = (case q of Inl e \<Rightarrow> Inl (name_exists e) | Inr a \<Rightarrow> Inr (productFromSqlc a))"
    by (auto simp: repo_CreateProduct_def map_result sql_CreateProduct_def)
  have frame: "idle w'" using idle_insert [OF assms(1) keeps_createProduct q] .
  from q show ?thesis
  proof (cases rule: exec_insert_elim)
    case (effect u now a ls)
    with r have "r = Inl ErrConn \<or> r = Inr (productFromSqlc a)" by (auto simp: name_exists_def)
    with frame catalog_create [OF effect(1)] show ?thesis by blast
  qed (use frame r in simp_all)
qed

lemma repo_update_product:
  assumes "idle w" and r: "repo_UpdateProduct pid name desc price stock w = (r, w')"
  shows "idle w' \<and>
    (isl r \<and> catalog (tables w') = catalog (tables w) \<and> (r = Inl ErrNoRows \<longrightarrow> catalog (tables w) pid = None) \<or>
     (\<exists>row row' now. catalog (tables w) pid = Some row \<and>
        row' = merge_product name desc price (map_option int32_of stock) now row \<and>
        catalog (tables w') = (catalog (tables w))(pid \<mapsto> row') \<and> (r = Inl ErrConn \<or> r = Inr (productFromSqlc row'))))"
proof -
  let ?f = "updateProduct name desc price (map_option int32_of stock) pid"
  have ok: "schema_ok (tables w)" using assms(1) by (simp add: idle_def)
  from r obtain q where q: "exec_sql ?f w = (q, w')"
    and r: "r = (case q of Inl e \<Rightarrow> Inl (name_exists e) | Inr a \<Rightarrow> Inr (productFromSqlc a))"
    by (auto simp: repo_UpdateProduct_def map_result sql_UpdateProduct_def)
  have frame: "idle w'" using idle_exec [OF assms(1) keeps_updateProduct q] .
  from q show ?thesis
  proof (cases rule: exec_sql_elim)
    case none
    with frame r show ?thesis by (simp add: name_exists_def)
  next
    case (error now e)
    have "catalog (tables w) pid = None" if "e = ErrNoRows"
      using error(2) that
      by (auto simp: updateProduct_def update_products_def op_simps update_where_Inr filter_empty_conv
          catalog_def row_by_None)
    with error frame r show ?thesis by (auto simp: name_exists_def split: if_splits)
  next
    case (effect now a ls)
    from catalog_update [OF ok effect(1)] obtain row where
      "catalog (tables w) pid = Some row" "a = merge_product name desc price (map_option int32_of stock) now row"
      "catalog (tables w') = (catalog (tables w))(pid \<mapsto> a)" by blast
    moreover from effect(2) r have "r = Inl ErrConn \<or> r = Inr (productFromSqlc a)"
      by (auto simp: name_exists_def)
    ultimately show ?thesis using frame by blast
  qed
qed

lemma repo_delete_product:
  assumes "idle w" and r: "repo_DeleteProductByID pid w = (n, w')"
  shows "idle w' \<and>
    (isl n \<and> catalog (tables w') = catalog (tables w) \<or>
     catalog (tables w') = (catalog (tables w))(pid := None) \<and>
       (n = Inl ErrConn \<or> n = Inr (if catalog (tables w) pid = None then 0 else 1)))"
proof -
  have ok: "schema_ok (tables w)" using assms(1) by (simp add: idle_def)
  from r have q: "exec_sql (deleteProductByID pid) w = (n, w')"
    by (simp add: repo_DeleteProductByID_def sql_DeleteProductByID_def)
  have frame: "idle w'" using idle_exec [OF assms(1) keeps_deleteProductByID q] .
  from q show ?thesis
  proof (cases rule: exec_sql_elim)
    case (effect now a ls)
    with frame catalog_delete [OF ok effect(1)] show ?thesis by auto
  qed (use frame in simp_all)
qed

interpretation pg_products: product_repo pg_product_repository "\<lambda>w. catalog (tables w)" idle
proof (unfold_locales, unfold pg_product_repository_def product_repository.select_convs)
  fix w w' :: world and pid and r
  assume "idle w" "repo_GetProductByID pid w = (r, w')"
  from repo_get_product [OF this] show "idle w' \<and> catalog (tables w') = catalog (tables w) \<and>
    (r = Inl ErrConn \<or>
     r = (case catalog (tables w) pid of None \<Rightarrow> Inl ErrNoRows | Some row \<Rightarrow> Inr (productFromSqlc row)))" by simp
next
  fix w w' :: world and limit offset and l
  assume "idle w" "repo_ListProducts limit offset w = (l, w')"
  from repo_list_products [OF this] show "idle w' \<and> catalog (tables w') = catalog (tables w) \<and>
    (\<forall>ps. l = Inr ps \<longrightarrow> length ps \<le> nat (sint (int32_of limit)) \<and> distinct (map Product_ID ps) \<and>
         (\<forall>p \<in> set ps. \<exists>row. catalog (tables w) (Product_ID p) = Some row \<and> p = productFromSqlc row))" by simp
qed (rule repo_create_product repo_update_product repo_delete_product, assumption+)+

section \<open>Properties\<close>


definition sample_request :: CreateProductRequest where
  "sample_request = \<lparr>cp_Name = ''cup'', cp_Description = ''d'', cp_Price = 700, cp_Stock = 9\<rparr>"


text \<open>
  C39. Updating a product replaces the fields the request names and keeps the others, of this product
  alone; or it returns an error and the catalog is as before.
\<close>

theorem UpdateProduct_merges:
  assumes "idle w" and "UpdateProduct pid req w = (r, w')"
  shows "idle w' \<and>
    (isl r \<and> catalog (tables w') = catalog (tables w) \<or>
     (\<exists>row row' now. catalog (tables w) pid = Some row \<and>
        row' = row\<lparr>p_name := coalesce (up_Name req) (p_name row),
                   p_description := coalesce (up_Description req) (p_description row),
                   p_price := coalesce (up_Price req) (p_price row),
                   p_stock := coalesce (map_option int32_of (up_Stock req)) (p_stock row),
                   p_updated_at := now\<rparr> \<and>
        catalog (tables w') = (catalog (tables w))(pid \<mapsto> row') \<and>
        (r = Inl ErrConn \<or> r = Inr (productFromSqlc row'))))"
  using pg_products.update_product [OF assms(1) assms(2) [unfolded UpdateProduct_def]]
  unfolding merge_product_def .

definition sample_update :: UpdateProductRequest where
  "sample_update = \<lparr>up_Name = None, up_Description = None, up_Price = Some 800, up_Stock = None\<rparr>"

theorem UpdateProduct_merges_witness:
  "\<exists>row now. catalog sample_tables 10 = Some row \<and>
     catalog (tables (snd (UpdateProduct 10 sample_update (sample_world all_works 0 sample_tables)))) =
       (catalog sample_tables)(10 \<mapsto> row\<lparr>p_price := 800, p_updated_at := now\<rparr>)"
proof -
  let ?run = "UpdateProduct 10 sample_update (sample_world all_works 0 sample_tables)"
  have "\<not> isl (fst ?run)" by code_simp
  with UpdateProduct_merges [OF sample_idle_tables [of all_works 0] prod.collapse [symmetric], of 10 sample_update]
  show ?thesis by (auto simp: sample_update_def coalesce_def)
qed

text \<open>
  C40. Deleting removes the product and nothing else, or returns an error and leaves the catalog
  alone; a product that some order item refers to is never deleted, and its error leaves every
  table alone.
\<close>

theorem DeleteProduct_safe:
  assumes "idle w" and "DeleteProduct pid w = (r, w')"
  shows "(isl r \<and> catalog (tables w') = catalog (tables w) \<or>
     catalog (tables w) pid \<noteq> None \<and> catalog (tables w') = (catalog (tables w))(pid := None) \<and>
       (r = Inl ErrConn \<or> r = Inr ())) \<and>
    (pid \<in> i_product_id ` set (t_items (tables w)) \<longrightarrow> isl r \<and> tables w' = tables w)"
proof -
  from assms(2) obtain q where q: "exec_sql (deleteProductByID pid) w = (q, w')"
    and r: "r = (case q of Inl e \<Rightarrow> Inl e | Inr n \<Rightarrow> if n = 0 then Inl (ProductErr ErrProductNotFound) else Inr ())"
    by (auto simp: DeleteProduct_def svc_DeleteProduct_def pg_product_repository_def repo_DeleteProductByID_def
        sql_DeleteProductByID_def and_then_def fail_def ret_def split: prod.splits sum.splits if_splits)
  have "isl r \<and> tables w' = tables w" if used: "pid \<in> i_product_id ` set (t_items (tables w))"
  proof -
    have "pid \<in> p_id ` set (t_products (tables w))"
      using used assms(1) by (auto simp: idle_def schema_ok_def)
    with used have "deleteProductByID pid now (tables w) = Inl (PgError ForeignKeyViolation)" for now
      by (auto simp: deleteProductByID_def Let_def filter_empty_conv)
    with q r show ?thesis by (cases rule: exec_sql_elim) auto
  qed
  with pg_products.delete_product [OF assms(1) assms(2) [unfolded DeleteProduct_def]] show ?thesis by blast
qed

theorem DeleteProduct_safe_witness:
  "catalog (tables (snd (DeleteProduct 10 (sample_world all_works 0 sample_tables)))) =
     (catalog sample_tables)(10 := None)"
proof -
  have "\<not> isl (fst (DeleteProduct 10 (sample_world all_works 0 sample_tables)))" by code_simp
  with DeleteProduct_safe [OF sample_idle_tables [of all_works 0] prod.collapse [symmetric], of 10]
  show ?thesis by auto
qed

lemma list_window_limit:
  "sint (fst (list_window page limit)) = max 1 (min 100 (sint limit))"
  by (auto simp: list_window_def Let_def maxLimit_def word_sless_alt)

text \<open>
  A listed page is not empty, holds at most 100 products and at most the requested number, and
  its products are distinct products of the catalog as they are stored; listing changes nothing.
\<close>

theorem ListProducts_page:
  assumes "idle w" and "ListProducts page limit w = (r, w')"
  shows "catalog (tables w') = catalog (tables w) \<and>
    (\<forall>ps. r = Inr ps \<longrightarrow> ps \<noteq> [] \<and> int (length ps) \<le> max 1 (min 100 (sint limit)) \<and>
       distinct (map Product_ID ps) \<and>
       (\<forall>p \<in> set ps. \<exists>row. catalog (tables w) (Product_ID p) = Some row \<and> p = productFromSqlc row))"
proof -
  obtain l off where win: "list_window page limit = (l, off)" by fastforce
  from assms(2) win obtain q where q: "pr_List pg_product_repository l off w = (q, w')"
    and r: "r = (case q of Inl e \<Rightarrow> Inl e | Inr ps \<Rightarrow> if ps = [] then Inl (ProductErr ErrNoProduct) else Inr ps)"
    by (auto simp: ListProducts_def svc_ListProducts_def and_then_def fail_def ret_def
        split: prod.splits sum.splits if_splits)
  have "sint (int32_of l) = max 1 (min 100 (sint limit))"
    using list_window_limit [of page limit] win by (subst sint_int32_of) auto
  with pg_products.page [OF assms(1) q] r show ?thesis by (auto split: sum.splits if_splits)
qed

theorem ListProducts_page_witness:
  "\<exists>ps. fst (ListProducts 1 5 (sample_world all_works 0 sample_tables)) = Inr ps \<and> ps \<noteq> [] \<and> length ps \<le> 5"
proof -
  have "\<not> isl (fst (ListProducts 1 5 (sample_world all_works 0 sample_tables)))" by code_simp
  then obtain ps where ps: "fst (ListProducts 1 5 (sample_world all_works 0 sample_tables)) = Inr ps"
    by (auto simp: isl_def) (metis sum.exhaust)
  with ListProducts_page [OF sample_idle_tables [of all_works 0] prod.collapse [symmetric], of 1 5]
  show ?thesis by auto
qed

end
