(* ===== verification/Text.thy ===== *)
theory Text
  imports Main "HOL-Library.Word"
begin

text \<open>
  What the code uses of Go's \<open>strings\<close>, \<open>strconv\<close>, \<open>net\<close> and \<open>regexp\<close>: a Go string is a list of bytes,
  here a \<^typ>\<open>string\<close>. On top of it the two functions of the code that only work on text: the address a
  rate limit counts by (\<open>client_ip.go\<close>) and the name of a trace span (\<open>database.go\<close>).
\<close>

section \<open>Strings\<close>

definition TrimPrefix :: "string \<Rightarrow> string \<Rightarrow> string" where
  "TrimPrefix s p = (if take (length p) s = p then drop (length p) s else s)"

definition bytes :: "nat list \<Rightarrow> string" where
  "bytes ns = map char_of ns"

text \<open>The UTF-8 encodings of the characters \<open>unicode.IsSpace\<close> accepts.\<close>

definition white_space :: "string list" where
  "white_space =
     map bytes ([[9], [10], [11], [12], [13], [32], [0xC2, 0x85], [0xC2, 0xA0], [0xE1, 0x9A, 0x80]] @
       map (\<lambda>b. [0xE2, 0x80, b]) ([0x80..<0x8B] @ [0xA8, 0xA9, 0xAF]) @
       [[0xE2, 0x81, 0x9F], [0xE3, 0x80, 0x80]])"

definition starts_with :: "string list \<Rightarrow> string \<Rightarrow> string option" where
  "starts_with ps s = find (\<lambda>p. p \<noteq> [] \<and> take (length p) s = p) ps"

lemma starts_with_length [termination_simp]:
  "starts_with ps s = Some p \<Longrightarrow> length (drop (length p) s) < length s"
proof -
  assume "starts_with ps s = Some p"
  then have "p \<noteq> []" "take (length p) s = p" by (auto simp: starts_with_def find_Some_iff)
  then have "0 < length p" "length p \<le> length s" by (simp, metis length_take min.cobounded1)
  then show ?thesis by (metis diff_less length_drop order_less_le_trans)
qed

function trim_left :: "string list \<Rightarrow> string \<Rightarrow> string" where
  "trim_left ps s = (case starts_with ps s of None \<Rightarrow> s | Some p \<Rightarrow> trim_left ps (drop (length p) s))"
  by pat_completeness auto
termination by (relation "measure (\<lambda>(ps, s). length s)") (auto dest: starts_with_length)

declare trim_left.simps [simp del]

definition TrimSpace :: "string \<Rightarrow> string" where
  "TrimSpace s = rev (trim_left (map rev white_space) (rev (trim_left white_space s)))"

lemma trim_left_id: "starts_with ps s = None \<Longrightarrow> trim_left ps s = s"
  by (simp add: trim_left.simps)

lemma starts_with_None:
  assumes "s = [] \<or> (\<forall>p \<in> set ps. p \<noteq> [] \<longrightarrow> hd p \<noteq> hd s)"
  shows "starts_with ps s = None"
  using assms
proof (cases s)
  case Nil
  then show ?thesis by (auto simp: starts_with_def find_None_iff)
next
  case (Cons c cs)
  have "take (length p) s \<noteq> p" if p: "p \<in> set ps" "p \<noteq> []" for p
  proof
    assume "take (length p) s = p"
    with p(2) Cons have "hd p = hd s" by (cases p) auto
    with assms p Cons show False by simp
  qed
  then show ?thesis by (auto simp: starts_with_def find_None_iff)
qed

lemma starts_with_one:
  "filter (\<lambda>p. p \<noteq> [] \<and> hd p = c) ps = [[c]] \<Longrightarrow> starts_with ps (c # s) = Some [c]"
proof (induction ps)
  case Nil
  then show ?case by simp
next
  case (Cons p ps)
  show ?case
  proof (cases "p \<noteq> [] \<and> hd p = c")
    case True
    with Cons.prems have "p = [c]" by simp
    then show ?thesis by (simp add: starts_with_def)
  next
    case False
    then have "\<not> (p \<noteq> [] \<and> take (length p) (c # s) = p)" by (cases p) auto
    with Cons False show ?thesis by (auto simp: starts_with_def)
  qed
qed

text \<open>Plain characters: none of them begins or ends the encoding of a space.\<close>

definition plain :: "char \<Rightarrow> bool" where
  "plain c \<longleftrightarrow> 33 \<le> (of_char c :: nat) \<and> (of_char c :: nat) \<le> 126"

lemma white_space_ends:
  "\<forall>p \<in> set white_space. p \<noteq> [] \<and> \<not> plain (hd p) \<and> \<not> plain (last p)"
  by code_simp

lemma TrimSpace_plain: "s = [] \<or> plain (hd s) \<and> plain (last s) \<Longrightarrow> TrimSpace s = s"
proof -
  assume s: "s = [] \<or> plain (hd s) \<and> plain (last s)"
  have "starts_with white_space s = None"
    by (rule starts_with_None) (use s white_space_ends in auto)
  moreover have "starts_with (map rev white_space) (rev s) = None"
    by (rule starts_with_None) (use s white_space_ends in \<open>auto simp: hd_rev\<close>)
  ultimately show "TrimSpace s = s" by (simp add: TrimSpace_def trim_left_id)
qed

lemma TrimSpace_space: "TrimSpace (CHR '' '' # s) = TrimSpace s"
proof -
  have "filter (\<lambda>p. p \<noteq> [] \<and> hd p = CHR '' '') white_space = ['' '']" by code_simp
  then have "starts_with white_space (CHR '' '' # s) = Some '' ''" by (rule starts_with_one)
  then show ?thesis by (simp add: TrimSpace_def trim_left.simps [of white_space "CHR '' '' # s"])
qed

text \<open>\<open>strings.Cut(s, sep)\<close> for a separator of one byte: \<open>None\<close> when it does not occur.\<close>

fun cut_at :: "char \<Rightarrow> string \<Rightarrow> (string \<times> string) option" where
  "cut_at c [] = None"
| "cut_at c (x # xs) =
     (if x = c then Some ([], xs)
      else case cut_at c xs of None \<Rightarrow> None | Some (a, b) \<Rightarrow> Some (x # a, b))"

lemma cut_at_append: "c \<notin> set a \<Longrightarrow> cut_at c (a @ c # b) = Some (a, b)"
  by (induction a) auto

lemma cut_at_None: "cut_at c s = None \<longleftrightarrow> c \<notin> set s"
  by (induction s) (auto split: option.splits)

lemma cut_at_SomeD: "cut_at c s = Some (a, b) \<Longrightarrow> s = a @ c # b \<and> c \<notin> set a"
  by (induction s arbitrary: a) (auto split: if_splits option.splits)

section \<open>Decimal numbers\<close>

text \<open>\<open>strconv.Itoa\<close> and \<open>strconv.Atoi\<close>: an optional sign, one or more digits, in the range of \<open>int\<close>.\<close>

definition digit :: "nat \<Rightarrow> char" where
  "digit d = char_of (48 + d)"

definition digit_val :: "char \<Rightarrow> nat option" where
  "digit_val c = (let n = of_char c in if 48 \<le> n \<and> n \<le> 57 then Some (n - 48) else None)"

function dec :: "nat \<Rightarrow> string" where
  "dec n = (if n < 10 then [digit n] else dec (n div 10) @ [digit (n mod 10)])"
  by pat_completeness auto
termination by (relation "measure (\<lambda>n. n)") auto

declare dec.simps [simp del]

definition Itoa :: "64 word \<Rightarrow> string" where
  "Itoa n = (if sint n < 0 then CHR ''-'' # dec (nat (- sint n)) else dec (nat (sint n)))"

fun parse_digits :: "nat \<Rightarrow> string \<Rightarrow> nat option" where
  "parse_digits n [] = Some n"
| "parse_digits n (c # cs) =
     (case digit_val c of None \<Rightarrow> None | Some d \<Rightarrow> parse_digits (n * 10 + d) cs)"

definition parse_decimal :: "string \<Rightarrow> nat option" where
  "parse_decimal s = (if s = [] then None else parse_digits 0 s)"

definition in_range :: "int \<Rightarrow> 64 word option" where
  "in_range v = (if - (2 ^ 63) \<le> v \<and> v < 2 ^ 63 then Some (word_of_int v) else None)"

definition Atoi :: "string \<Rightarrow> 64 word option" where
  "Atoi s =
     (case s of
        CHR ''-'' # ds \<Rightarrow> (case parse_decimal ds of None \<Rightarrow> None | Some n \<Rightarrow> in_range (- int n))
      | CHR ''+'' # ds \<Rightarrow> (case parse_decimal ds of None \<Rightarrow> None | Some n \<Rightarrow> in_range (int n))
      | _ \<Rightarrow> (case parse_decimal s of None \<Rightarrow> None | Some n \<Rightarrow> in_range (int n)))"

lemma digit_val_digit [simp]: "d < 10 \<Longrightarrow> digit_val (digit d) = Some d"
  by (simp add: digit_val_def digit_def Let_def)

lemma digit_sign: "d < 10 \<Longrightarrow> digit d \<noteq> CHR ''-'' \<and> digit d \<noteq> CHR ''+''"
proof -
  assume d: "d < 10"
  have "(of_char (digit d) :: nat) = 48 + d" using d by (simp add: digit_def)
  moreover have "(of_char CHR ''-'' :: nat) = 45" "(of_char CHR ''+'' :: nat) = 43" by simp_all
  ultimately show ?thesis by force
qed

lemma parse_digits_append: "parse_digits n (xs @ [digit d]) =
   (if d < 10 then map_option (\<lambda>m. m * 10 + d) (parse_digits n xs) else parse_digits n (xs @ [digit d]))"
  by (induction xs arbitrary: n) (auto split: option.splits)

lemma parse_digits_dec: "parse_digits 0 (dec n) = Some n"
proof (induction n rule: dec.induct)
  case (1 n)
  show ?case
  proof (cases "n < 10")
    case True
    then show ?thesis by (simp add: dec.simps)
  next
    case False
    with 1 parse_digits_append [of 0 "dec (n div 10)" "n mod 10"] show ?thesis
      by (simp add: dec.simps [of n])
  qed
qed

lemma dec_not_Nil [simp]: "dec n \<noteq> []"
  by (subst dec.simps) simp

lemma dec_hd: "hd (dec n) \<noteq> CHR ''-'' \<and> hd (dec n) \<noteq> CHR ''+''"
proof (induction n rule: dec.induct)
  case (1 n)
  then show ?case by (subst (1 2) dec.simps) (auto simp: digit_sign)
qed

lemma parse_decimal_dec [simp]: "parse_decimal (dec n) = Some n"
  by (simp add: parse_decimal_def parse_digits_dec)

lemma Atoi_dec: "Atoi (dec n) = in_range (int n)"
proof -
  obtain c cs where d: "dec n = c # cs" by (cases "dec n") auto
  with dec_hd [of n] have "c \<noteq> CHR ''-''" "c \<noteq> CHR ''+''" by simp_all
  then have "Atoi (c # cs) = (case parse_decimal (c # cs) of None \<Rightarrow> None | Some n \<Rightarrow> in_range (int n))"
    unfolding Atoi_def by (simp split: char.splits bool.splits)
  with d [symmetric] show ?thesis by simp
qed

lemma Atoi_minus_dec: "Atoi (CHR ''-'' # dec n) = in_range (- int n)"
  by (simp add: Atoi_def)

section \<open>The client's address\<close>

text \<open>
  The host part of \<open>net.SplitHostPort\<close>: \<open>None\<close> for its errors (no port, too many colons, stray
  brackets). The port starts after the last colon; a bracketed host ends just before it.
\<close>

definition SplitHostPort :: "string \<Rightarrow> string option" where
  "SplitHostPort s =
     (case cut_at CHR '':'' (rev s) of
        None \<Rightarrow> None
      | Some (rport, rbefore) \<Rightarrow>
          if take 1 s = ''['' then
            (case cut_at CHR '']'' s of
               None \<Rightarrow> None
             | Some (inner, rest) \<Rightarrow>
                 if length inner + 1 \<noteq> length rbefore \<or> CHR ''['' \<in> set (tl s) \<or> CHR '']'' \<in> set rest
                 then None else Some (tl inner))
          else if CHR '':'' \<in> set rbefore \<or> CHR ''['' \<in> set s \<or> CHR '']'' \<in> set s then None
          else Some (rev rbefore))"

definition ClientIP :: "string \<Rightarrow> string" where
  "ClientIP remoteAddr = (case SplitHostPort remoteAddr of None \<Rightarrow> remoteAddr | Some host \<Rightarrow> host)"

text \<open>
  The address a client is counted by does not depend on its port, for IPv4 addresses and host
  names as well as for bracketed IPv6 addresses; an address that cannot be split counts as it is.
\<close>

theorem ClientIP_drops_port:
  assumes "CHR '':'' \<notin> set port" "CHR ''['' \<notin> set port" "CHR '']'' \<notin> set port"
    and "CHR ''['' \<notin> set host" "CHR '']'' \<notin> set host"
  shows "(CHR '':'' \<notin> set host \<longrightarrow> ClientIP (host @ '':'' @ port) = host) \<and>
    ClientIP (''['' @ host @ '']:'' @ port) = host \<and>
    (CHR '':'' \<notin> set host \<longrightarrow> ClientIP host = host)"
proof -
  have "cut_at CHR '':'' (rev (h @ '':'' @ port)) = Some (rev port, rev h)" for h
    using cut_at_append [of "CHR '':''" "rev port" "rev h"] assms(1) by simp
  note split = this [of host] this [of "''['' @ host @ '']''"]
  have "take 1 (host @ '':'' @ port) \<noteq> ''[''" using assms(4) by (cases host) auto
  with split(1) assms have "CHR '':'' \<notin> set host \<Longrightarrow> SplitHostPort (host @ '':'' @ port) = Some host"
    by (simp add: SplitHostPort_def)
  moreover have "cut_at CHR '']'' ((CHR ''['' # host) @ CHR '']'' # CHR '':'' # port) =
      Some (CHR ''['' # host, CHR '':'' # port)"
    by (rule cut_at_append) (use assms in simp)
  with split(2) assms have "SplitHostPort (''['' @ host @ '']:'' @ port) = Some host"
    by (simp add: SplitHostPort_def)
  moreover have "CHR '':'' \<notin> set host \<Longrightarrow> SplitHostPort host = None"
    using cut_at_None [of "CHR '':''" "rev host"] by (simp add: SplitHostPort_def)
  ultimately show ?thesis by (simp add: ClientIP_def)
qed

theorem ClientIP_drops_port_witness:
  "ClientIP ''10.0.0.7:51234'' = ''10.0.0.7'' \<and> ClientIP ''[::1]:80'' = ''::1''"
  using ClientIP_drops_port [of "''51234''" "''10.0.0.7''"] ClientIP_drops_port [of "''80''" "''::1''"] by simp

section \<open>The name of a trace span\<close>

text \<open>\<open>^--\s*name:\s*(\S+)\<close>, with the \<open>\s\<close> of Go's regular expressions.\<close>

definition re_space :: "char \<Rightarrow> bool" where
  "re_space c \<longleftrightarrow> c \<in> set (bytes [9, 10, 12, 13, 32])"

definition sqlcQueryName :: "string \<Rightarrow> string option" where
  "sqlcQueryName s =
     (if take 2 s \<noteq> ''--'' then None
      else let s1 = dropWhile re_space (drop 2 s) in
        if take 5 s1 \<noteq> ''name:'' then None
        else let name = takeWhile (\<lambda>c. \<not> re_space c) (dropWhile re_space (drop 5 s1)) in
          if name = [] then None else Some name)"

definition spanNameFromSQL :: "string \<Rightarrow> string" where
  "spanNameFromSQL stmt =
     (let stmt = TrimSpace stmt in
      case sqlcQueryName stmt of
        Some name \<Rightarrow> name
      | None \<Rightarrow> (case cut_at CHR '' '' stmt of Some (first, _) \<Rightarrow> first | None \<Rightarrow> stmt))"

text \<open>Trimming stops at a plain character.\<close>

lemma trim_left_keeps:
  assumes "\<forall>p \<in> set ps. \<forall>c \<in> set p. \<not> plain c" "b \<noteq> []" "plain (hd b)"
  shows "\<exists>k. trim_left ps (a @ b) = drop k a @ b"
proof (induction a rule: length_induct)
  case (1 a)
  show ?case
  proof (cases "starts_with ps (a @ b)")
    case None
    then have "trim_left ps (a @ b) = drop 0 a @ b" by (simp add: trim_left_id)
    then show ?thesis by blast
  next
    case (Some p)
    then have p: "p \<in> set ps" "p \<noteq> []" "take (length p) (a @ b) = p"
      by (auto simp: starts_with_def find_Some_iff)
    have len: "length p \<le> length a"
    proof (rule ccontr)
      assume "\<not> length p \<le> length a"
      then have "hd b \<in> set (take (length p) (a @ b))"
        using assms(2) by (cases b) (auto simp: take_Cons')
      with p assms(1,3) show False by auto
    qed
    with p(2) have "length (drop (length p) a) < length a" by (cases p) auto
    with 1 obtain k where "trim_left ps (drop (length p) a @ b) = drop k (drop (length p) a) @ b" by blast
    moreover have "trim_left ps (a @ b) = trim_left ps (drop (length p) a @ b)"
      using Some len by (simp add: trim_left.simps [of ps "a @ b"])
    ultimately show ?thesis by (metis drop_drop)
  qed
qed

lemma white_space_not_plain: "\<forall>p \<in> set white_space. \<forall>c \<in> set p. \<not> plain c"
  by code_simp

lemma TrimSpace_prefix:
  assumes "a \<noteq> []" "plain (hd a)" "plain (last a)"
  shows "\<exists>k. TrimSpace (a @ b) = a @ take k b"
proof -
  have "starts_with white_space (a @ b) = None"
    by (rule starts_with_None) (use assms white_space_ends in auto)
  moreover have "\<exists>k. trim_left (map rev white_space) (rev b @ rev a) = drop k (rev b) @ rev a"
    by (rule trim_left_keeps) (use assms white_space_not_plain in \<open>auto simp: hd_rev\<close>)
  ultimately obtain k where "TrimSpace (a @ b) = a @ rev (drop k (rev b))"
    by (auto simp: TrimSpace_def trim_left_id)
  then show ?thesis by (auto simp: rev_drop)
qed

lemma plain_not_space: "plain c \<Longrightarrow> \<not> re_space c \<and> c \<noteq> CHR '' ''"
  by (auto simp: plain_def re_space_def bytes_def)

lemma re_space_chars: "re_space CHR '' ''" "\<not> re_space CHR ''n''"
  by code_simp+

lemma sqlcQueryName_name:
  assumes "n \<noteq> []" "\<forall>c \<in> set n. plain c"
  shows "sqlcQueryName (''-- name: '' @ n @ take k (CHR '' '' # rest)) = Some n"
proof -
  let ?s = "n @ take k (CHR '' '' # rest)"
  have plain: "\<forall>c \<in> set n. \<not> re_space c" using assms(2) plain_not_space by blast
  have "takeWhile (\<lambda>c. \<not> re_space c) (take k (CHR '' '' # rest)) = []"
    by (cases k) (simp_all add: re_space_chars)
  with plain have "takeWhile (\<lambda>c. \<not> re_space c) ?s = n" by simp
  moreover have "dropWhile re_space ?s = ?s" using assms(1) plain by (cases n) simp_all
  ultimately show ?thesis using assms(1)
    by (simp only: sqlcQueryName_def append_Cons append_Nil) (simp add: re_space_chars)
qed

lemma sqlcQueryName_other:
  assumes "n \<noteq> []" "take 2 n \<noteq> ''--''"
  shows "sqlcQueryName (n @ take k (CHR '' '' # rest)) = None"
proof -
  obtain c m where n: "n = c # m" using assms(1) by (cases n) auto
  have "take 2 (n @ take k (CHR '' '' # rest)) \<noteq> ''--''"
    using assms(2) n by (cases m; cases k) auto
  then show ?thesis by (simp add: sqlcQueryName_def)
qed

lemma first_word:
  assumes "CHR '' '' \<notin> set n"
  shows "(case cut_at CHR '' '' (n @ take k (CHR '' '' # rest)) of Some (first, _) \<Rightarrow> first
      | None \<Rightarrow> n @ take k (CHR '' '' # rest)) = n"
proof (cases k)
  case 0
  with assms cut_at_None [of "CHR '' ''" n] show ?thesis by simp
next
  case (Suc j)
  with cut_at_append [OF assms, of "take j rest"] show ?thesis by simp
qed

text \<open>
  Every statement \<open>sqlc\<close> generates is traced under the name of its query, whatever follows the
  name; any other statement under its first word.
\<close>

theorem spanNameFromSQL_name:
  assumes "n \<noteq> []" "\<forall>c \<in> set n. plain c"
  shows "spanNameFromSQL (''-- name: '' @ n @ '' '' @ rest) = n \<and>
    (take 2 n \<noteq> ''--'' \<longrightarrow> spanNameFromSQL (n @ '' '' @ rest) = n \<and> spanNameFromSQL n = n)"
proof -
  have ends: "plain (hd n)" "plain (last n)" and "CHR '' '' \<notin> set n"
    using assms plain_not_space by auto
  note word = first_word [OF this(3)]
  have "\<exists>k. TrimSpace ((''-- name: '' @ n) @ '' '' @ rest) = (''-- name: '' @ n) @ take k ('' '' @ rest)"
    by (rule TrimSpace_prefix) (use assms ends in \<open>auto simp: plain_def\<close>)
  then obtain k where "TrimSpace (''-- name: '' @ n @ '' '' @ rest) = ''-- name: '' @ n @ take k (CHR '' '' # rest)"
    by auto
  with sqlcQueryName_name [OF assms, of k rest] have "spanNameFromSQL (''-- name: '' @ n @ '' '' @ rest) = n"
    by (simp add: spanNameFromSQL_def)
  moreover have "spanNameFromSQL (n @ take j (CHR '' '' # rest)) = n" if n2: "take 2 n \<noteq> ''--''" for j
  proof -
    from TrimSpace_prefix [OF assms(1) ends, of "take j (CHR '' '' # rest)"] obtain k where
      "TrimSpace (n @ take j (CHR '' '' # rest)) = n @ take (min k j) (CHR '' '' # rest)" by (auto simp: take_take)
    with sqlcQueryName_other [OF assms(1) n2, of "min k j" rest] word [of "min k j" rest]
    show ?thesis by (simp add: spanNameFromSQL_def)
  qed
  from this [of 0] this [of "Suc (length rest)"]
  have "take 2 n \<noteq> ''--'' \<Longrightarrow> spanNameFromSQL (n @ '' '' @ rest) = n \<and> spanNameFromSQL n = n" by simp
  ultimately show ?thesis by blast
qed

theorem spanNameFromSQL_name_witness:
  "spanNameFromSQL ''-- name: CreateOrder :one INSERT INTO orders '' = ''CreateOrder'' \<and>
   spanNameFromSQL ''begin'' = ''begin''"
  using spanNameFromSQL_name [of "''CreateOrder''" "'':one INSERT INTO orders ''"]
    spanNameFromSQL_name [of "''begin''"] by (simp add: plain_def)

section \<open>Numbers in query parameters\<close>

text \<open>
  The decimal text of an integer reads back as that integer, and text that spells a number
  outside the 64-bit range is refused, never wrapped.
\<close>

theorem Atoi_Itoa:
  "Atoi (Itoa n) = Some n \<and>
   (Atoi (dec m) = None \<longleftrightarrow> 2 ^ 63 \<le> m) \<and> (Atoi (CHR ''-'' # dec m) = None \<longleftrightarrow> 2 ^ 63 < m)"
proof -
  have "in_range (sint n) = Some n"
    using sint_range_size [of n] by (simp add: in_range_def word_size)
  then have "Atoi (Itoa n) = Some n"
    by (simp add: Itoa_def Atoi_dec Atoi_minus_dec)
  moreover have "Atoi (dec m) = None \<longleftrightarrow> 2 ^ 63 \<le> m"
    by (simp add: Atoi_dec in_range_def)
  moreover have "Atoi (CHR ''-'' # dec m) = None \<longleftrightarrow> 2 ^ 63 < m"
    by (simp add: Atoi_minus_dec in_range_def)
  ultimately show ?thesis by blast
qed

end
