(* ===== verification/Auth.thy ===== *)
theory Auth
  imports Text Sample
begin

text \<open>
  Tokens (\<open>auth/jwt.go\<close>) and the middleware that requires one (\<open>Auth\<close> of \<open>middleware/auth.go\<close>). The JWT
  library is a parameter, with what its documentation promises as a named hypothesis.
\<close>

section \<open>The JWT library\<close>

record JWTManager =
  jm_Secret :: string
  jm_Expiry :: time

record UserClaims =
  uc_UserID :: uuid
  uc_Subject :: string
  uc_IssuedAt :: time
  uc_ExpiresAt :: "time option"

datatype signing_method = HS256 | OtherMethod string

text \<open>What \<open>ParseWithClaims\<close> returns: the error, \<open>token.Valid\<close>, and the claims it filled in.\<close>

record parsed =
  tok_err :: "go_error option"
  tok_valid :: bool
  tok_claims :: UserClaims

text \<open>
  The functions of the library the code calls, \<open>uuid.UUID.String\<close>, and what a token carries: its
  algorithm, its claims, and whether its signature verifies under a method and a key.
\<close>

record jwt_lib =
  uuid_String :: "uuid \<Rightarrow> string"
  NewNumericDate :: "time \<Rightarrow> time"
  SignedString :: "signing_method \<Rightarrow> string \<Rightarrow> UserClaims \<Rightarrow> go_error + string"
  ParseWithClaims :: "(signing_method \<Rightarrow> go_error + string) \<Rightarrow> time \<Rightarrow> string \<Rightarrow> parsed"
  carried_alg :: "string \<Rightarrow> signing_method option"
  carried_claims :: "string \<Rightarrow> UserClaims option"
  signature_ok :: "signing_method \<Rightarrow> string \<Rightarrow> string \<Rightarrow> bool"

text \<open>A token is accepted when the key function accepts its algorithm, the signature verifies and it is in its time.\<close>

definition acceptable :: "jwt_lib \<Rightarrow> (signing_method \<Rightarrow> go_error + string) \<Rightarrow> time \<Rightarrow> string \<Rightarrow> UserClaims \<Rightarrow> bool" where
  "acceptable lib kf now tok c \<longleftrightarrow>
     (\<exists>m s. carried_alg lib tok = Some m \<and> kf m = Inr s \<and> signature_ok lib m s tok) \<and>
     carried_claims lib tok = Some c \<and> uc_IssuedAt c \<le> now \<and>
     (case uc_ExpiresAt c of None \<Rightarrow> True | Some t \<Rightarrow> now < t)"

text \<open>
  Documented: \<open>ParseWithClaims\<close> returns an error exactly when the token is not acceptable, \<open>Valid\<close> is
  set exactly when there is none; \<open>SignedString\<close> makes a token of base64url text and dots that carries
  the claims and verifies; a numeric date is cut to the second.
\<close>

definition jwt_laws :: "jwt_lib \<Rightarrow> bool" where
  "jwt_laws lib \<longleftrightarrow>
     (\<forall>kf now tok. let p = ParseWithClaims lib kf now tok in
        (tok_err p = None \<longleftrightarrow> (\<exists>c. acceptable lib kf now tok c)) \<and>
        (\<forall>c. acceptable lib kf now tok c \<longrightarrow> tok_claims p = c) \<and>
        (tok_valid p \<longleftrightarrow> tok_err p = None)) \<and>
     (\<forall>m s c tok. SignedString lib m s c = Inr tok \<longrightarrow>
        carried_alg lib tok = Some m \<and> carried_claims lib tok = Some c \<and> signature_ok lib m s tok \<and>
        tok \<noteq> [] \<and> (\<forall>ch \<in> set tok. plain ch)) \<and>
     (\<forall>t. t - 1000000 < NewNumericDate lib t \<and> NewNumericDate lib t \<le> t)"

section \<open>The code\<close>

definition GenerateToken :: "jwt_lib \<Rightarrow> JWTManager \<Rightarrow> uuid \<Rightarrow> time \<Rightarrow> go_error + string" where
  "GenerateToken lib m userID now =
     SignedString lib HS256 (jm_Secret m)
       \<lparr>uc_UserID = userID, uc_Subject = uuid_String lib userID,
        uc_IssuedAt = NewNumericDate lib now,
        uc_ExpiresAt = Some (NewNumericDate lib (now + jm_Expiry m))\<rparr>"

definition key_for :: "string \<Rightarrow> signing_method \<Rightarrow> go_error + string" where
  "key_for secret m = (if m \<noteq> HS256 then Inl (OtherErr ''invalid jwt method'') else Inr secret)"

text \<open>\<open>ValidateToken\<close> returns the claims and the error; where \<open>Valid\<close> is false without an error, both are nil.\<close>

definition ValidateToken :: "jwt_lib \<Rightarrow> string \<Rightarrow> time \<Rightarrow> string \<Rightarrow> UserClaims option \<times> go_error option" where
  "ValidateToken lib secret now tokenString =
     (let p = ParseWithClaims lib (key_for secret) now tokenString in
      case tok_err p of
        Some err \<Rightarrow> (None, Some err)
      | None \<Rightarrow> if \<not> tok_valid p then (None, None) else (Some (tok_claims p), None))"

text \<open>The middleware: 401, the next handler with the user in its context, or a nil dereference.\<close>

datatype auth_result = Unauthorized | NilDereference | Authenticated uuid

definition Auth :: "jwt_lib \<Rightarrow> JWTManager \<Rightarrow> time \<Rightarrow> string \<Rightarrow> auth_result" where
  "Auth lib m now header =
     (let tokenString = TrimSpace (TrimPrefix header ''Bearer'') in
      case ValidateToken lib (jm_Secret m) now tokenString of
        (_, Some err) \<Rightarrow> Unauthorized
      | (Some c, None) \<Rightarrow> Authenticated (uc_UserID c)
      | (None, None) \<Rightarrow> NilDereference)"

section \<open>What the middleware accepts\<close>

lemma jwt_lawsD:
  assumes "jwt_laws lib"
  shows "tok_err (ParseWithClaims lib kf now tok) = None \<longleftrightarrow> (\<exists>c. acceptable lib kf now tok c)"
    "acceptable lib kf now tok c \<Longrightarrow> tok_claims (ParseWithClaims lib kf now tok) = c"
    "tok_valid (ParseWithClaims lib kf now tok) \<longleftrightarrow> tok_err (ParseWithClaims lib kf now tok) = None"
    "SignedString lib m s c = Inr t \<Longrightarrow>
       carried_alg lib t = Some m \<and> carried_claims lib t = Some c \<and> signature_ok lib m s t \<and>
       t \<noteq> [] \<and> (\<forall>ch \<in> set t. plain ch)"
    "d - 1000000 < NewNumericDate lib d" "NewNumericDate lib d \<le> d"
  using assms unfolding jwt_laws_def Let_def by blast+

lemma Auth_acceptable:
  assumes "jwt_laws lib"
  shows "Auth lib m now header =
    (case carried_claims lib (TrimSpace (TrimPrefix header ''Bearer'')) of
       None \<Rightarrow> Unauthorized
     | Some c \<Rightarrow> if acceptable lib (key_for (jm_Secret m)) now (TrimSpace (TrimPrefix header ''Bearer'')) c
                 then Authenticated (uc_UserID c) else Unauthorized)"
proof -
  let ?tok = "TrimSpace (TrimPrefix header ''Bearer'')" and ?kf = "key_for (jm_Secret m)"
  let ?p = "ParseWithClaims lib ?kf now ?tok"
  note laws = jwt_lawsD [OF assms]
  show ?thesis
  proof (cases "tok_err ?p")
    case None
    then obtain c where c: "acceptable lib ?kf now ?tok c" using laws(1) by blast
    then have "carried_claims lib ?tok = Some c" by (simp add: acceptable_def)
    with None c laws(2) [OF c] laws(3) show ?thesis by (simp add: Auth_def ValidateToken_def Let_def)
  next
    case (Some e)
    then have "\<not> acceptable lib ?kf now ?tok c" for c using laws(1) [of ?kf now ?tok] by auto
    with Some show ?thesis by (simp add: Auth_def ValidateToken_def Let_def split: option.splits)
  qed
qed

lemma bearer_token: "t \<noteq> [] \<Longrightarrow> \<forall>ch \<in> set t. plain ch \<Longrightarrow> TrimSpace (TrimPrefix (''Bearer '' @ t) ''Bearer'') = t"
  by (simp add: TrimPrefix_def TrimSpace_space TrimSpace_plain)

lemma token_round_trip:
  assumes "jwt_laws lib" and t: "GenerateToken lib m u issued = Inr tok" and "issued \<le> now"
  shows "now + 1000000 \<le> issued + jm_Expiry m \<Longrightarrow> Auth lib m now (''Bearer '' @ tok) = Authenticated u"
    and "issued + jm_Expiry m \<le> now \<Longrightarrow> Auth lib m now (''Bearer '' @ tok) = Unauthorized"
proof -
  note laws = jwt_lawsD [OF assms(1)]
  note signed = laws(4) [OF t [unfolded GenerateToken_def]]
  then have b: "TrimSpace (TrimPrefix (''Bearer '' @ tok) ''Bearer'') = tok" by (intro bearer_token) auto
  note dates = laws(5,6) [of issued] laws(5,6) [of "issued + jm_Expiry m"]
  have "Auth lib m now (''Bearer '' @ tok) =
      (if now < NewNumericDate lib (issued + jm_Expiry m) then Authenticated u else Unauthorized)"
    unfolding Auth_acceptable [OF assms(1)] b
    using signed assms(3) dates by (auto simp: acceptable_def key_for_def)
  with dates show "now + 1000000 \<le> issued + jm_Expiry m \<Longrightarrow> Auth lib m now (''Bearer '' @ tok) = Authenticated u"
    and "issued + jm_Expiry m \<le> now \<Longrightarrow> Auth lib m now (''Bearer '' @ tok) = Unauthorized" by auto
qed

section \<open>A sample library\<close>

text \<open>
  A library to evaluate the properties at: its tokens spell the user and the two dates in decimal,
  followed by the one key it signs under.
\<close>

definition sample_encode :: "UserClaims \<Rightarrow> string" where
  "sample_encode c = dec (unat (uc_UserID c)) @ ''.'' @ dec (nat (uc_IssuedAt c)) @ ''.'' @
     dec (nat (the (uc_ExpiresAt c))) @ ''.key''"

definition sample_decode :: "string \<Rightarrow> UserClaims option" where
  "sample_decode tok =
     (case cut_at CHR ''.'' tok of None \<Rightarrow> None | Some (a, rest) \<Rightarrow>
      case cut_at CHR ''.'' rest of None \<Rightarrow> None | Some (b, rest) \<Rightarrow>
      case cut_at CHR ''.'' rest of None \<Rightarrow> None | Some (d, key) \<Rightarrow>
        if key \<noteq> ''key'' then None
        else case (parse_decimal a, parse_decimal b, parse_decimal d) of
          (Some u, Some i, Some e) \<Rightarrow>
            Some \<lparr>uc_UserID = of_nat u, uc_Subject = [], uc_IssuedAt = int i, uc_ExpiresAt = Some (int e)\<rparr>
        | _ \<Rightarrow> None)"

definition sample_signable :: "signing_method \<Rightarrow> string \<Rightarrow> UserClaims \<Rightarrow> bool" where
  "sample_signable m s c \<longleftrightarrow> m = HS256 \<and> s = ''key'' \<and> uc_Subject c = [] \<and> 0 \<le> uc_IssuedAt c \<and>
     (case uc_ExpiresAt c of None \<Rightarrow> False | Some t \<Rightarrow> 0 \<le> t)"

definition sample_accepts :: "(signing_method \<Rightarrow> go_error + string) \<Rightarrow> time \<Rightarrow> UserClaims \<Rightarrow> bool" where
  "sample_accepts kf now c \<longleftrightarrow> kf HS256 = Inr ''key'' \<and> uc_IssuedAt c \<le> now \<and>
     (case uc_ExpiresAt c of None \<Rightarrow> True | Some t \<Rightarrow> now < t)"

definition no_claims :: UserClaims where
  "no_claims = \<lparr>uc_UserID = 0, uc_Subject = [], uc_IssuedAt = 0, uc_ExpiresAt = None\<rparr>"

definition sample_jwt :: jwt_lib where
  "sample_jwt = \<lparr>
     uuid_String = (\<lambda>u. []),
     NewNumericDate = (\<lambda>t. t - t mod 1000000),
     SignedString = (\<lambda>m s c. if sample_signable m s c then Inr (sample_encode c) else Inl (OtherErr ''key'')),
     ParseWithClaims = (\<lambda>kf now tok.
       case sample_decode tok of
         None \<Rightarrow> \<lparr>tok_err = Some (OtherErr ''malformed''), tok_valid = False, tok_claims = no_claims\<rparr>
       | Some c \<Rightarrow> \<lparr>tok_err = (if sample_accepts kf now c then None else Some (OtherErr ''invalid'')),
                     tok_valid = sample_accepts kf now c, tok_claims = c\<rparr>),
     carried_alg = (\<lambda>tok. map_option (\<lambda>c. HS256) (sample_decode tok)),
     carried_claims = sample_decode,
     signature_ok = (\<lambda>m s tok. m = HS256 \<and> s = ''key'' \<and> sample_decode tok \<noteq> None)\<rparr>"

definition sample_manager :: JWTManager where
  "sample_manager = \<lparr>jm_Secret = ''key'', jm_Expiry = 3600000000\<rparr>"

lemma dec_plain: "\<forall>c \<in> set (dec n). plain c \<and> c \<noteq> CHR ''.''"
proof (induction n rule: dec.induct)
  case (1 n)
  have "plain (digit d) \<and> digit d \<noteq> CHR ''.''" if "d < 10" for d
  proof -
    have v: "(of_char (digit d) :: nat) = 48 + d" using that by (simp add: digit_def)
    moreover have "(of_char CHR ''.'' :: nat) = 46" by simp
    ultimately have "digit d \<noteq> CHR ''.''" by force
    with v that show ?thesis by (simp add: plain_def)
  qed
  with 1 show ?case by (subst dec.simps) auto
qed

lemma sample_decode_encode:
  assumes "sample_signable m s c"
  shows "sample_decode (sample_encode c) = Some c"
proof -
  have cut: "cut_at CHR ''.'' (dec n @ CHR ''.'' # r) = Some (dec n, r)" for n r
    by (rule cut_at_append) (use dec_plain in blast)
  obtain t where "uc_ExpiresAt c = Some t" "0 \<le> t" "0 \<le> uc_IssuedAt c" "uc_Subject c = []"
    using assms by (auto simp: sample_signable_def split: option.splits)
  then show ?thesis by (cases c) (simp add: sample_decode_def sample_encode_def cut)
qed

lemma sample_jwt_laws: "jwt_laws sample_jwt"
proof -
  have parse: "tok_err (ParseWithClaims sample_jwt kf now tok) = None \<longleftrightarrow> (\<exists>c. acceptable sample_jwt kf now tok c)"
    "acceptable sample_jwt kf now tok c \<Longrightarrow> tok_claims (ParseWithClaims sample_jwt kf now tok) = c"
    "tok_valid (ParseWithClaims sample_jwt kf now tok) \<longleftrightarrow> tok_err (ParseWithClaims sample_jwt kf now tok) = None"
    for kf now tok c
    by (auto simp: sample_jwt_def acceptable_def sample_accepts_def split: option.splits)
  have "sample_encode c \<noteq> [] \<and> (\<forall>ch \<in> set (sample_encode c). plain ch)" for c
    using dec_plain by (auto simp: sample_encode_def plain_def)
  then have "SignedString sample_jwt m s c = Inr tok \<Longrightarrow>
      carried_alg sample_jwt tok = Some m \<and> carried_claims sample_jwt tok = Some c \<and>
      signature_ok sample_jwt m s tok \<and> tok \<noteq> [] \<and> (\<forall>ch \<in> set tok. plain ch)" for m s c tok
    using sample_decode_encode [of m s c] by (auto simp: sample_jwt_def sample_signable_def split: if_splits)
  with parse show ?thesis
    unfolding jwt_laws_def Let_def by (auto simp: sample_jwt_def)
qed

section \<open>Properties\<close>



text \<open>
  A token the server generates authenticates its user until a second before it expires (numeric
  dates are cut to seconds), and is refused from its expiry on.
\<close>

theorem GenerateToken_Auth:
  assumes "jwt_laws lib" and "GenerateToken lib m u issued = Inr tok" and "issued \<le> now"
  shows "(now + 1000000 \<le> issued + jm_Expiry m \<longrightarrow> Auth lib m now (''Bearer '' @ tok) = Authenticated u) \<and>
    (issued + jm_Expiry m \<le> now \<longrightarrow> Auth lib m now (''Bearer '' @ tok) = Unauthorized)"
  using token_round_trip [OF assms] by blast

theorem GenerateToken_Auth_witness:
  "\<exists>tok. GenerateToken sample_jwt sample_manager 1 0 = Inr tok \<and>
     Auth sample_jwt sample_manager 7 (''Bearer '' @ tok) = Authenticated 1 \<and>
     Auth sample_jwt sample_manager 3600000000 (''Bearer '' @ tok) = Unauthorized"
proof -
  obtain tok where "GenerateToken sample_jwt sample_manager 1 0 = Inr tok"
    by (simp add: GenerateToken_def sample_jwt_def sample_manager_def sample_signable_def)
  with GenerateToken_Auth [OF sample_jwt_laws this, of 7] GenerateToken_Auth [OF sample_jwt_laws this, of 3600000000]
  show ?thesis by (simp add: sample_manager_def)
qed

end
