(* ===== verification/Users.thy ===== *)
theory Users
  imports Auth
begin

text \<open>
  Users: the SQL statements (\<open>user/sqlc/user.sql.go\<close>), the repository (\<open>user_repository.go\<close>) and the
  service (\<open>user_service.go\<close>) that registers them and logs them in. The service is written against
  the repository interface, whose contract is the locale \<open>user_repo\<close>; bcrypt is a parameter.
\<close>

record User =
  User_ID :: uuid
  User_Email :: string
  User_PasswordHash :: string
  User_CreatedAt :: time
  User_UpdatedAt :: time

record RegisterRequest =
  rr_Email :: string
  rr_Password :: string

record LoginRequest =
  lr_Email :: string
  lr_Password :: string

section \<open>The SQL statements\<close>

definition new_user :: "string \<Rightarrow> string \<Rightarrow> uuid \<Rightarrow> time \<Rightarrow> user_row" where
  "new_user email password_hash u now =
     \<lparr>u_id = u, u_email = email, u_password_hash = password_hash, u_created_at = now, u_updated_at = now\<rparr>"

definition createUser :: "(string \<Rightarrow> string) \<Rightarrow> string \<Rightarrow> string \<Rightarrow> uuid \<Rightarrow> user_row sql" where
  "createUser lower email password_hash u now t =
     (let r = new_user email password_hash u now in
      if \<not> user_check lower r then Inl (PgError CheckViolation)
      else if u \<in> u_id ` set (t_users t) \<or> email \<in> u_email ` set (t_users t)
      then Inl (PgError UniqueViolation)
      else Inr (r, t\<lparr>t_users := t_users t @ [r]\<rparr>, []))"

definition sql_CreateUser :: "string \<Rightarrow> string \<Rightarrow> user_row db_op" where
  "sql_CreateUser email password_hash w = exec_insert (createUser (env_lower (env w)) email password_hash) w"

definition getUserByEmail :: "string \<Rightarrow> tables \<Rightarrow> user_row list" where
  "getUserByEmail email t = filter (\<lambda>r. u_email r = email) (t_users t)"

definition sql_GetUserByEmail :: "string \<Rightarrow> user_row db_op" where
  "sql_GetUserByEmail email = query_rows (getUserByEmail email) one_row"

section \<open>The repository\<close>

definition userFromSqlc :: "user_row \<Rightarrow> User" where
  "userFromSqlc r = \<lparr>User_ID = u_id r, User_Email = u_email r, User_PasswordHash = u_password_hash r,
     User_CreatedAt = u_created_at r, User_UpdatedAt = u_updated_at r\<rparr>"

lemma userFromSqlc_simps [simp]:
  "User_ID (userFromSqlc r) = u_id r" "User_PasswordHash (userFromSqlc r) = u_password_hash r"
  "User_Email (userFromSqlc r) = u_email r"
  by (simp_all add: userFromSqlc_def)

definition repo_GetUserByEmail :: "string \<Rightarrow> User db_op" where
  "repo_GetUserByEmail email =
     map_ok userFromSqlc (map_err (Wrapped ''error in get user by email'') (sql_GetUserByEmail email))"

definition repo_CreateUser :: "string \<Rightarrow> string \<Rightarrow> User db_op" where
  "repo_CreateUser email passwordHash =
     map_ok userFromSqlc (map_err (Wrapped ''error in create user'') (sql_CreateUser email passwordHash))"

record 's user_repository =
  ur_Get :: "string \<Rightarrow> ('s, go_error, User) op"
  ur_Create :: "string \<Rightarrow> string \<Rightarrow> ('s, go_error, User) op"

definition pg_user_repository :: "world user_repository" where
  "pg_user_repository = \<lparr>ur_Get = repo_GetUserByEmail, ur_Create = repo_CreateUser\<rparr>"

section \<open>The service\<close>

text \<open>
  \<open>bcrypt.GenerateFromPassword\<close> draws a salt, here the number of the draw; \<open>CompareHashAndPassword\<close>
  says whether the password is the one that was hashed.
\<close>

record bcrypt_lib =
  GenerateFromPassword :: "nat \<Rightarrow> string \<Rightarrow> go_error + string"
  CompareHashAndPassword :: "string \<Rightarrow> string \<Rightarrow> go_error option"

definition hashPassword :: "bcrypt_lib \<Rightarrow> string \<Rightarrow> string db_op" where
  "hashPassword bc password w =
     (GenerateFromPassword bc (draw_no w) password, w\<lparr>draw_no := Suc (draw_no w)\<rparr>)"

definition comparePassword :: "bcrypt_lib \<Rightarrow> string \<Rightarrow> string \<Rightarrow> go_error option" where
  "comparePassword bc passwordHash password = CompareHashAndPassword bc passwordHash password"

text \<open>\<open>Register\<close> ignores the error of its first query: only a user it finds stops it.\<close>

definition svc_Register ::
  "'s user_repository \<Rightarrow> (string \<Rightarrow> ('s, go_error, string) op) \<Rightarrow> RegisterRequest \<Rightarrow> ('s, go_error, User) op" where
  "svc_Register ur hash req s =
     (case ur_Get ur (rr_Email req) s of
        (Inr existingUser, s1) \<Rightarrow> (Inl (UserErr ErrEmailRegistered), s1)
      | (Inl _, s1) \<Rightarrow>
          and_then (map_err (Wrapped ''error in hashing password'') (hash (rr_Password req)))
            (\<lambda>passwordHash. ur_Create ur (rr_Email req) passwordHash) s1)"

definition svc_Login ::
  "'s user_repository \<Rightarrow> (string \<Rightarrow> string \<Rightarrow> go_error option) \<Rightarrow> (uuid \<Rightarrow> ('s, go_error, string) op) \<Rightarrow>
   LoginRequest \<Rightarrow> ('s, go_error, string) op" where
  "svc_Login ur compare generate req =
     and_then (map_err (\<lambda>err. if errors_Is err ErrNoRows then UserErr ErrLoginGeneric else err)
         (ur_Get ur (lr_Email req)))
       (\<lambda>existingUser.
         case compare (User_PasswordHash existingUser) (lr_Password req) of
           Some err \<Rightarrow> fail (UserErr ErrLoginGeneric)
         | None \<Rightarrow> generate (User_ID existingUser))"

text \<open>The service over PostgreSQL, bcrypt and the tokens of \<^theory_text>\<open>Auth\<close>, which read the application's clock.\<close>

definition token_now :: "jwt_lib \<Rightarrow> JWTManager \<Rightarrow> uuid \<Rightarrow> string db_op" where
  "token_now lib m userID w = (GenerateToken lib m userID (env_app_clock (env w) (stmt_no w)), w)"

definition Register :: "bcrypt_lib \<Rightarrow> RegisterRequest \<Rightarrow> User db_op" where
  "Register bc = svc_Register pg_user_repository (hashPassword bc)"

definition Login :: "bcrypt_lib \<Rightarrow> jwt_lib \<Rightarrow> JWTManager \<Rightarrow> LoginRequest \<Rightarrow> string db_op" where
  "Login bc lib m = svc_Login pg_user_repository (comparePassword bc) (token_now lib m)"

section \<open>The contract\<close>

text \<open>\<open>users s\<close> is the user each email names; emails are stored in lower case.\<close>

locale user_repo =
  fixes ur :: "'s user_repository"
    and users :: "'s \<Rightarrow> string \<Rightarrow> user_row option"
    and lower :: "'s \<Rightarrow> string \<Rightarrow> string"
    and ok :: "'s \<Rightarrow> bool"
  assumes get: "ok s \<Longrightarrow> ur_Get ur email s = (r, s') \<Longrightarrow> ok s' \<and> users s' = users s \<and> lower s' = lower s \<and>
      ((\<exists>msg. r = Inl (Wrapped msg ErrConn)) \<or>
       (case users s email of
          None \<Rightarrow> \<exists>msg. r = Inl (Wrapped msg ErrNoRows) | Some row \<Rightarrow> r = Inr (userFromSqlc row)))"
    and create: "ok s \<Longrightarrow> ur_Create ur email h s = (r, s') \<Longrightarrow> ok s' \<and> lower s' = lower s \<and>
      (users s' = users s \<and> isl r \<and> r \<noteq> Inl (UserErr ErrEmailRegistered) \<or>
       users s email = None \<and> lower s email = email \<and>
         (\<exists>u now. users s' = (users s)(email \<mapsto> new_user email h u now) \<and>
            (isl r \<or> r = Inr (userFromSqlc (new_user email h u now)))))"
begin

lemma register:
  assumes "ok s" "svc_Register ur hash req s = (r, s')"
    and hash: "\<And>p s q s'. ok s \<Longrightarrow> hash p s = (q, s') \<Longrightarrow> ok s' \<and> users s' = users s \<and> lower s' = lower s"
  shows "ok s' \<and> lower s' = lower s \<and>
    (isl r \<and> users s' = users s \<or>
     users s (rr_Email req) = None \<and> lower s (rr_Email req) = rr_Email req \<and>
       (\<exists>s1 s2 h u now. hash (rr_Password req) s1 = (Inr h, s2) \<and>
          users s' = (users s)(rr_Email req \<mapsto> new_user (rr_Email req) h u now) \<and>
          (isl r \<or> r = Inr (userFromSqlc (new_user (rr_Email req) h u now)))))"
proof -
  obtain g s1 where g: "ur_Get ur (rr_Email req) s = (g, s1)" by fastforce
  note got = get [OF assms(1) g]
  show ?thesis
  proof (cases g)
    case (Inr user)
    with assms(2) g have "s' = s1" "isl r" by (auto simp: svc_Register_def)
    with got show ?thesis by blast
  next
    case (Inl e)
    obtain h s2 where h: "hash (rr_Password req) s1 = (h, s2)" by fastforce
    note hashed = hash [OF conjunct1 [OF got] h]
    show ?thesis
    proof (cases h)
      case (Inl e')
      with assms(2) g \<open>g = Inl e\<close> h have "s' = s2" "isl r"
        by (auto simp: svc_Register_def and_then_def map_err_def)
      with got hashed show ?thesis by auto
    next
      case (Inr p)
      with assms(2) g \<open>g = Inl e\<close> h have "ur_Create ur (rr_Email req) p s2 = (r, s')"
        by (auto simp: svc_Register_def and_then_def map_err_def)
      from create [OF conjunct1 [OF hashed] this] got hashed h Inr show ?thesis by fastforce
    qed
  qed
qed

lemma register_taken:
  assumes "ok s" "svc_Register ur hash req s = (r, s')" "users s (rr_Email req) \<noteq> None"
    and hash: "\<And>p s q s'. ok s \<Longrightarrow> hash p s = (q, s') \<Longrightarrow> ok s' \<and> users s' = users s \<and> lower s' = lower s"
  shows "isl r \<and> users s' = users s"
  using register [OF assms(1,2) hash] assms(3) by auto

lemma login:
  assumes "ok s" "svc_Login ur compare generate req s = (r, s')"
    and gen: "\<And>u s q s'. generate u s = (q, s') \<Longrightarrow> s' = s"
  shows "ok s' \<and> users s' = users s \<and>
    (isl r \<and> (\<exists>msg. r = Inl (Wrapped msg ErrConn)) \<or>
     (case users s (lr_Email req) of
        None \<Rightarrow> r = Inl (UserErr ErrLoginGeneric)
      | Some row \<Rightarrow>
          if compare (u_password_hash row) (lr_Password req) = None
          then generate (u_id row) s' = (r, s') else r = Inl (UserErr ErrLoginGeneric)))"
proof -
  obtain g s1 where g: "ur_Get ur (lr_Email req) s = (g, s1)" by fastforce
  note got = get [OF assms(1) g]
  show ?thesis
  proof (cases g)
    case (Inl e)
    with assms(2) g got have "s' = s1"
      "r = Inl (if errors_Is e ErrNoRows then UserErr ErrLoginGeneric else e)"
      by (auto simp: svc_Login_def and_then_def map_err_def)
    with got Inl show ?thesis by (auto split: option.splits)
  next
    case (Inr user)
    with got obtain row where row: "users s (lr_Email req) = Some row" "user = userFromSqlc row"
      by (auto split: option.splits)
    with assms(2) g Inr have r: "(case compare (u_password_hash row) (lr_Password req) of
        Some err \<Rightarrow> fail (UserErr ErrLoginGeneric) | None \<Rightarrow> generate (u_id row)) s1 = (r, s')"
      by (auto simp: svc_Login_def and_then_def map_err_def split: option.splits)
    show ?thesis
    proof (cases "compare (u_password_hash row) (lr_Password req)")
      case None
      with r gen have "s' = s1" by auto
      with None r got row show ?thesis by auto
    next
      case (Some e)
      with r got row show ?thesis by (auto simp: fail_def)
    qed
  qed
qed

end

section \<open>PostgreSQL keeps the contract\<close>

definition user_look :: "tables \<Rightarrow> string \<Rightarrow> user_row option" where
  "user_look t email = row_by u_email email (t_users t)"

lemma keeps_createUser [keeps_intros]: "sql_keeps schema_ok (createUser lower email h u)"
  unfolding sql_keeps_def createUser_def Let_def new_user_def
  by (auto simp: schema_ok_def split: if_splits)

lemma user_look_create:
  assumes "createUser lower email h u now t = Inr (r, t', ls)"
  shows "r = new_user email h u now \<and> user_look t email = None \<and> lower email = email \<and>
    user_look t' = (user_look t)(email \<mapsto> new_user email h u now)"
proof -
  from assms have "user_look t email = None" "lower email = email" "r = new_user email h u now"
    "t' = t\<lparr>t_users := t_users t @ [new_user email h u now]\<rparr>"
    by (auto simp: createUser_def Let_def user_look_def row_by_None user_check_def new_user_def split: if_splits)
  then show ?thesis
    by (auto simp: user_look_def row_by_append new_user_def fun_eq_iff split: option.splits)
qed

lemma repo_get_user:
  assumes "idle w" and r: "repo_GetUserByEmail email w = (r, w')"
  shows "idle w' \<and> tables w' = tables w \<and> env w' = env w \<and> charges w' = charges w \<and>
    draw_no w \<le> draw_no w' \<and> stmt_no w' = Suc (stmt_no w) \<and>
    ((\<exists>msg. r = Inl (Wrapped msg ErrConn)) \<or>
     (case user_look (tables w) email of
        None \<Rightarrow> \<exists>msg. r = Inl (Wrapped msg ErrNoRows) | Some row \<Rightarrow> r = Inr (userFromSqlc row)))"
proof -
  have d: "distinct (map u_email (t_users (tables w)))" using assms(1) by (simp add: idle_def schema_ok_def)
  from r obtain q where q: "query_rows (getUserByEmail email) one_row w = (q, w')"
    and r: "r = (case q of Inl e \<Rightarrow> Inl (Wrapped ''error in get user by email'' e) | Inr a \<Rightarrow> Inr (userFromSqlc a))"
    by (auto simp: repo_GetUserByEmail_def map_result sql_GetUserByEmail_def)
  from query_rows_frame [OF q] query_rows_cases [OF q] assms(1) have frame:
    "idle w'" "tables w' = tables w" "env w' = env w" "charges w' = charges w"
    "draw_no w \<le> draw_no w'" "stmt_no w' = Suc (stmt_no w)" by (auto simp: idle_def)
  with query_rows_cases [OF q] filter_row_by [OF d, of email] r show ?thesis
    by (auto simp: getUserByEmail_def user_look_def one_row_def split: option.splits)
qed

lemma repo_create_user:
  assumes "idle w" and r: "repo_CreateUser email h w = (r, w')"
  shows "idle w' \<and> env w' = env w \<and> charges w' = charges w \<and> draw_no w \<le> draw_no w' \<and>
    (user_look (tables w') = user_look (tables w) \<and> isl r \<and> r \<noteq> Inl (UserErr ErrEmailRegistered) \<or>
     user_look (tables w) email = None \<and> env_lower (env w) email = email \<and>
       (\<exists>u now. user_look (tables w') = (user_look (tables w))(email \<mapsto> new_user email h u now) \<and>
          (isl r \<or> r = Inr (userFromSqlc (new_user email h u now)))))"
proof -
  let ?f = "createUser (env_lower (env w)) email h"
  from r obtain q where q: "exec_insert ?f w = (q, w')"
    and r: "r = (case q of Inl e \<Rightarrow> Inl (Wrapped ''error in create user'' e) | Inr a \<Rightarrow> Inr (userFromSqlc a))"
    by (auto simp: repo_CreateUser_def map_result sql_CreateUser_def)
  have frame: "idle w'" "env w' = env w" "charges w' = charges w" "draw_no w \<le> draw_no w'"
    using idle_insert [OF assms(1) keeps_createUser q] exec_insert_frame [OF q] by simp_all
  from q show ?thesis
  proof (cases rule: exec_insert_elim)
    case none
    with frame r show ?thesis by simp
  next
    case (error u now e)
    with frame r show ?thesis by simp
  next
    case (effect u now a ls)
    with user_look_create [OF effect(1)] frame r show ?thesis by (auto split: sum.splits)
  qed
qed

interpretation pg_users: user_repo pg_user_repository "\<lambda>w. user_look (tables w)" "\<lambda>w. env_lower (env w)" idle
proof (unfold_locales, unfold pg_user_repository_def user_repository.select_convs)
  fix w w' :: world and email r
  assume "idle w" "repo_GetUserByEmail email w = (r, w')"
  from repo_get_user [OF this] show "idle w' \<and> user_look (tables w') = user_look (tables w) \<and>
      env_lower (env w') = env_lower (env w) \<and>
      ((\<exists>msg. r = Inl (Wrapped msg ErrConn)) \<or>
       (case user_look (tables w) email of
          None \<Rightarrow> \<exists>msg. r = Inl (Wrapped msg ErrNoRows) | Some row \<Rightarrow> r = Inr (userFromSqlc row)))" by simp
next
  fix w w' :: world and email h r
  assume "idle w" "repo_CreateUser email h w = (r, w')"
  from repo_create_user [OF this] show "idle w' \<and> env_lower (env w') = env_lower (env w) \<and>
      (user_look (tables w') = user_look (tables w) \<and> isl r \<and> r \<noteq> Inl (UserErr ErrEmailRegistered) \<or>
       user_look (tables w) email = None \<and> env_lower (env w) email = email \<and>
         (\<exists>u now. user_look (tables w') = (user_look (tables w))(email \<mapsto> new_user email h u now) \<and>
            (isl r \<or> r = Inr (userFromSqlc (new_user email h u now)))))" by simp
qed

lemma hashPassword_frame:
  "hashPassword bc p w = (q, w') \<Longrightarrow>
   (idle w \<longrightarrow> idle w') \<and> tables w' = tables w \<and> env w' = env w \<and> charges w' = charges w \<and>
   draw_no w' = Suc (draw_no w) \<and> q = GenerateFromPassword bc (draw_no w) p"
  by (auto simp: hashPassword_def idle_def)

lemma Register_cases:
  assumes "idle w" and r: "Register bc req w = (r, w')"
  shows "idle w' \<and> env_lower (env w') = env_lower (env w) \<and>
    (isl r \<and> user_look (tables w') = user_look (tables w) \<or>
     user_look (tables w) (rr_Email req) = None \<and> env_lower (env w) (rr_Email req) = rr_Email req \<and>
       (\<exists>n h u now. GenerateFromPassword bc n (rr_Password req) = Inr h \<and>
          user_look (tables w') = (user_look (tables w))(rr_Email req \<mapsto> new_user (rr_Email req) h u now) \<and>
          (isl r \<or> r = Inr (userFromSqlc (new_user (rr_Email req) h u now)))))"
proof -
  have "idle w' \<and> env_lower (env w') = env_lower (env w) \<and>
    (isl r \<and> user_look (tables w') = user_look (tables w) \<or>
     user_look (tables w) (rr_Email req) = None \<and> env_lower (env w) (rr_Email req) = rr_Email req \<and>
       (\<exists>w1 w2 h u now. hashPassword bc (rr_Password req) w1 = (Inr h, w2) \<and>
          user_look (tables w') = (user_look (tables w))(rr_Email req \<mapsto> new_user (rr_Email req) h u now) \<and>
          (isl r \<or> r = Inr (userFromSqlc (new_user (rr_Email req) h u now)))))"
    by (rule pg_users.register [OF assms(1) r [unfolded Register_def]]) (use hashPassword_frame in auto)
  moreover have "\<exists>n. GenerateFromPassword bc n p = Inr h" if "hashPassword bc p w1 = (Inr h, w2)" for p w1 h w2
    using hashPassword_frame [OF that] by auto
  ultimately show ?thesis by blast
qed

lemma Login_cases:
  assumes "idle w" and r: "Login bc lib m req w = (r, w')"
  shows "idle w' \<and> user_look (tables w') = user_look (tables w) \<and>
    ((\<exists>msg. r = Inl (Wrapped msg ErrConn)) \<or>
     (case user_look (tables w) (lr_Email req) of
        None \<Rightarrow> r = Inl (UserErr ErrLoginGeneric)
      | Some row \<Rightarrow>
          if comparePassword bc (u_password_hash row) (lr_Password req) = None
          then r = GenerateToken lib m (u_id row) (env_app_clock (env w') (stmt_no w'))
          else r = Inl (UserErr ErrLoginGeneric)))"
proof -
  have "token_now lib m u w1 = (q, w2) \<Longrightarrow> w2 = w1" for u w1 q w2 by (auto simp: token_now_def)
  from pg_users.login [OF assms(1) r [unfolded Login_def] this] show ?thesis
    by (auto simp: token_now_def split: option.splits if_splits)
qed

section \<open>Samples\<close>

definition bcrypt_laws :: "bcrypt_lib \<Rightarrow> bool" where
  "bcrypt_laws bc \<longleftrightarrow> (\<forall>n p h. GenerateFromPassword bc n p = Inr h \<longrightarrow> CompareHashAndPassword bc h p = None)"

definition sample_bcrypt :: bcrypt_lib where
  "sample_bcrypt = \<lparr>
     GenerateFromPassword = (\<lambda>n p. if 72 < length p then Inl (OtherErr ''password too long'') else Inr (''$2a$'' @ p)),
     CompareHashAndPassword = (\<lambda>h p. if h = ''$2a$'' @ p then None else Some (OtherErr ''mismatch''))\<rparr>"

definition sample_register :: RegisterRequest where
  "sample_register = \<lparr>rr_Email = ''b@b.c'', rr_Password = ''secret99''\<rparr>"

definition sample_login :: "string \<Rightarrow> LoginRequest" where
  "sample_login p = \<lparr>lr_Email = ''b@b.c'', lr_Password = p\<rparr>"

definition sample_registered :: world where
  "sample_registered = snd (Register sample_bcrypt sample_register (sample_world all_works 0 sample_tables))"

lemma sample_bcrypt_laws: "bcrypt_laws sample_bcrypt"
  by (simp add: bcrypt_laws_def sample_bcrypt_def)

lemma sample_registered_idle: "idle sample_registered"
  using Register_cases [OF sample_idle_tables prod.collapse [symmetric], of sample_bcrypt sample_register all_works 0]
  by (simp add: sample_registered_def)

lemma sample_token: "0 \<le> t \<Longrightarrow> \<exists>tok. GenerateToken sample_jwt sample_manager u t = Inr tok"
  using pos_mod_bound [of 1000000 t] pos_mod_bound [of 1000000 "t + 3600000000"]
    zmod_le_nonneg_dividend [of t 1000000] zmod_le_nonneg_dividend [of "t + 3600000000" 1000000]
  by (simp add: GenerateToken_def sample_jwt_def sample_manager_def sample_signable_def)

lemma sample_login_returns:
  "\<exists>tok w3. Login sample_bcrypt sample_jwt sample_manager (sample_login ''secret99'') sample_registered = (Inr tok, w3) \<and>
     env_app_clock (env w3) (stmt_no w3) = 15000000"
  "fst (Login sample_bcrypt sample_jwt sample_manager (sample_login ''secret98'') sample_registered) =
     Inl (UserErr ErrLoginGeneric)"
proof -
  obtain g w3 where g: "repo_GetUserByEmail ''b@b.c'' sample_registered = (g, w3)" by fastforce
  have "map_sum (\<lambda>_. ()) User_PasswordHash (fst (repo_GetUserByEmail ''b@b.c'' sample_registered)) = Inr ''$2a$secret99''"
    "(let w3 = snd (repo_GetUserByEmail ''b@b.c'' sample_registered) in env_app_clock (env w3) (stmt_no w3)) = 15000000"
    by code_simp+
  with g obtain user where user: "g = Inr user" "User_PasswordHash user = ''$2a$secret99''"
    and clock: "env_app_clock (env w3) (stmt_no w3) = 15000000" by (cases g) auto
  from sample_token [of 15000000 "User_ID user"] obtain tok where
    "GenerateToken sample_jwt sample_manager (User_ID user) 15000000 = Inr tok" by auto
  with g user clock show "\<exists>tok w3. Login sample_bcrypt sample_jwt sample_manager (sample_login ''secret99'') sample_registered = (Inr tok, w3) \<and>
     env_app_clock (env w3) (stmt_no w3) = 15000000"
    by (simp add: Login_def svc_Login_def and_then_def map_err_def pg_user_repository_def sample_login_def
        comparePassword_def sample_bcrypt_def token_now_def)
  from g user show "fst (Login sample_bcrypt sample_jwt sample_manager (sample_login ''secret98'') sample_registered) =
     Inl (UserErr ErrLoginGeneric)"
    by (simp add: Login_def svc_Login_def and_then_def map_err_def pg_user_repository_def sample_login_def
        comparePassword_def sample_bcrypt_def fail_def)
qed

section \<open>Properties\<close>

text \<open>
  Registering adds exactly one user, with the email (which must be in lower case), a hash of the
  password and a fresh id, or it returns an error; every other user stays as it was. An email that is
  taken is always refused, whatever fails and whoever registers at the same time.
\<close>

theorem Register_adds_one_user:
  assumes "idle w" and "Register bc req w = (r, w')"
  shows "idle w' \<and>
    (isl r \<and> user_look (tables w') = user_look (tables w) \<or>
     user_look (tables w) (rr_Email req) = None \<and> env_lower (env w) (rr_Email req) = rr_Email req \<and>
       (\<exists>n h u now. GenerateFromPassword bc n (rr_Password req) = Inr h \<and>
          user_look (tables w') = (user_look (tables w))(rr_Email req \<mapsto> new_user (rr_Email req) h u now) \<and>
          (isl r \<or> r = Inr (userFromSqlc (new_user (rr_Email req) h u now)))))"
  using Register_cases [OF assms] by blast

theorem Register_adds_one_user_witness:
  "(\<exists>h u now. user_look (tables sample_registered) = (user_look sample_tables)(''b@b.c'' \<mapsto> new_user ''b@b.c'' h u now)) \<and>
   isl (fst (Register sample_bcrypt sample_register sample_registered)) \<and>
   user_look (tables (snd (Register sample_bcrypt sample_register sample_registered))) = user_look (tables sample_registered)"
proof -
  let ?run = "Register sample_bcrypt sample_register (sample_world all_works 0 sample_tables)"
  have email: "rr_Email sample_register = ''b@b.c''" by (simp add: sample_register_def)
  have "\<not> isl (fst ?run)" by code_simp
  with Register_adds_one_user [OF sample_idle_tables prod.collapse [symmetric], of sample_bcrypt sample_register all_works 0]
  have first: "\<exists>h u now. user_look (tables sample_registered) = (user_look sample_tables)(''b@b.c'' \<mapsto> new_user ''b@b.c'' h u now)"
    by (auto simp: sample_registered_def email)
  then have "user_look (tables sample_registered) ''b@b.c'' \<noteq> None" by auto
  with Register_adds_one_user [OF sample_registered_idle prod.collapse [symmetric], of sample_bcrypt sample_register] first
  show ?thesis by (simp add: email)
qed

text \<open>
  C32. \<open>Login\<close> hands out a token only to who knows the password: the token is the one generated for the
  user with that email, whose stored hash the password matches. An unknown email and a wrong password
  are answered alike. Logging in changes no user.
\<close>

theorem Login_checks_password:
  assumes "idle w" and "Login bc lib m req w = (r, w')"
  shows "idle w' \<and> user_look (tables w') = user_look (tables w) \<and>
    (\<forall>tok. r = Inr tok \<longrightarrow>
       (\<exists>row. user_look (tables w) (lr_Email req) = Some row \<and>
          comparePassword bc (u_password_hash row) (lr_Password req) = None \<and>
          GenerateToken lib m (u_id row) (env_app_clock (env w') (stmt_no w')) = Inr tok)) \<and>
    ((\<forall>row. user_look (tables w) (lr_Email req) = Some row \<longrightarrow>
        comparePassword bc (u_password_hash row) (lr_Password req) \<noteq> None) \<longrightarrow>
     r = Inl (UserErr ErrLoginGeneric) \<or> (\<exists>msg. r = Inl (Wrapped msg ErrConn)))"
  using Login_cases [OF assms] by (auto split: option.splits if_splits)

theorem Login_checks_password_witness:
  "\<not> isl (fst (Login sample_bcrypt sample_jwt sample_manager (sample_login ''secret99'') sample_registered)) \<and>
   (\<exists>row. user_look (tables sample_registered) ''b@b.c'' = Some row \<and>
      comparePassword sample_bcrypt (u_password_hash row) ''secret99'' = None) \<and>
   fst (Login sample_bcrypt sample_jwt sample_manager (sample_login ''secret98'') sample_registered) =
     Inl (UserErr ErrLoginGeneric)"
proof -
  let ?run = "\<lambda>p. Login sample_bcrypt sample_jwt sample_manager (sample_login p) sample_registered"
  note ok = sample_login_returns(2)
  obtain tok where tok: "fst (?run ''secret99'') = Inr tok" using sample_login_returns(1) by auto
  with Login_checks_password [OF sample_registered_idle prod.collapse [symmetric], of sample_bcrypt sample_jwt sample_manager "sample_login ''secret99''"] ok tok
  show ?thesis by (auto simp: sample_login_def)
qed



end
