(* ===== verification/Order_System.thy ===== *)
theory Order_System
  imports Payment Idempotency Product_Catalog Users
begin

text \<open>
  The services together, as a system whose state is the database, the provider's record of charges
  and the environment, and whose steps are requests. Every request is one of the service operations
  of the component theories; the statements of one transaction are not interleaved with others
  (row locks make the transactions of this program serial on the rows they touch, see
  \<^theory_text>\<open>Lock_Order\<close>).
\<close>

section \<open>Requests\<close>

datatype request =
    PlaceOrder uuid "CreateOrderItemRequest list"
  | CancelOrderOf uuid uuid
  | PayOrder uuid uuid
  | ReadOrders uuid
  | ReadOrder uuid uuid
  | ReadPayment uuid uuid
  | ClaimKey string string uuid
  | StoreResponse string uuid string
  | ListCatalog goint goint
  | ReadProduct uuid
  | AddProduct CreateProductRequest
  | ChangeProduct uuid UpdateProductRequest
  | RemoveProduct uuid
  | RegisterUser RegisterRequest
  | LoginUser LoginRequest

record libs =
  lib_bcrypt :: bcrypt_lib
  lib_jwt :: jwt_lib
  lib_manager :: JWTManager

fun serve :: "libs \<Rightarrow> request \<Rightarrow> world \<Rightarrow> world" where
  "serve L (PlaceOrder uid items) w = snd (CreateOrder uid items w)"
| "serve L (CancelOrderOf uid oid) w = snd (CancelOrder uid oid w)"
| "serve L (PayOrder uid oid) w = snd (Pay uid oid w)"
| "serve L (ReadOrders uid) w = snd (svc_GetOrders order_repository uid w)"
| "serve L (ReadOrder uid oid) w = snd (svc_GetOrderByID order_repository uid oid w)"
| "serve L (ReadPayment uid oid) w = snd (GetPaymentByOrderID uid oid w)"
| "serve L (ClaimKey key hash uid) w = snd (CheckAndClaim key hash uid w)"
| "serve L (StoreResponse key uid resp) w = snd (SaveResponse key uid resp w)"
| "serve L (ListCatalog page limit) w = snd (ListProducts page limit w)"
| "serve L (ReadProduct pid) w = snd (GetProductByID pid w)"
| "serve L (AddProduct req) w = snd (CreateProduct req w)"
| "serve L (ChangeProduct pid req) w = snd (UpdateProduct pid req w)"
| "serve L (RemoveProduct pid) w = snd (DeleteProduct pid w)"
| "serve L (RegisterUser req) w = snd (Register (lib_bcrypt L) req w)"
| "serve L (LoginUser req) w = snd (Login (lib_bcrypt L) (lib_jwt L) (lib_manager L) req w)"

text \<open>The states reached from \<open>w0\<close> by requests that satisfy \<open>P\<close>.\<close>

inductive reachable :: "libs \<Rightarrow> (request \<Rightarrow> bool) \<Rightarrow> world \<Rightarrow> world \<Rightarrow> bool" for L P w0 where
  start: "reachable L P w0 w0"
| serve: "reachable L P w0 w \<Longrightarrow> P r \<Longrightarrow> reachable L P w0 (serve L r w)"

abbreviation any_request :: "request \<Rightarrow> bool" where
  "any_request \<equiv> \<lambda>_. True"

text \<open>The requests that change the catalog, or nothing of orders, items and payments.\<close>

fun order_request :: "request \<Rightarrow> bool" where
  "order_request (PlaceOrder _ _) \<longleftrightarrow> True"
| "order_request (CancelOrderOf _ _) \<longleftrightarrow> True"
| "order_request (PayOrder _ _) \<longleftrightarrow> True"
| "order_request _ \<longleftrightarrow> False"

fun catalog_request :: "request \<Rightarrow> bool" where
  "catalog_request (AddProduct _) \<longleftrightarrow> True"
| "catalog_request (ChangeProduct _ _) \<longleftrightarrow> True"
| "catalog_request (RemoveProduct _) \<longleftrightarrow> True"
| "catalog_request _ \<longleftrightarrow> False"

section \<open>Requests that leave the orders alone\<close>

text \<open>With \<open>c\<close>, the catalog is left alone too.\<close>

definition order_part ::
  "bool \<Rightarrow> tables \<Rightarrow> order_row list \<times> item_row list \<times> payment_row list \<times> product_row list" where
  "order_part c t = (t_orders t, t_items t, t_payments t, if c then t_products t else [])"

definition apart :: "bool \<Rightarrow> world \<Rightarrow> world \<Rightarrow> bool" where
  "apart c w0 w \<longleftrightarrow> idle w \<and> order_part c (tables w) = order_part c (tables w0) \<and> charges w = charges w0 \<and>
     env w = env w0 \<and> draw_no w0 \<le> draw_no w"

definition order_free :: "bool \<Rightarrow> 'a sql \<Rightarrow> bool" where
  "order_free c f \<longleftrightarrow> (\<forall>now t a t' ls. f now t = Inr (a, t', ls) \<longrightarrow> order_part c t' = order_part c t)"

lemma order_freeD: "order_free c f \<Longrightarrow> f now t = Inr (a, t', ls) \<Longrightarrow> order_part c t' = order_part c t"
  unfolding order_free_def by blast

lemma apart_refl: "idle w \<Longrightarrow> apart c w w"
  by (simp add: apart_def)

lemma keeps_apart_exec:
  assumes "sql_keeps schema_ok f" "order_free c f"
  shows "keeps (apart c w0) (exec_sql f)"
proof (rule keepsI)
  fix w r w'
  assume w: "apart c w0 w" and r: "exec_sql f w = (r, w')"
  have "idle w'" using idle_exec [OF _ assms(1) r] w by (simp add: apart_def)
  moreover from r have "order_part c (tables w') = order_part c (tables w)"
    by (cases rule: exec_sql_elim) (auto dest: order_freeD [OF assms(2)])
  ultimately show "apart c w0 w'"
    using w exec_sql_frame [OF r] by (simp add: apart_def)
qed

lemma keeps_apart_insert:
  assumes "\<And>u. sql_keeps schema_ok (f u)" "\<And>u. order_free c (f u)"
  shows "keeps (apart c w0) (exec_insert f)"
proof (rule keepsI)
  fix w r w'
  assume w: "apart c w0 w" and r: "exec_insert f w = (r, w')"
  have "idle w'" using idle_insert [OF _ assms(1) r] w by (simp add: apart_def)
  moreover from r have "order_part c (tables w') = order_part c (tables w)"
    by (cases rule: exec_insert_elim) (auto dest: order_freeD [OF assms(2)])
  ultimately show "apart c w0 w'"
    using w exec_insert_frame [OF r] by (simp add: apart_def)
qed

lemma keeps_apart_query: "keeps (apart c w0) (query_rows sel f)"
proof (rule keepsI)
  fix w r w'
  assume w: "apart c w0 w" and r: "query_rows sel f w = (r, w')"
  from w query_rows_frame [OF r] query_rows_cases [OF r] show "apart c w0 w'"
    by (auto simp: apart_def idle_def)
qed

lemma keeps_case_result:
  assumes "keeps I f" "\<And>a. keeps I (g a)" "\<And>e. keeps I (h e)"
  shows "keeps I (\<lambda>s. case f s of (Inl e, s1) \<Rightarrow> h e s1 | (Inr a, s1) \<Rightarrow> g a s1)"
  using assms by (fastforce simp: keeps_def split: prod.splits sum.splits)

lemma order_free_statements:
  "order_free c (createIdempotency key uid hash)"
  "order_free c (reclaimStaleIdempotency hash key uid before)"
  "order_free c (updateIdempotency resp key uid)"
  "order_free False (createProduct name desc price stock u)"
  "order_free False (updateProduct name' desc' price' stock' pid)"
  "order_free False (deleteProductByID pid)"
  "order_free c (createUser lower email h u)"
  by (auto simp: order_free_def order_part_def createIdempotency_def reclaimStaleIdempotency_def
      updateIdempotency_def update_keys_def createProduct_def updateProduct_def update_products_def
      deleteProductByID_def createUser_def Let_def op_simps split: if_splits sum.splits option.splits)

lemmas apart_statements =
  keeps_apart_exec [OF keeps_createIdempotency order_free_statements(1)]
  keeps_apart_exec [OF keeps_reclaim order_free_statements(2)]
  keeps_apart_exec [OF keeps_updateIdempotency order_free_statements(3)]
  keeps_apart_insert [OF keeps_createProduct order_free_statements(4)]
  keeps_apart_exec [OF keeps_updateProduct order_free_statements(5)]
  keeps_apart_exec [OF keeps_deleteProductByID order_free_statements(6)]
  keeps_apart_query

text \<open>An operation that is, in every state, one that keeps the predicate.\<close>

lemma keeps_pointwise: "(\<And>w. \<exists>g. keeps I g \<and> f w = g w) \<Longrightarrow> keeps I f"
  unfolding keeps_def by metis

lemma keeps_sql_UpdateIdempotency: "keeps (apart c w0) (sql_UpdateIdempotency resp key uid)"
  by (rule keeps_pointwise, unfold sql_UpdateIdempotency_def) (blast intro: apart_statements)

lemma apart_keys:
  "keeps (apart c w0) (repo_CreateIdempotency key hash uid)"
  "keeps (apart c w0) (repo_GetIdempotencyByUserID key uid)"
  "keeps (apart c w0) (repo_ReclaimStaleIdempotency key hash uid after)"
  "keeps (apart c w0) (repo_UpdateIdempotency key uid resp)"
proof -
  show "keeps (apart c w0) (repo_CreateIdempotency key hash uid)"
    unfolding repo_CreateIdempotency_def sql_CreateIdempotency_def by (intro keeps_intros apart_statements)
  show "keeps (apart c w0) (repo_GetIdempotencyByUserID key uid)"
    unfolding repo_GetIdempotencyByUserID_def sql_GetIdempotencyByUserID_def
    by (intro keeps_intros apart_statements)
  show "keeps (apart c w0) (repo_UpdateIdempotency key uid resp)"
    unfolding repo_UpdateIdempotency_def by (intro keeps_intros keeps_sql_UpdateIdempotency)
  have "keeps (apart c w0) (map_ok f (map_err g (sql_ReclaimStaleIdempotency hash key uid before)))" for f g before
    unfolding sql_ReclaimStaleIdempotency_def by (intro keeps_intros apart_statements)
  then show "keeps (apart c w0) (repo_ReclaimStaleIdempotency key hash uid after)"
    by (intro keeps_pointwise) (auto simp: repo_ReclaimStaleIdempotency_def)
qed

lemma apart_products:
  "keeps (apart c w0) (ListProducts page limit)" "keeps (apart c w0) (GetProductByID pid)"
  "keeps (apart False w0) (CreateProduct creq)" "keeps (apart False w0) (UpdateProduct pid ureq)"
  "keeps (apart False w0) (DeleteProduct pid)"
  unfolding ListProducts_def GetProductByID_def CreateProduct_def UpdateProduct_def DeleteProduct_def
    svc_ListProducts_def svc_GetProductByID_def svc_CreateProduct_def svc_UpdateProduct_def
    svc_DeleteProduct_def pg_product_repository_def product_repository.select_convs
    repo_GetProductByID_def repo_ListProducts_def repo_CreateProduct_def repo_UpdateProduct_def
    repo_DeleteProductByID_def sql_ListProducts_def sql_GetProductByID_def sql_CreateProduct_def
    sql_UpdateProduct_def sql_DeleteProductByID_def case_prod_beta
  by (intro keeps_intros apart_statements)+

lemma apart_reads:
  "keeps (apart c w0) (svc_GetOrders order_repository uid)"
  "keeps (apart c w0) (svc_GetOrderByID order_repository uid oid)"
  "keeps (apart c w0) (GetPaymentByOrderID uid oid)"
  unfolding svc_GetOrders_def svc_GetOrderByID_def order_repository_simps store_GetOrders_def
    store_GetOrderByID_def GetPaymentByOrderID_def sql_GetOrders_def sql_GetOrderByID_def
    sql_GetPaymentByOrderID_def
  by (intro keeps_intros apart_statements)+

lemma apart_idempotency:
  "keeps (apart c w0) (CheckAndClaim key hash uid)" "keeps (apart c w0) (SaveResponse key uid resp)"
proof -
  let ?get = "\<lambda>existing.
      if hash \<noteq> Key_RequestHash existing then ret \<lparr>Result_Status = Mismatch, Result_Response = None\<rparr>
      else if Key_Response existing = None \<or> Key_Response existing = Some [] then
        (\<lambda>s2. case repo_ReclaimStaleIdempotency key hash uid staleClaimTimeout s2 of
           (Inl reclaimErr, s3) \<Rightarrow>
             if errors_Is reclaimErr (IdempotencyErr ErrNoIdempotencyFound)
             then (Inr \<lparr>Result_Status = InProgress, Result_Response = None\<rparr>, s3) else (Inl reclaimErr, s3)
         | (Inr _, s3) \<Rightarrow> (Inr \<lparr>Result_Status = New, Result_Response = None\<rparr>, s3))
      else ret \<lparr>Result_Status = Replayed, Result_Response = Key_Response existing\<rparr>"
  have reclaim: "keeps (apart c w0) (\<lambda>s2. case repo_ReclaimStaleIdempotency key hash uid staleClaimTimeout s2 of
           (Inl reclaimErr, s3) \<Rightarrow>
             if errors_Is reclaimErr (IdempotencyErr ErrNoIdempotencyFound)
             then (Inr \<lparr>Result_Status = InProgress, Result_Response = None\<rparr>, s3) else (Inl reclaimErr, s3)
         | (Inr _, s3) \<Rightarrow> (Inr \<lparr>Result_Status = New, Result_Response = None\<rparr>, s3))"
    using apart_keys(3) [of c w0 key hash uid staleClaimTimeout]
    by (fastforce simp: keeps_def split: prod.splits sum.splits)
  have "keeps (apart c w0) (?get existing)" for existing
    by (intro keeps_intros reclaim)
  then have "keeps (apart c w0) (and_then (repo_GetIdempotencyByUserID key uid) ?get)"
    by (intro keeps_and_then apart_keys)
  with apart_keys(1) [of c w0 key hash uid] show "keeps (apart c w0) (CheckAndClaim key hash uid)"
    unfolding CheckAndClaim_def svc_CheckAndClaim_def idempotency_repository_def key_repository.select_convs
    by (fastforce simp: keeps_def split: prod.splits sum.splits)
  show "keeps (apart c w0) (SaveResponse key uid resp)"
    unfolding SaveResponse_def svc_SaveResponse_def idempotency_repository_def key_repository.select_convs
    by (intro keeps_intros apart_keys)
qed

lemma apart_users:
  "keeps (apart c w0) (Register bc rreq)" "keeps (apart c w0) (Login bc lib m lreq)"
proof -
  have get: "keeps (apart c w0) (repo_GetUserByEmail email)" for email
    unfolding repo_GetUserByEmail_def sql_GetUserByEmail_def by (intro keeps_intros apart_statements)
  have "keeps (apart c w0) (sql_CreateUser email h)" for email h
    by (rule keeps_pointwise, unfold sql_CreateUser_def)
      (blast intro: keeps_apart_insert keeps_createUser order_free_statements(7))
  then have create: "keeps (apart c w0) (repo_CreateUser email h)" for email h
    unfolding repo_CreateUser_def by (intro keeps_intros)
  have hash: "keeps (apart c w0) (hashPassword bc p)" for p
    by (rule keepsI) (auto simp: apart_def dest: hashPassword_frame)
  have token: "keeps (apart c w0) (token_now lib m u)" for u
    by (simp add: keeps_def token_now_def)
  have "keeps (apart c w0) (and_then (map_err f (hashPassword bc p)) (repo_CreateUser email))" for f p email
    by (intro keeps_intros hash create)
  with get [of "rr_Email rreq"] show "keeps (apart c w0) (Register bc rreq)"
    unfolding Register_def svc_Register_def pg_user_repository_def user_repository.select_convs
    by (fastforce simp: keeps_def split: prod.splits sum.splits)
  have "keeps (apart c w0) (case e of None \<Rightarrow> token_now lib m u | Some x \<Rightarrow> fail d)" for e :: "go_error option" and u d
    by (cases e) (simp_all add: token keeps_fail)
  then show "keeps (apart c w0) (Login bc lib m lreq)"
    unfolding Login_def svc_Login_def pg_user_repository_def user_repository.select_convs
    by (intro keeps_intros get)
qed

text \<open>Whatever a request that is none of the order requests does, it does it apart from them.\<close>

lemma serve_apart: "idle w \<Longrightarrow> \<not> order_request r \<Longrightarrow> apart (\<not> catalog_request r) w (serve L r w)"
proof -
  have snd: "keeps (apart c w) f \<Longrightarrow> idle w \<Longrightarrow> apart c w (snd (f w))" for c and f :: "'a db_op"
    by (simp add: keeps_def apart_refl)
  show "idle w \<Longrightarrow> \<not> order_request r \<Longrightarrow> apart (\<not> catalog_request r) w (serve L r w)"
    by (cases r) (simp_all add: keeps_def apart_refl
        apart_reads [unfolded keeps_def, rule_format] apart_products [unfolded keeps_def, rule_format]
        apart_idempotency [unfolded keeps_def, rule_format] apart_users [unfolded keeps_def, rule_format])
qed

lemma serve_frame:
  assumes "idle w"
  shows "idle (serve L r w) \<and> env (serve L r w) = env w \<and> draw_no w \<le> draw_no (serve L r w)"
proof (cases "order_request r")
  case False
  with serve_apart [OF assms] show ?thesis by (simp add: apart_def)
next
  case True
  then show ?thesis
    using CreateOrder_idle [OF assms prod.collapse [symmetric]] CreateOrder_frame [OF assms prod.collapse [symmetric]]
      CancelOrder_idle [OF assms prod.collapse [symmetric]] CancelOrder_frame [OF assms prod.collapse [symmetric]]
      Pay_idle [OF assms prod.collapse [symmetric]]
    by (cases r) simp_all
qed

lemma reachable_frame:
  "reachable L P w0 w \<Longrightarrow> idle w0 \<Longrightarrow> idle w \<and> env w = env w0 \<and> draw_no w0 \<le> draw_no w"
  by (induction rule: reachable.induct) (simp, metis serve_frame order_trans)

section \<open>How a step changes the orders\<close>

text \<open>
  Every step leaves the orders, items and payments as they were, places an order, cancels one, or
  settles a payment; only the last may also add a charge.
\<close>

definition charge_of :: "uuid \<Rightarrow> payment_row \<Rightarrow> string \<Rightarrow> bool \<Rightarrow> charge" where
  "charge_of oid pay txid success = \<lparr>c_order = oid, c_amount = y_amount pay, c_txid = txid, c_success = success\<rparr>"

lemma serve_cases [consumes 1, case_names same placed cancelled charged]:
  assumes "idle w"
  obtains
    (same) "order_part (\<not> catalog_request r) (tables (serve L r w)) = order_part (\<not> catalog_request r) (tables w)"
      "charges (serve L r w) = charges w"
  | (placed) uid items now res where "r = PlaceOrder uid items"
      "placed uid items now res (tables w) (tables (serve L r w))" "charges (serve L r w) = charges w"
  | (cancelled) uid oid now res where "r = CancelOrderOf uid oid"
      "cancelled uid oid now res (tables w) (tables (serve L r w))" "charges (serve L r w) = charges w"
  | (charged) uid oid ord pay success txid where "r = PayOrder uid oid"
      "found uid oid (tables w) ord pay" "payable ord pay" "drawn w (serve L r w) success txid"
      "charges (serve L r w) = charges w @ [charge_of oid pay txid success]"
      "tables (serve L r w) = tables w \<or>
       (\<exists>now res. settled oid now success txid ord pay (tables w) (tables (serve L r w)) res)"
proof -
  show thesis
  proof (cases r)
    case (PlaceOrder uid items)
    note run = prod.collapse [symmetric, of "CreateOrder uid items w"]
    from CreateOrder_cases [OF assms run] CreateOrder_frame [OF assms run] PlaceOrder
    show thesis by (elim disjE exE conjE) (auto intro: same placed)
  next
    case (CancelOrderOf uid oid)
    note run = prod.collapse [symmetric, of "CancelOrder uid oid w"]
    from CancelOrder_cases [OF assms run] CancelOrder_frame [OF assms run] CancelOrderOf
    show thesis by (elim disjE exE conjE) (auto intro: same cancelled)
  next
    case (PayOrder uid oid)
    note run = prod.collapse [symmetric, of "Pay uid oid w"]
    from Pay_cases [OF assms run] PayOrder
    show thesis by (elim disjE exE conjE) (auto simp: charge_of_def intro: same charged)
  qed (use serve_apart [OF assms, of r L] in \<open>auto simp: apart_def intro!: same\<close>)
qed

text \<open>The same as a relation between tables, which a concurrent transaction satisfies as well.\<close>

definition order_move :: "bool \<Rightarrow> tables \<Rightarrow> tables \<Rightarrow> bool" where
  "order_move c t t' \<longleftrightarrow>
     order_part c t' = order_part c t \<or>
     (\<exists>uid items now res. placed uid items now res t t') \<or>
     (\<exists>uid oid now res. cancelled uid oid now res t t') \<or>
     (\<exists>uid oid ord pay now success txid res.
        found uid oid t ord pay \<and> payable ord pay \<and> settled oid now success txid ord pay t t' res)"

lemma order_move_cases [consumes 1, case_names same placed cancelled settled]:
  assumes "order_move c t t'"
  obtains "order_part c t' = order_part c t"
    | uid items now res where "placed uid items now res t t'"
    | uid oid now res where "cancelled uid oid now res t t'"
    | uid oid ord pay now success txid res where "found uid oid t ord pay" "payable ord pay"
      "settled oid now success txid ord pay t t' res"
  using assms unfolding order_move_def by blast

lemma serve_move:
  assumes "idle w"
  shows "order_move (\<not> catalog_request r) (tables w) (tables (serve L r w))"
  using assms
proof (cases rule: serve_cases [where L = L and r = r])
  case (charged uid oid ord pay success txid)
  then show ?thesis unfolding order_move_def by auto
qed (auto simp: order_move_def)

section \<open>The books\<close>

text \<open>
  An order is booked when it has its payment, over its total, successful exactly when the order is
  paid, and the total is the sum of its items' subtotals.
\<close>

definition booked :: "tables \<Rightarrow> order_row \<Rightarrow> payment_row \<Rightarrow> bool" where
  "booked t ord pay \<longleftrightarrow>
     row_by y_order_id (o_id ord) (t_payments t) = Some pay \<and> y_amount pay = o_total_amount ord \<and>
     (o_status ord = ''paid'' \<longleftrightarrow> y_status pay = ''success'') \<and>
     o_total_amount ord = (\<Sum>it \<leftarrow> items_of t (o_id ord). i_subtotal it)"

definition books_ok :: "tables \<Rightarrow> bool" where
  "books_ok t \<longleftrightarrow> (\<forall>ord \<in> set (t_orders t). \<exists>pay. booked t ord pay)"

lemma books_okD: "books_ok t \<Longrightarrow> row_by o_id oid (t_orders t) = Some ord \<Longrightarrow> \<exists>pay. booked t ord pay"
  by (auto simp: books_ok_def dest: row_by_SomeD)

lemma placed_rows:
  assumes "list_all2 (item_for u price now) items rows"
  shows "\<forall>r \<in> set rows. i_order_id r = u" "(\<Sum>it \<leftarrow> rows. i_subtotal it) = order_total price items"
  using assms by (induction, auto simp: order_total_def dest: item_forD)

text \<open>What a placed order adds, and where it adds nothing.\<close>

lemma placed_look:
  assumes "schema_ok t" and "placed uid items now res t t'"
  obtains u y rows where
    "u \<notin> o_id ` set (t_orders t)"
    "t_orders t' = t_orders t @ [new_order uid (order_total (price_at t) items) u now]"
    "t_payments t' = t_payments t @ [new_payment u (order_total (price_at t) items) ''fake'' None y now]"
    "t_items t' = t_items t @ rows" "items_of t' u = rows"
    "(\<Sum>it \<leftarrow> rows. i_subtotal it) = order_total (price_at t) items"
    "\<forall>r \<in> set rows. i_order_id r = u"
    "row_by y_order_id u (t_payments t) = None"
    "\<And>k. k \<noteq> u \<Longrightarrow> items_of t' k = items_of t k"
    "\<And>k. k \<noteq> u \<Longrightarrow> row_by y_order_id k (t_payments t') = row_by y_order_id k (t_payments t)"
    "\<And>k. k \<noteq> u \<Longrightarrow> row_by o_id k (t_orders t') = row_by o_id k (t_orders t)"
    "row_by o_id u (t_orders t') = Some (new_order uid (order_total (price_at t) items) u now)"
    "\<forall>pid. stock_of t' pid = map_option (\<lambda>n. n - units pid rows) (stock_of t pid)"
proof -
  from assms(2) obtain u y rows where
    p: "u \<notin> o_id ` set (t_orders t)" "list_all2 (item_for u (price_at t) now) items rows"
      "t_orders t' = t_orders t @ [new_order uid (order_total (price_at t) items) u now]"
      "t_payments t' = t_payments t @ [new_payment u (order_total (price_at t) items) ''fake'' None y now]"
      "t_items t' = t_items t @ rows"
      "\<forall>pid. stock_of t' pid = map_option (\<lambda>n. n - units pid rows) (stock_of t pid)"
    by (auto simp: placed_def Let_def)
  note rows = placed_rows [OF p(2)]
  have none: "items_of t u = []" "row_by y_order_id u (t_payments t) = None" "row_by o_id u (t_orders t) = None"
    using assms(1) p(1) by (auto simp: items_of_def schema_ok_def row_by_None filter_empty_conv)
  have items: "items_of t' k = items_of t k @ filter (\<lambda>r. i_order_id r = k) rows" for k
    by (simp add: items_of_def p(5))
  have "filter (\<lambda>r. i_order_id r = u) rows = rows" using rows(1) by (auto simp: filter_id_conv)
  moreover have "k \<noteq> u \<Longrightarrow> filter (\<lambda>r. i_order_id r = k) rows = []" for k
    using rows(1) by (auto simp: filter_empty_conv)
  ultimately show thesis
    using that [of u y rows] p rows none items
    by (simp add: row_by_append new_order_def new_payment_def split: option.splits)
qed

lemma row_by_set_status:
  "row_by o_id k (set_status oid status now rs) =
     map_option (\<lambda>r. if o_id r = oid then r\<lparr>o_status := status, o_updated_at := now\<rparr> else r) (row_by o_id k rs)"
  unfolding set_status_def by (rule row_by_update) simp

lemma row_by_set_payment:
  "row_by y_order_id k (set_payment oid status txid now rs) =
     map_option (\<lambda>r. if y_order_id r = oid
        then r\<lparr>y_status := status, y_transaction_id := txid, y_updated_at := now\<rparr> else r) (row_by y_order_id k rs)"
  unfolding set_payment_def by (rule row_by_update) simp

lemma books_ok_look:
  "schema_ok t \<Longrightarrow> books_ok t \<longleftrightarrow> (\<forall>k ord. row_by o_id k (t_orders t) = Some ord \<longrightarrow> (\<exists>pay. booked t ord pay))"
  by (auto simp: books_ok_def schema_ok_def row_by_Some)

lemma books_placed:
  assumes "schema_ok t" "schema_ok t'" "placed uid items now res t t'" "books_ok t"
  shows "books_ok t'"
  unfolding books_ok_look [OF assms(2)]
proof (intro allI impI)
  fix k ord
  assume k: "row_by o_id k (t_orders t') = Some ord"
  then have id: "o_id ord = k" by (auto dest: row_by_SomeD)
  from assms(1,3) show "\<exists>pay. booked t' ord pay"
  proof (cases rule: placed_look)
    case (1 u y rows)
    show ?thesis
    proof (cases "k = u")
      case True
      with 1 k have "booked t' ord (new_payment u (order_total (price_at t) items) ''fake'' None y now)"
        by (auto simp: booked_def new_order_def new_payment_def row_by_append)
      then show ?thesis ..
    next
      case False
      with 1 k books_okD [OF assms(4), of k ord] id show ?thesis by (auto simp: booked_def)
    qed
  qed
qed

lemma books_cancelled:
  assumes "schema_ok t" "schema_ok t'" "cancelled uid oid now res t t'" "books_ok t"
  shows "books_ok t'"
  unfolding books_ok_look [OF assms(2)]
proof (intro allI impI)
  fix k ord
  assume "row_by o_id k (t_orders t') = Some ord"
  moreover from assms(3) obtain ord0 where
    o: "row_by o_id oid (t_orders t) = Some ord0" "o_status ord0 = ''pending''"
    and t': "t_orders t' = set_status oid ''cancelled'' now (t_orders t)" "t_payments t' = t_payments t" "t_items t' = t_items t"
    by (auto simp: cancelled_def)
  ultimately obtain r where r: "row_by o_id k (t_orders t) = Some r" "o_id r = k"
    and ord: "ord = (if o_id r = oid then r\<lparr>o_status := ''cancelled'', o_updated_at := now\<rparr> else r)"
    by (auto simp: row_by_set_status dest: row_by_SomeD)
  from books_okD [OF assms(4) r(1)] obtain pay where "booked t r pay" ..
  with t' r o ord have "booked t' ord pay" by (auto simp: booked_def items_of_def)
  then show "\<exists>pay. booked t' ord pay" ..
qed

lemma books_settled:
  assumes "schema_ok t" "schema_ok t'" "found uid oid t ord0 pay0" "payable ord0 pay0"
    and "settled oid now success txid ord0 pay0 t t' res" "books_ok t"
  shows "books_ok t'"
  unfolding books_ok_look [OF assms(2)]
proof (intro allI impI)
  fix k ord
  assume k: "row_by o_id k (t_orders t') = Some ord"
  note f = assms(3) [unfolded found_def]
  from assms(5) have t': "t_items t' = t_items t"
    "t_payments t' = set_payment oid (if success then ''success'' else ''failed'') (Some txid) now (t_payments t)"
    "t_orders t' = (if success then set_status oid ''paid'' now (t_orders t) else t_orders t)"
    by (simp_all add: settled_def Let_def)
  have "row_by o_id k (t_orders t') = map_option (\<lambda>r. if success \<and> o_id r = oid
      then r\<lparr>o_status := ''paid'', o_updated_at := now\<rparr> else r) (row_by o_id k (t_orders t))"
    by (cases success) (simp_all add: t'(3) row_by_set_status option.map_ident)
  with k obtain r where r: "row_by o_id k (t_orders t) = Some r" "o_id r = k"
    and ord: "ord = (if success \<and> k = oid then r\<lparr>o_status := ''paid'', o_updated_at := now\<rparr> else r)"
    by (auto dest: row_by_SomeD)
  from books_okD [OF assms(6) r(1)] obtain pay where b: "booked t r pay" ..
  have y: "y_order_id pay = k" "row_by y_order_id k (t_payments t) = Some pay"
    using b r(2) by (auto simp: booked_def dest: row_by_SomeD)
  show "\<exists>pay. booked t' ord pay"
  proof (cases "k = oid")
    case False
    with b y r ord have "booked t' ord pay"
      by (simp add: booked_def t' row_by_set_payment items_of_def)
    then show ?thesis ..
  next
    case True
    with f r y have same: "r = ord0" "pay = pay0" by simp_all
    let ?pay = "pay\<lparr>y_status := if success then ''success'' else ''failed'', y_transaction_id := Some txid, y_updated_at := now\<rparr>"
    have "row_by y_order_id k (t_payments t') = Some ?pay"
      using y True by (simp add: t'(2) row_by_set_payment)
    moreover have "o_status r \<noteq> ''paid''" using assms(4) same by (simp add: payable_def)
    ultimately have "booked t' ord ?pay"
      using b r True ord by (cases success) (simp_all add: booked_def t'(1) items_of_def)
    then show ?thesis ..
  qed
qed

lemma serve_schema: "idle w \<Longrightarrow> schema_ok (tables (serve L r w))"
  using serve_frame by (simp add: idle_def)

lemma order_part_eq:
  "order_part c t' = order_part c t \<Longrightarrow>
   t_orders t' = t_orders t \<and> t_items t' = t_items t \<and> t_payments t' = t_payments t \<and> (c \<longrightarrow> t_products t' = t_products t)"
  by (simp add: order_part_def split: if_splits)

lemma move_books:
  assumes "order_move c t t'" "schema_ok t" "schema_ok t'" "books_ok t"
  shows "books_ok t'"
  using assms(1)
proof (cases rule: order_move_cases)
  case same
  from order_part_eq [OF same] assms(4) show ?thesis by (simp add: books_ok_def booked_def items_of_def)
next
  case settled
  from books_settled [OF assms(2,3) settled assms(4)] show ?thesis .
qed (use assms books_placed books_cancelled in blast)+

lemma serve_books:
  assumes "idle w" "books_ok (tables w)"
  shows "books_ok (tables (serve L r w))"
  using move_books [OF serve_move [OF assms(1)] _ serve_schema [OF assms(1)] assms(2)] assms(1)
  by (simp add: idle_def)

section \<open>The charges\<close>

text \<open>
  A paid order is backed by a successful charge of its total, whose transaction id its payment
  records; a charge is always of the total of an order that exists.
\<close>

definition backed :: "world \<Rightarrow> order_row \<Rightarrow> bool" where
  "backed w ord \<longleftrightarrow>
     (\<exists>pay c. booked (tables w) ord pay \<and> c \<in> set (charges w) \<and> c_success c \<and> c_order c = o_id ord \<and>
        c_amount c = o_total_amount ord \<and> y_transaction_id pay = Some (c_txid c))"

definition charges_ok :: "world \<Rightarrow> bool" where
  "charges_ok w \<longleftrightarrow>
     (\<forall>k ord. row_by o_id k (t_orders (tables w)) = Some ord \<longrightarrow> o_status ord = ''paid'' \<longrightarrow> backed w ord) \<and>
     (\<forall>c \<in> set (charges w). \<exists>ord. row_by o_id (c_order c) (t_orders (tables w)) = Some ord \<and>
        c_amount c = o_total_amount ord)"

text \<open>How the order of one id and its items may differ between two states.\<close>

definition order_step :: "order_row \<Rightarrow> order_row \<Rightarrow> bool" where
  "order_step ord ord' \<longleftrightarrow>
     o_id ord' = o_id ord \<and> o_user_id ord' = o_user_id ord \<and> o_total_amount ord' = o_total_amount ord \<and>
     o_created_at ord' = o_created_at ord \<and>
     (o_status ord' = o_status ord \<or> o_status ord = ''pending'' \<and> o_status ord' \<in> {''paid'', ''cancelled''})"

definition order_kept :: "tables \<Rightarrow> tables \<Rightarrow> uuid \<Rightarrow> order_row \<Rightarrow> bool" where
  "order_kept t t' oid ord \<longleftrightarrow>
     (\<exists>ord'. row_by o_id oid (t_orders t') = Some ord' \<and> order_step ord ord') \<and> items_of t' oid = items_of t oid"

lemma order_step_refl: "order_step ord ord"
  by (simp add: order_step_def)

lemma order_step_trans: "order_step a b \<Longrightarrow> order_step b c \<Longrightarrow> order_step a c"
  unfolding order_step_def by auto

lemma pending_unless:
  "schema_ok t \<Longrightarrow> row_by o_id oid (t_orders t) = Some ord \<Longrightarrow> o_status ord \<noteq> ''paid'' \<Longrightarrow>
   o_status ord \<noteq> ''cancelled'' \<Longrightarrow> o_status ord = ''pending''"
  by (auto simp: schema_ok_def order_check_def order_statuses_def dest!: row_by_SomeD)

lemma settled_orders:
  assumes "settled oid now success txid ord0 pay0 t t' res"
  shows "row_by o_id k (t_orders t') = map_option (\<lambda>r. if success \<and> o_id r = oid
      then r\<lparr>o_status := ''paid'', o_updated_at := now\<rparr> else r) (row_by o_id k (t_orders t))"
    and "t_items t' = t_items t"
    and "row_by y_order_id k (t_payments t') = map_option (\<lambda>r. if y_order_id r = oid
      then r\<lparr>y_status := if success then ''success'' else ''failed'', y_transaction_id := Some txid,
             y_updated_at := now\<rparr> else r) (row_by y_order_id k (t_payments t))"
    and "t_products t' = t_products t"
    and "t_payments t' = set_payment oid (if success then ''success'' else ''failed'') (Some txid) now (t_payments t)"
  using assms by (cases success; simp add: settled_def Let_def row_by_set_status row_by_set_payment option.map_ident)+

lemma cancelled_orders:
  assumes "cancelled uid oid now res t t'"
  shows "row_by o_id k (t_orders t') = map_option (\<lambda>r. if o_id r = oid
      then r\<lparr>o_status := ''cancelled'', o_updated_at := now\<rparr> else r) (row_by o_id k (t_orders t))"
    and "t_items t' = t_items t" and "t_payments t' = t_payments t"
    and "\<exists>ord. row_by o_id oid (t_orders t) = Some ord \<and> o_status ord = ''pending''"
  using assms by (auto simp: cancelled_def row_by_set_status)

lemma move_kept:
  assumes "order_move c t t'" and ok: "schema_ok t" and ord: "row_by o_id oid (t_orders t) = Some ord"
  shows "order_kept t t' oid ord"
proof -
  have id: "o_id ord = oid" using ord by (auto dest: row_by_SomeD)
  from assms(1) show ?thesis
  proof (cases rule: order_move_cases)
    case same
    from order_part_eq [OF same] ord order_step_refl show ?thesis by (simp add: order_kept_def items_of_def)
  next
    case (placed uid items now res)
    from ok placed show ?thesis
    proof (cases rule: placed_look)
      case (1 u y rows)
      then have "oid \<noteq> u" using ord by (auto dest: row_by_SomeD)
      with 1 ord order_step_refl show ?thesis by (simp add: order_kept_def)
    qed
  next
    case (cancelled uid oid' now res)
    note c = cancelled_orders [OF cancelled]
    have "order_step ord (if o_id ord = oid' then ord\<lparr>o_status := ''cancelled'', o_updated_at := now\<rparr> else ord)"
      using c(4) ord id by (auto simp: order_step_def)
    with c(1) [of oid] c(2) ord show ?thesis by (simp add: order_kept_def items_of_def)
  next
    case (settled uid oid' ord0 pay now success txid res)
    note so = settled_orders [OF settled(3)]
    have "o_id ord = oid' \<Longrightarrow> o_status ord = ''pending''"
      using settled(1,2) ord id pending_unless [OF ok] by (auto simp: found_def payable_def)
    then have "order_step ord (if success \<and> o_id ord = oid'
        then ord\<lparr>o_status := ''paid'', o_updated_at := now\<rparr> else ord)"
      by (auto simp: order_step_def)
    with so(1) [of oid] so(2) ord show ?thesis by (simp add: order_kept_def items_of_def)
  qed
qed

lemma order_kept_trans:
  assumes "order_kept t0 t oid ord" and "\<And>ord1. row_by o_id oid (t_orders t) = Some ord1 \<Longrightarrow> order_kept t t' oid ord1"
  shows "order_kept t0 t' oid ord"
  using assms order_step_trans unfolding order_kept_def by fastforce

lemma serve_order_kept:
  assumes "idle w" and ord: "row_by o_id oid (t_orders (tables w)) = Some ord"
  shows "order_kept (tables w) (tables (serve L r w)) oid ord"
  using move_kept [OF serve_move [OF assms(1)] _ ord] assms(1) by (simp add: idle_def)

lemma reachable_order_kept:
  assumes "reachable L P w0 w" "idle w0" "row_by o_id oid (t_orders (tables w0)) = Some ord"
  shows "order_kept (tables w0) (tables w) oid ord"
  using assms
proof (induction rule: reachable.induct)
  case start
  then show ?case by (simp add: order_kept_def order_step_refl)
next
  case (serve w r)
  then have "order_kept (tables w0) (tables w) oid ord" by simp
  then show ?case
    by (rule order_kept_trans) (use serve_order_kept reachable_frame [OF serve(1)] serve(4) in blast)
qed

lemma serve_charges:
  assumes "idle w" "books_ok (tables w)" "charges_ok w"
  shows "charges_ok (serve L r w)"
proof -
  let ?w' = "serve L r w"
  have ok: "schema_ok (tables w)" using assms(1) by (simp add: idle_def)
  note books' = serve_books [OF assms(1,2), of L r]
  have grow: "set (charges w) \<subseteq> set (charges ?w')"
    using assms(1) by (cases rule: serve_cases [where L = L and r = r]) auto
  have old: "\<exists>ord. row_by o_id (c_order c) (t_orders (tables ?w')) = Some ord \<and> c_amount c = o_total_amount ord"
    if c: "c \<in> set (charges w)" for c
  proof -
    from assms(3) c obtain ord where "row_by o_id (c_order c) (t_orders (tables w)) = Some ord"
      "c_amount c = o_total_amount ord" by (auto simp: charges_ok_def)
    with serve_order_kept [OF assms(1) this(1), of L r] show ?thesis by (auto simp: order_kept_def order_step_def)
  qed
  have keep: "backed ?w' ord"
    if "backed w ord" "row_by y_order_id (o_id ord) (t_payments (tables ?w')) = row_by y_order_id (o_id ord) (t_payments (tables w))"
      "items_of (tables ?w') (o_id ord) = items_of (tables w) (o_id ord)" for ord
    using that grow unfolding backed_def booked_def by force
  show ?thesis
    using assms(1)
  proof (cases rule: serve_cases [where L = L and r = r])
    case same
    with order_part_eq [OF same(1)] assms(3) keep old show ?thesis
      by (simp add: charges_ok_def items_of_def)
  next
    case (placed uid items now res)
    from ok placed(2) have "backed ?w' ord" if k: "row_by o_id k (t_orders (tables ?w')) = Some ord" "o_status ord = ''paid''" for k ord
    proof (cases rule: placed_look)
      case (1 u y rows)
      from k 1 have "k \<noteq> u" by (auto simp: new_order_def)
      moreover have "o_id ord = k" using k by (auto dest: row_by_SomeD)
      ultimately show ?thesis using 1 k assms(3) by (intro keep) (auto simp: charges_ok_def)
    qed
    with old placed(3) show ?thesis by (simp add: charges_ok_def)
  next
    case (cancelled uid oid now res)
    note c = cancelled_orders [OF cancelled(2)]
    have "backed ?w' ord" if k: "row_by o_id k (t_orders (tables ?w')) = Some ord" "o_status ord = ''paid''" for k ord
    proof -
      from c(1) [of k] k have "row_by o_id k (t_orders (tables w)) = Some ord"
        by (cases "row_by o_id k (t_orders (tables w))") (auto split: if_splits)
      with k assms(3) c show ?thesis by (intro keep) (auto simp: charges_ok_def items_of_def)
    qed
    with old cancelled(3) show ?thesis by (simp add: charges_ok_def)
  next
    case (charged uid oid ord0 pay success txid)
    from books_okD [OF assms(2), of oid ord0] charged(2) have
      b0: "booked (tables w) ord0 pay" and id0: "o_id ord0 = oid"
      by (auto simp: found_def booked_def dest: row_by_SomeD)
    have new: "c_amount (charge_of oid pay txid success) = o_total_amount ord0"
      using b0 by (simp add: booked_def charge_of_def)
    have "backed ?w' ord" if k: "row_by o_id k (t_orders (tables ?w')) = Some ord" "o_status ord = ''paid''" for k ord
      using charged(6)
    proof (elim disjE exE)
      assume "tables ?w' = tables w"
      with k assms(3) show ?thesis by (intro keep) (auto simp: charges_ok_def)
    next
      fix now res
      assume s: "settled oid now success txid ord0 pay (tables w) (tables ?w') res"
      note so = settled_orders [OF s]
      have idk: "o_id ord = k" using k by (auto dest: row_by_SomeD)
      show ?thesis
      proof (cases "k = oid")
        case False
        then have "row_by y_order_id k (t_payments (tables ?w')) = row_by y_order_id k (t_payments (tables w))"
          using so(3) [of k] by (cases "row_by y_order_id k (t_payments (tables w))") (auto dest: row_by_SomeD)
        moreover from False so(1) [of k] k have "row_by o_id k (t_orders (tables w)) = Some ord"
          by (cases "row_by o_id k (t_orders (tables w))") (auto dest: row_by_SomeD)
        ultimately show ?thesis
          using k idk assms(3) so(2) by (intro keep) (auto simp: charges_ok_def items_of_def)
      next
        case True
        from True so(1) [of k] k charged(2,3) id0 have succ: success
          and o: "o_total_amount ord = o_total_amount ord0"
          by (auto simp: found_def payable_def split: if_splits)
        from books_okD [OF books' k(1)] obtain pay' where b': "booked (tables ?w') ord pay'" ..
        with idk True so(3) [of oid] charged(2) have "y_transaction_id pay' = Some txid"
          by (auto simp: booked_def found_def dest: row_by_SomeD)
        with b' succ o new idk True charged(5) show ?thesis
          unfolding backed_def by (intro exI [of _ pay'] exI [of _ "charge_of oid pay txid success"])
            (auto simp: charge_of_def)
      qed
    qed
    moreover have "\<exists>ord. row_by o_id oid (t_orders (tables ?w')) = Some ord \<and> o_total_amount ord0 = o_total_amount ord"
      using serve_order_kept [OF assms(1), of oid ord0 L r] charged(2)
      by (auto simp: found_def order_kept_def order_step_def)
    ultimately show ?thesis
      using old charged(5) new by (auto simp: charges_ok_def charge_of_def)
  qed
qed

section \<open>Exactly one charge\<close>

definition successes :: "uuid \<Rightarrow> charge list \<Rightarrow> nat" where
  "successes oid cs = length (filter (\<lambda>c. c_order c = oid \<and> c_success c) cs)"

text \<open>
  While no statement fails: a paid order has exactly one successful charge, any other none, and the
  transaction ids recorded so far were drawn before now.
\<close>

definition charged_once :: "world \<Rightarrow> bool" where
  "charged_once w \<longleftrightarrow>
     (\<forall>oid. successes oid (charges w) =
        (case row_by o_id oid (t_orders (tables w)) of
           None \<Rightarrow> 0 | Some ord \<Rightarrow> if o_status ord = ''paid'' then 1 else 0)) \<and>
     (\<forall>r \<in> set (t_payments (tables w)). \<forall>s. y_transaction_id r = Some s \<longrightarrow>
        (\<exists>n < draw_no w. s = env_txid (env w) n))"

lemma charged_once_fresh:
  assumes "charged_once w" "inj (env_txid (env w))"
  shows "\<forall>n \<ge> draw_no w. \<forall>r \<in> set (t_payments (tables w)). y_transaction_id r \<noteq> Some (env_txid (env w) n)"
  using assms unfolding charged_once_def inj_def by (metis leD)

lemma Pay_settles:
  assumes "idle w" "faultless w" "found uid oid (tables w) ord pay" "payable ord pay"
    and "\<forall>n \<ge> draw_no w. \<forall>r \<in> set (t_payments (tables w)). y_transaction_id r \<noteq> Some (env_txid (env w) n)"
  obtains success txid now res where "drawn w (snd (Pay uid oid w)) success txid"
    "charges (snd (Pay uid oid w)) = charges w @ [charge_of oid pay txid success]"
    "settled oid now success txid ord pay (tables w) (tables (snd (Pay uid oid w))) res"
proof -
  note run = prod.collapse [symmetric, of "Pay uid oid w"]
  have "ord' = ord \<and> pay' = pay" if "found uid oid (tables w) ord' pay'" for ord' pay'
    using that assms(3) by (simp add: found_def)
  with Pay_returns [OF assms run] Pay_cases [OF assms(1) run] assms(4) that show thesis
    unfolding charge_of_def by blast
qed

lemma drawn_lt: "drawn w w' success txid \<Longrightarrow> \<exists>n < draw_no w'. txid = env_txid (env w) n"
  by (auto simp: drawn_def)

lemma set_payment_txid:
  "r \<in> set (set_payment oid status (Some txid) now ps) \<Longrightarrow> y_transaction_id r = Some s \<Longrightarrow>
   s = txid \<or> (\<exists>q \<in> set ps. y_transaction_id q = Some s)"
  by (auto simp: set_payment_def split: if_splits)

lemma serve_charged_once:
  assumes "idle w" "faultless w" "inj (env_txid (env w))" "books_ok (tables w)" "charges_ok w" "charged_once w"
  shows "charged_once (serve L r w)"
proof -
  let ?w' = "serve L r w"
  have ok: "schema_ok (tables w)" using assms(1) by (simp add: idle_def)
  note frame = serve_frame [OF assms(1), of L r]
  note once = assms(6) [unfolded charged_once_def]
  have ids: "\<exists>n < draw_no ?w'. s = env_txid (env ?w') n"
    if "q \<in> set (t_payments (tables w))" "y_transaction_id q = Some s" for q s
    using once that frame by (metis order_less_le_trans)
  have payments: "\<forall>r \<in> set (t_payments (tables ?w')). \<forall>s. y_transaction_id r = Some s \<longrightarrow>
      (\<exists>n < draw_no ?w'. s = env_txid (env ?w') n)"
    if "\<And>q s. q \<in> set (t_payments (tables ?w')) \<Longrightarrow> y_transaction_id q = Some s \<Longrightarrow>
        (\<exists>q' \<in> set (t_payments (tables w)). y_transaction_id q' = Some s)"
    using that ids by blast
  show ?thesis
    using assms(1)
  proof (cases rule: serve_cases [where L = L and r = r])
    case same
    with order_part_eq [OF same(1)] once payments show ?thesis by (auto simp: charged_once_def)
  next
    case (placed uid items now res)
    from ok placed(2) show ?thesis
    proof (cases rule: placed_look)
      case (1 u y rows)
      then have "row_by o_id u (t_orders (tables w)) = None" by (auto simp: row_by_None)
      then have "successes oid (charges ?w') = (case row_by o_id oid (t_orders (tables ?w')) of
           None \<Rightarrow> 0 | Some ord \<Rightarrow> if o_status ord = ''paid'' then 1 else 0)" for oid
        using 1 once placed(3) by (cases "oid = u") (auto simp: new_order_def)
      moreover have "\<forall>r \<in> set (t_payments (tables ?w')). \<forall>s. y_transaction_id r = Some s \<longrightarrow>
          (\<exists>n < draw_no ?w'. s = env_txid (env ?w') n)"
        by (rule payments) (use 1(3) in \<open>auto simp: new_payment_def\<close>)
      ultimately show ?thesis by (simp add: charged_once_def)
    qed
  next
    case (cancelled uid oid now res)
    note c = cancelled_orders [OF cancelled(2)]
    have "successes k (charges ?w') = (case row_by o_id k (t_orders (tables ?w')) of
         None \<Rightarrow> 0 | Some ord \<Rightarrow> if o_status ord = ''paid'' then 1 else 0)" for k
      using once cancelled(3) c(1) [of k] c(4)
      by (cases "row_by o_id k (t_orders (tables w))") (auto dest: row_by_SomeD)
    then show ?thesis using payments c(3) by (auto simp: charged_once_def)
  next
    case (charged uid oid ord0 pay0 success0 txid0)
    note fresh = charged_once_fresh [OF assms(6,3)]
    have run: "serve L r w = snd (Pay uid oid w)" using charged(1) by simp
    obtain success txid now res where
      d: "drawn w ?w' success txid" and cs: "charges ?w' = charges w @ [charge_of oid pay0 txid success]"
      and s: "settled oid now success txid ord0 pay0 (tables w) (tables ?w') res"
      unfolding run by (rule Pay_settles [OF assms(1,2) charged(2,3) fresh])
    note so = settled_orders [OF s]
    have o0: "row_by o_id oid (t_orders (tables w)) = Some ord0" "o_status ord0 \<noteq> ''paid''"
      using charged(2,3) by (auto simp: found_def payable_def)
    have "successes k (charges ?w') = (case row_by o_id k (t_orders (tables ?w')) of
         None \<Rightarrow> 0 | Some ord \<Rightarrow> if o_status ord = ''paid'' then 1 else 0)" for k
    proof (cases "k = oid")
      case True
      moreover have "successes oid (charges w) = 0" using once o0 by simp
      moreover have "o_id ord0 = oid" using o0(1) by (auto dest: row_by_SomeD)
      ultimately show ?thesis
        using so(1) [of k] o0 cs by (simp add: successes_def charge_of_def)
    next
      case False
      then have "row_by o_id k (t_orders (tables ?w')) = row_by o_id k (t_orders (tables w))"
        using so(1) [of k] by (cases "row_by o_id k (t_orders (tables w))") (auto dest: row_by_SomeD)
      with False once cs show ?thesis by (simp add: successes_def charge_of_def)
    qed
    moreover have "\<exists>n < draw_no ?w'. z = env_txid (env ?w') n"
      if "q \<in> set (t_payments (tables ?w'))" "y_transaction_id q = Some z" for q z
      using set_payment_txid [OF that(1) [unfolded so(5)] that(2)] ids drawn_lt [OF d] frame by auto
    ultimately show ?thesis by (auto simp: charged_once_def)
  qed
qed

section \<open>The ledger of units\<close>

text \<open>The units of a product that orders which are not cancelled hold.\<close>

definition holds_stock :: "tables \<Rightarrow> item_row \<Rightarrow> bool" where
  "holds_stock t it \<longleftrightarrow>
     (case row_by o_id (i_order_id it) (t_orders t) of
        None \<Rightarrow> False | Some ord \<Rightarrow> o_status ord \<noteq> ''cancelled'')"

definition reserved :: "tables \<Rightarrow> uuid \<Rightarrow> int" where
  "reserved t pid = units pid (filter (holds_stock t) (t_items t))"

lemma units_filter_split:
  "(\<And>r. r \<in> set rs \<Longrightarrow> P r \<longleftrightarrow> Q r \<or> R r) \<Longrightarrow> (\<And>r. r \<in> set rs \<Longrightarrow> \<not> (Q r \<and> R r)) \<Longrightarrow>
   units pid (filter P rs) = units pid (filter Q rs) + units pid (filter R rs)"
  by (induction rs) auto

text \<open>What leaves the stock is held by an order, and what comes back no longer is.\<close>

lemma ledger_placed:
  assumes "schema_ok t" and "placed uid items now res t t'"
  shows "stock_of t' pid = map_option (\<lambda>n. n + reserved t pid - reserved t' pid) (stock_of t pid)"
  using assms
proof (cases rule: placed_look)
  case (1 u y rows)
  have old: "holds_stock t' it = holds_stock t it" if "it \<in> set (t_items t)" for it
  proof -
    have "i_order_id it \<in> o_id ` set (t_orders t)" using assms(1) that by (auto simp: schema_ok_def)
    then have "i_order_id it \<noteq> u" using 1(1) by auto
    from 1(11) [OF this] show ?thesis by (simp add: holds_stock_def)
  qed
  have "holds_stock t' it" if "it \<in> set rows" for it
    using 1(7,12) that by (simp add: holds_stock_def new_order_def)
  then have "filter (holds_stock t') (t_items t') = filter (holds_stock t) (t_items t) @ rows"
    using 1(4) old by (simp add: filter_id_conv cong: filter_cong)
  then have "reserved t' pid = reserved t pid + units pid rows" by (simp add: reserved_def)
  with 1(13) show ?thesis by simp
qed

lemma ledger_cancelled:
  assumes "cancelled uid oid now res t t'"
  shows "stock_of t' pid = map_option (\<lambda>n. n + reserved t pid - reserved t' pid) (stock_of t pid)"
proof -
  note c = cancelled_orders [OF assms]
  from c(4) obtain ord where ord: "row_by o_id oid (t_orders t) = Some ord" "o_status ord = ''pending''" by blast
  have "holds_stock t it \<longleftrightarrow> holds_stock t' it \<or> i_order_id it = oid" for it
    using c(1) [of "i_order_id it"] ord
    by (cases "row_by o_id (i_order_id it) (t_orders t)") (auto simp: holds_stock_def dest: row_by_SomeD)
  moreover have "\<not> (holds_stock t' it \<and> i_order_id it = oid)" for it
    using c(1) [of oid] ord by (auto simp: holds_stock_def dest: row_by_SomeD)
  ultimately have "reserved t pid = reserved t' pid + units pid (items_of t oid)"
    unfolding reserved_def items_of_def c(2) by (intro units_filter_split) auto
  moreover have "stock_of t' pid = map_option (\<lambda>n. n + units pid (items_of t oid)) (stock_of t pid)"
    using assms by (auto simp: cancelled_def)
  ultimately show ?thesis by simp
qed

lemma ledger_settled:
  assumes "settled oid now success txid ord pay t t' res" and "found uid oid t ord pay" "payable ord pay"
  shows "stock_of t' pid = map_option (\<lambda>n. n + reserved t pid - reserved t' pid) (stock_of t pid)"
proof -
  note so = settled_orders [OF assms(1)]
  have "holds_stock t' it = holds_stock t it" for it
    using so(1) [of "i_order_id it"] assms(2,3)
    by (cases "row_by o_id (i_order_id it) (t_orders t)")
      (auto simp: holds_stock_def found_def payable_def dest: row_by_SomeD)
  then have "holds_stock t' = holds_stock t" by (rule ext)
  moreover have "stock_of t' = stock_of t" by (rule stock_of_cong) (rule so)
  ultimately show ?thesis using so(2) by (simp add: reserved_def option.map_ident)
qed

lemma ledger_same:
  assumes "order_part True t' = order_part True t"
  shows "stock_of t' pid = map_option (\<lambda>n. n + reserved t pid - reserved t' pid) (stock_of t pid)"
proof -
  from order_part_eq [OF assms] have "holds_stock t' = holds_stock t" "t_items t' = t_items t"
    and "t_products t' = t_products t"
    by (simp_all add: holds_stock_def fun_eq_iff)
  then show ?thesis by (simp add: reserved_def stock_of_def option.map_comp o_def)
qed

lemma move_ledger:
  assumes "order_move True t t'" "schema_ok t"
  shows "stock_of t' pid = map_option (\<lambda>n. n + reserved t pid - reserved t' pid) (stock_of t pid)"
  using assms(1)
proof (cases rule: order_move_cases)
  case (placed uid items now res)
  with ledger_placed [OF assms(2)] show ?thesis .
qed (fact ledger_same, fact ledger_cancelled, use ledger_settled in blast)

lemma serve_ledger:
  assumes "idle w" "\<not> catalog_request r"
  shows "stock_of (tables (serve L r w)) pid =
    map_option (\<lambda>n. n + reserved (tables w) pid - reserved (tables (serve L r w)) pid) (stock_of (tables w) pid)"
  using move_ledger [of "tables w" "tables (serve L r w)"] serve_move [OF assms(1), of r L] assms
  by (simp add: idle_def)

section \<open>Invariants of the reachable states\<close>

lemma reachable_books:
  "reachable L P w0 w \<Longrightarrow> idle w0 \<Longrightarrow> books_ok (tables w0) \<Longrightarrow> books_ok (tables w)"
proof (induction rule: reachable.induct)
  case (serve w r)
  with serve_books [of w L r] reachable_frame [OF serve(1)] show ?case by simp
qed

lemma reachable_charges:
  "reachable L P w0 w \<Longrightarrow> idle w0 \<Longrightarrow> books_ok (tables w0) \<Longrightarrow> charges_ok w0 \<Longrightarrow> charges_ok w"
proof (induction rule: reachable.induct)
  case (serve w r)
  with serve_charges [of w L r] reachable_frame [OF serve(1)] reachable_books [OF serve(1)] show ?case by simp
qed

lemma reachable_once:
  "reachable L P w0 w \<Longrightarrow> idle w0 \<Longrightarrow> books_ok (tables w0) \<Longrightarrow> charges_ok w0 \<Longrightarrow> faultless w0 \<Longrightarrow>
   inj (env_txid (env w0)) \<Longrightarrow> charged_once w0 \<Longrightarrow> charged_once w"
proof (induction rule: reachable.induct)
  case (serve w r)
  with reachable_frame [OF serve(1)] reachable_books [OF serve(1)] reachable_charges [OF serve(1)] show ?case
    by (intro serve_charged_once) (simp_all add: faultless_def)
qed

lemma reachable_ledger:
  "reachable L (\<lambda>r. \<not> catalog_request r) w0 w \<Longrightarrow> idle w0 \<Longrightarrow>
   stock_of (tables w) pid =
     map_option (\<lambda>n. n + reserved (tables w0) pid - reserved (tables w) pid) (stock_of (tables w0) pid)"
proof (induction rule: reachable.induct)
  case start
  then show ?case by (simp add: option.map_ident)
next
  case (serve w r)
  with serve_ledger [of w r L pid] reachable_frame [OF serve(1)] show ?case
    by (simp add: option.map_comp o_def algebra_simps)
qed

text \<open>An order book without orders satisfies every invariant.\<close>

definition blank :: "world \<Rightarrow> bool" where
  "blank w \<longleftrightarrow> t_orders (tables w) = [] \<and> t_payments (tables w) = [] \<and> t_items (tables w) = [] \<and> charges w = []"

lemma blank_invariants: "blank w \<Longrightarrow> books_ok (tables w) \<and> charges_ok w \<and> charged_once w"
  by (simp add: blank_def books_ok_def charges_ok_def charged_once_def successes_def)

definition sample_libs :: libs where
  "sample_libs = \<lparr>lib_bcrypt = sample_bcrypt, lib_jwt = sample_jwt, lib_manager = sample_manager\<rparr>"

text \<open>Sample runs: place an order and pay it; place it and cancel it.\<close>

definition sample_start :: "(nat \<Rightarrow> fault) \<Rightarrow> world" where
  "sample_start faults = sample_world faults 7 sample_tables"

definition sample_run :: "request list \<Rightarrow> (nat \<Rightarrow> fault) \<Rightarrow> world" where
  "sample_run rs faults = fold (serve sample_libs) rs (sample_start faults)"

lemma reachable_fold: "\<forall>r \<in> set rs. P r \<Longrightarrow> reachable L P w0 (fold (serve L) rs w0)"
proof (induction rs rule: rev_induct)
  case Nil
  then show ?case by (simp add: reachable.start)
next
  case (snoc r rs)
  then show ?case by (simp add: reachable.serve)
qed

lemma sample_reached:
  "\<forall>r \<in> set rs. P r \<Longrightarrow> reachable sample_libs P (sample_start faults) (sample_run rs faults)"
  unfolding sample_run_def by (rule reachable_fold)

lemma sample_start_ok: "idle (sample_start faults)" "blank (sample_start faults)"
  by (simp_all add: sample_start_def sample_idle_tables) (simp add: blank_def sample_tables_def)

section \<open>Properties\<close>

text \<open>
  The books always balance: whatever requests were served and whatever failed, no transaction is
  left open, the schema's constraints hold, and every order has its payment, over the order's total,
  which is the sum of its items' subtotals; the payment is successful exactly when the order is paid.
\<close>

theorem books_balance:
  assumes "reachable L any_request w0 w" and "idle w0" and "books_ok (tables w0)"
  shows "idle w \<and> books_ok (tables w)"
  using reachable_frame [OF assms(1,2)] reachable_books [OF assms] by blast

theorem books_balance_witness:
  "books_ok (tables (sample_run [PlaceOrder 1 sample_items, PayOrder 1 100] all_works)) \<and>
   map o_status (t_orders (tables (sample_run [PlaceOrder 1 sample_items, PayOrder 1 100] all_works))) = [''paid'']"
proof -
  have "map o_status (t_orders (tables (sample_run [PlaceOrder 1 sample_items, PayOrder 1 100] all_works))) = [''paid'']"
    by code_simp
  with books_balance [OF sample_reached sample_start_ok(1)] blank_invariants [OF sample_start_ok(2)]
  show ?thesis by simp
qed

text \<open>
  C16. No order is paid without money: whatever requests were served and whatever failed, every paid
  order is backed by a successful charge of its total, under the transaction id its payment records;
  and every charge ever made was for an order that exists, of its total.
\<close>

theorem paid_orders_are_charged:
  assumes "reachable L any_request w0 w" and "idle w0" and "blank w0"
  shows "(\<forall>ord \<in> set (t_orders (tables w)). o_status ord = ''paid'' \<longrightarrow>
      (\<exists>pay c. booked (tables w) ord pay \<and> c \<in> set (charges w) \<and> c_success c \<and> c_order c = o_id ord \<and>
         c_amount c = o_total_amount ord \<and> y_transaction_id pay = Some (c_txid c))) \<and>
    (\<forall>c \<in> set (charges w). \<exists>ord \<in> set (t_orders (tables w)). o_id ord = c_order c \<and> c_amount c = o_total_amount ord)"
proof -
  have "distinct (map o_id (t_orders (tables w)))"
    using reachable_frame [OF assms(1,2)] by (simp add: idle_def schema_ok_def)
  with reachable_charges [OF assms(1,2)] blank_invariants [OF assms(3)] show ?thesis
    unfolding charges_ok_def backed_def by (force simp: row_by_Some)
qed

theorem paid_orders_are_charged_witness:
  "\<exists>ord \<in> set (t_orders (tables (sample_run [PlaceOrder 1 sample_items, PayOrder 1 100] all_works))).
     \<exists>c \<in> set (charges (sample_run [PlaceOrder 1 sample_items, PayOrder 1 100] all_works)).
       o_status ord = ''paid'' \<and> c_success c \<and> c_amount c = o_total_amount ord"
proof -
  let ?w = "sample_run [PlaceOrder 1 sample_items, PayOrder 1 100] all_works"
  have "map o_status (t_orders (tables ?w)) = [''paid'']" by code_simp
  then obtain ord where "ord \<in> set (t_orders (tables ?w))" "o_status ord = ''paid''" by auto
  with paid_orders_are_charged [OF sample_reached sample_start_ok, of "[PlaceOrder 1 sample_items, PayOrder 1 100]" all_works]
  show ?thesis by fastforce
qed



text \<open>
  C18. The life of an order: it never disappears, its id, owner, total, creation time and items never
  change, and its status leaves \<open>pending\<close> at most once, for \<open>paid\<close> or \<open>cancelled\<close>, which are final.
\<close>

theorem order_life:
  assumes "reachable L any_request w0 w" and "idle w0"
    and "row_by o_id oid (t_orders (tables w0)) = Some ord"
  shows "\<exists>ord'. row_by o_id oid (t_orders (tables w)) = Some ord' \<and>
    o_user_id ord' = o_user_id ord \<and> o_total_amount ord' = o_total_amount ord \<and> o_created_at ord' = o_created_at ord \<and>
    (o_status ord' = o_status ord \<or> o_status ord = ''pending'' \<and> o_status ord' \<in> {''paid'', ''cancelled''}) \<and>
    items_of (tables w) oid = items_of (tables w0) oid"
  using reachable_order_kept [OF assms] by (auto simp: order_kept_def order_step_def)

theorem order_life_witness:
  "\<exists>ord'. row_by o_id 100 (t_orders (tables (fold (serve sample_libs)
       [CancelOrderOf 1 100, PayOrder 1 100] (sample_placed all_works 7)))) = Some ord' \<and>
     o_status ord' \<in> {''pending'', ''paid'', ''cancelled''}"
proof -
  let ?w0 = "sample_placed all_works 7"
  have "map_option o_status (row_by o_id 100 (t_orders (tables ?w0))) = Some ''pending''" by code_simp
  then obtain ord where "row_by o_id 100 (t_orders (tables ?w0)) = Some ord" "o_status ord = ''pending''" by auto
  with order_life [OF reachable_fold sample_idle(2) this(1)] show ?thesis by fastforce
qed

text \<open>
  C15. Units are neither lost nor made: as long as nobody edits the catalog, what a product has in
  stock plus what orders that are not cancelled hold of it stays the same, whatever requests were
  served and whatever failed; and no stock is ever negative.
\<close>

theorem units_are_conserved:
  assumes "reachable L (\<lambda>r. \<not> catalog_request r) w0 w" and "idle w0"
    and "stock_of (tables w0) pid = Some n0"
  shows "\<exists>n \<ge> 0. stock_of (tables w) pid = Some n \<and>
    n + reserved (tables w) pid = n0 + reserved (tables w0) pid"
proof -
  have "stock_of (tables w) pid = Some (n0 + reserved (tables w0) pid - reserved (tables w) pid)"
    using reachable_ledger [OF assms(1,2), of pid] assms(3) by simp
  moreover have "0 \<le> n" if "stock_of (tables w) pid = Some n" for n
  proof -
    from that obtain r where r: "r \<in> set (t_products (tables w))" "n = sint (p_stock r)"
      by (auto simp: stock_of_def dest: row_by_SomeD)
    moreover have "\<forall>r \<in> set (t_products (tables w)). product_check r"
      using reachable_frame [OF assms(1,2)] by (simp add: idle_def schema_ok_def)
    ultimately show ?thesis by (simp add: product_check_def)
  qed
  ultimately show ?thesis by simp
qed

theorem units_are_conserved_witness:
  "stock_of (tables (sample_run [PlaceOrder 1 sample_items] all_works)) 20 = Some 0 \<and>
   reserved (tables (sample_run [PlaceOrder 1 sample_items] all_works)) 20 = 3"
proof -
  have start: "stock_of (tables (sample_start all_works)) 20 = Some 3"
    "reserved (tables (sample_start all_works)) 20 = 0"
    and now: "stock_of (tables (sample_run [PlaceOrder 1 sample_items] all_works)) 20 = Some 0" by code_simp+
  obtain n where "stock_of (tables (sample_run [PlaceOrder 1 sample_items] all_works)) 20 = Some n"
    "n + reserved (tables (sample_run [PlaceOrder 1 sample_items] all_works)) 20 = 3"
    using units_are_conserved [OF sample_reached sample_start_ok(1) start(1), of "[PlaceOrder 1 sample_items]"] start(2)
    by auto
  with now show ?thesis by simp
qed

section \<open>What the invariants do not say\<close>

text \<open>
  Without the hypothesis that no statement fails, an order can be charged more than once: a charge is
  made before its outcome is written, and nothing takes it back when the commit fails (statement 17
  of this run); the payment is still pending, so paying again charges again.
\<close>

lemma charged_twice_when_commit_fails:
  "successes 100 (charges (sample_run [PlaceOrder 1 sample_items, PayOrder 1 100, PayOrder 1 100]
     (fault_at 17 Fails))) = 2"
  by code_simp

end
