(* ===== verification/Isolation.thy ===== *)
theory Isolation
  imports Order_System
begin

text \<open>
  The transactions of \<open>order_service.go\<close> among concurrent ones. In PostgreSQL's \<open>READ COMMITTED\<close>, which
  \<open>WithinTx\<close> asks for by \<open>pgx.TxOptions{}\<close>, every statement of a transaction sees what others have
  committed by then, plus the transaction's own changes. \<open>amid\<close> runs a statement so, over a given
  sequence of states other transactions commit in the meantime, arbitrary but for what the database
  guarantees: the rows the transaction has locked stay as they are, and no commit breaks a constraint
  together with the transaction's own rows. The locale \<open>order_store\<close> holds of the repository run so,
  so the service does to the state committed last, amid everything else, what it does alone.
\<close>

section \<open>A transaction among others\<close>

text \<open>
  What a transaction with the row locks \<open>ls\<close> sees over the committed tables \<open>c\<close>: of the rows it has
  locked its own version, found in \<open>m\<close>, the tables its last statement left, of the others the
  committed one; after them the rows it has inserted, those of \<open>m\<close> beyond the committed tables \<open>b\<close> that
  statement had started from.
\<close>

definition newest :: "('r \<Rightarrow> uuid) \<Rightarrow> 'r list \<Rightarrow> 'r \<Rightarrow> 'r" where
  "newest key rs r = (case row_by key (key r) rs of None \<Rightarrow> r | Some r' \<Rightarrow> r')"

definition overlay :: "(uuid \<Rightarrow> bool) \<Rightarrow> ('r \<Rightarrow> uuid) \<Rightarrow> 'r list \<Rightarrow> 'r list \<Rightarrow> 'r list \<Rightarrow> 'r list" where
  "overlay locked key b m c =
     map (\<lambda>r. if locked (key r) then newest key m r else r) c @ drop (length b) m"

definition seen :: "row_lock list \<Rightarrow> tables \<Rightarrow> tables \<Rightarrow> tables \<Rightarrow> tables" where
  "seen ls b m c = c\<lparr>
     t_products := overlay (\<lambda>k. ProductLock k \<in> set ls) p_id (t_products b) (t_products m) (t_products c),
     t_orders := overlay (\<lambda>k. OrderLock k \<in> set ls) o_id (t_orders b) (t_orders m) (t_orders c),
     t_items := overlay (\<lambda>k. False) i_id (t_items b) (t_items m) (t_items c),
     t_payments := overlay (\<lambda>k. PaymentLock k \<in> set ls) y_id (t_payments b) (t_payments m) (t_payments c)\<rparr>"

text \<open>
  What a lock of the transaction keeps from changing. An \<open>INSERT\<close> into \<open>order_items\<close> takes a \<open>KEY SHARE\<close>
  lock on the order it refers to, which waits for a \<open>FOR UPDATE\<close> lock, so a locked order gets no items.
\<close>

fun unchanged :: "tables \<Rightarrow> tables \<Rightarrow> row_lock \<Rightarrow> bool" where
  "unchanged c c' (ProductLock k) \<longleftrightarrow> row_by p_id k (t_products c') = row_by p_id k (t_products c)"
| "unchanged c c' (OrderLock k) \<longleftrightarrow>
     row_by o_id k (t_orders c') = row_by o_id k (t_orders c) \<and> items_of c' k = items_of c k"
| "unchanged c c' (PaymentLock k) \<longleftrightarrow> row_by y_id k (t_payments c') = row_by y_id k (t_payments c)"

definition isolated :: "row_lock list \<Rightarrow> tables \<Rightarrow> tables \<Rightarrow> tables \<Rightarrow> bool" where
  "isolated ls b m c \<longleftrightarrow> schema_ok (seen ls b m c) \<and> list_all (unchanged b c) ls"

text \<open>
  A running transaction: its own state, the committed tables its last statement started from, and the
  committed tables to come, up to those it commits on top of. A statement takes the next of them, and
  the sequence has to be one the database allows from then on; for another the run ends in an error.
\<close>

record running =
  run_own :: world
  run_base :: tables
  run_later :: "tables list"

definition amid :: "'a db_op \<Rightarrow> (running, go_error, 'a) op" where
  "amid f s =
     (case run_later s of
        [] \<Rightarrow> (Inl ErrConn, s)
      | c # cs \<Rightarrow>
          let own = run_own s;
              (r, w) = f (own\<lparr>tables := seen (locks own) (run_base s) (tables own) c\<rparr>) in
          (if isl r \<or> list_all (isolated (locks w) c (tables w)) (c # cs) then r else Inl ErrConn,
           \<lparr>run_own = w, run_base = c, run_later = cs\<rparr>))"

definition amid_repository :: "running store" where
  "amid_repository = \<lparr>
     st_LockProductForUpdate = (\<lambda>pid. amid (store_LockProductForUpdate pid)),
     st_DecreaseProductStock = (\<lambda>pid q. amid (store_DecreaseProductStock pid q)),
     st_IncreaseProductStock = (\<lambda>pid q. amid (store_IncreaseProductStock pid q)),
     st_CreateOrder = (\<lambda>uid amt. amid (store_CreateOrder uid amt)),
     st_CreateOrderItem = (\<lambda>prm. amid (store_CreateOrderItem prm)),
     st_CreatePayment = (\<lambda>oid amt. amid (store_CreatePayment oid amt)),
     st_LockOrderForUpdate = (\<lambda>uid oid. amid (store_LockOrderForUpdate uid oid)),
     st_GetOrderItemsByOrderID = (\<lambda>oid. amid (store_GetOrderItemsByOrderID oid)),
     st_UpdateOrderStatus = (\<lambda>uid oid status. amid (store_UpdateOrderStatus uid oid status)),
     st_GetOrders = (\<lambda>uid. amid (store_GetOrders uid)),
     st_GetOrderByID = (\<lambda>uid oid. amid (store_GetOrderByID uid oid))\<rparr>"

text \<open>The tables it commits on top of, and what it would leave if it committed now.\<close>

definition final :: "running \<Rightarrow> tables" where
  "final s = last (run_base s # run_later s)"

definition outcome :: "running \<Rightarrow> tables" where
  "outcome s = seen (locks (run_own s)) (run_base s) (tables (run_own s)) (final s)"

definition runs :: "running \<Rightarrow> bool" where
  "runs s \<longleftrightarrow> live (run_own s) \<and>
     list_all (isolated (locks (run_own s)) (run_base s) (tables (run_own s))) (run_base s # run_later s)"

section \<open>Overlays\<close>

lemma newest_key [simp]: "key (newest key rs r) = key r"
  by (auto simp: newest_def dest: row_by_SomeD split: option.splits)

lemma overlay_none [simp]: "overlay (\<lambda>k. False) key b m c = c @ drop (length b) m"
  by (simp add: overlay_def)

lemma row_by_map: "(\<And>r. key (g r) = key r) \<Longrightarrow> row_by key k (map g rs) = map_option g (row_by key k rs)"
  by (induction rs) auto

lemma row_by_overlay:
  "row_by key k c' = row_by key k c \<Longrightarrow>
   row_by key k (overlay locked key b m c') = row_by key k (overlay locked key b m c)"
  by (simp add: overlay_def row_by_append row_by_map)

lemma distinct_overlay: "distinct (map key (overlay locked key b m c)) \<Longrightarrow> distinct (map key c)"
  by (simp add: overlay_def o_def if_distrib [of key] cong: if_cong)

text \<open>
  A statement that changed locked rows by \<open>g\<close> and appended \<open>new\<close>, over the committed rows \<open>c\<close>, has done
  so over any others \<open>c'\<close> that agree on the locked rows.
\<close>

lemma overlay_step:
  assumes d: "distinct (map key c')" and key: "\<And>r. key (g r) = key r"
    and more: "\<And>k. locked k \<Longrightarrow> locked' k" and free: "\<And>r. \<not> locked' (key r) \<Longrightarrow> g r = r"
    and same: "\<And>k. locked' k \<Longrightarrow> row_by key k c' = row_by key k c"
  shows "overlay locked' key c (map g (overlay locked key b m c) @ new) c' =
    map g (overlay locked key b m c') @ new"
proof -
  let ?h = "\<lambda>r. if locked (key r) then newest key m r else r"
  have "newest key (map g (overlay locked key b m c) @ new) r = g (?h r)"
    if "r \<in> set c'" "locked' (key r)" for r
  proof -
    from d that(1) have "row_by key (key r) c' = Some r" by (simp add: row_by_Some)
    with same [OF that(2)] have c: "row_by key (key r) c = Some r" by (rule trans [OF sym])
    have "row_by key (key r) (map ?h c) = Some (?h r)"
      by (subst row_by_map) (simp_all add: c)
    then have "row_by key (key r) (map g (map ?h c)) = Some (g (?h r))"
      by (subst row_by_map) (simp_all add: key)
    then show ?thesis
      by (simp add: newest_def overlay_def row_by_append del: map_map)
  qed
  then show ?thesis
    using more free by (auto simp: overlay_def)
qed

lemma seen_simps [simp]:
  "t_users (seen ls b m c) = t_users c" "t_keys (seen ls b m c) = t_keys c"
  "t_items (seen ls b m c) = t_items c @ drop (length (t_items b)) (t_items m)"
  by (simp_all add: seen_def)

lemma seen_rows:
  "t_products (seen ls b m c) = overlay (\<lambda>k. ProductLock k \<in> set ls) p_id (t_products b) (t_products m) (t_products c)"
  "t_orders (seen ls b m c) = overlay (\<lambda>k. OrderLock k \<in> set ls) o_id (t_orders b) (t_orders m) (t_orders c)"
  "t_payments (seen ls b m c) = overlay (\<lambda>k. PaymentLock k \<in> set ls) y_id (t_payments b) (t_payments m) (t_payments c)"
  by (simp_all add: seen_def)

lemma distinct_seen:
  assumes "schema_ok (seen ls b m c)"
  shows "distinct (map p_id (t_products c))" "distinct (map o_id (t_orders c))" "distinct (map y_id (t_payments c))"
  using assms by (auto simp: schema_ok_def seen_rows dest!: distinct_overlay)

lemma seen_step:
  assumes ok: "schema_ok (seen ls b m c')" and same: "\<forall>l \<in> set ls'. unchanged c c' l" and more: "set ls \<subseteq> set ls'"
    and gp: "\<And>r. p_id (gp r) = p_id r" "\<And>r. ProductLock (p_id r) \<notin> set ls' \<Longrightarrow> gp r = r"
    and go: "\<And>r. o_id (go r) = o_id r" "\<And>r. OrderLock (o_id r) \<notin> set ls' \<Longrightarrow> go r = r"
    and gy: "\<And>r. y_id (gy r) = y_id r" "\<And>r. PaymentLock (y_id r) \<notin> set ls' \<Longrightarrow> gy r = r"
    and t: "t = (seen ls b m c)\<lparr>
      t_products := map gp (t_products (seen ls b m c)), t_orders := map go (t_orders (seen ls b m c)) @ os,
      t_items := t_items (seen ls b m c) @ its, t_payments := map gy (t_payments (seen ls b m c)) @ ys\<rparr>"
  shows "seen ls' c t c' = (seen ls b m c')\<lparr>
      t_products := map gp (t_products (seen ls b m c')), t_orders := map go (t_orders (seen ls b m c')) @ os,
      t_items := t_items (seen ls b m c') @ its, t_payments := map gy (t_payments (seen ls b m c')) @ ys\<rparr>"
proof -
  note d = distinct_seen [OF ok]
  have p: "overlay (\<lambda>k. ProductLock k \<in> set ls') p_id (t_products c) (map gp (t_products (seen ls b m c)) @ []) (t_products c') =
      map gp (t_products (seen ls b m c')) @ []"
    unfolding seen_rows using same more gp by (intro overlay_step d(1)) auto
  have o: "overlay (\<lambda>k. OrderLock k \<in> set ls') o_id (t_orders c) (map go (t_orders (seen ls b m c)) @ os) (t_orders c') =
      map go (t_orders (seen ls b m c')) @ os"
    unfolding seen_rows using same more go by (intro overlay_step d(2)) auto
  have y: "overlay (\<lambda>k. PaymentLock k \<in> set ls') y_id (t_payments c) (map gy (t_payments (seen ls b m c)) @ ys) (t_payments c') =
      map gy (t_payments (seen ls b m c')) @ ys"
    unfolding seen_rows using same more gy by (intro overlay_step d(3)) auto
  show ?thesis
    unfolding seen_def [of ls'] using p o y by (simp add: t seen_def)
qed

section \<open>A statement amid others\<close>

lemma last_final: "run_later s = c # cs \<Longrightarrow> final s = last (c # cs)"
  by (simp add: final_def)

lemma isolatedD:
  "isolated ls b m c \<Longrightarrow> schema_ok (seen ls b m c)"
  "isolated ls b m c \<Longrightarrow> l \<in> set ls \<Longrightarrow> unchanged b c l"
  by (auto simp: isolated_def list_all_iff)

lemma runs_outcome: "runs s \<Longrightarrow> schema_ok (outcome s)"
  unfolding runs_def outcome_def final_def by (auto simp: list_all_iff intro!: isolatedD(1))

lemma unchanged_trans: "unchanged b c l \<Longrightarrow> unchanged b c' l \<Longrightarrow> unchanged c c' l"
  by (cases l) auto

text \<open>
  A statement that succeeded ran on tables \<open>V\<close> that agree with the outcome so far wherever the
  transaction holds a lock, and what it did there it did to the outcome.
\<close>

lemma amid_effect:
  assumes "runs s" and r: "amid f s = (Inr a, s')"
  obtains V where
    "live ((run_own s)\<lparr>tables := V\<rparr>)" "f ((run_own s)\<lparr>tables := V\<rparr>) = (Inr a, run_own s')"
    "\<And>k. ProductLock k \<in> set (locks (run_own s)) \<union> set (locks (run_own s')) \<Longrightarrow>
       row_by p_id k (t_products (outcome s)) = row_by p_id k (t_products V)"
    "\<And>k. OrderLock k \<in> set (locks (run_own s)) \<union> set (locks (run_own s')) \<Longrightarrow>
       row_by o_id k (t_orders (outcome s)) = row_by o_id k (t_orders V)"
    "\<And>k. OrderLock k \<in> set (locks (run_own s)) \<Longrightarrow> items_of (outcome s) k = items_of V k"
    "\<And>k. PaymentLock k \<in> set (locks (run_own s)) \<union> set (locks (run_own s')) \<Longrightarrow>
       row_by y_id k (t_payments (outcome s)) = row_by y_id k (t_payments V)"
    "\<And>gp go gy os its ys. live (run_own s') \<Longrightarrow> set (locks (run_own s)) \<subseteq> set (locks (run_own s')) \<Longrightarrow>
       (\<And>r. p_id (gp r) = p_id r) \<Longrightarrow> (\<And>r. ProductLock (p_id r) \<notin> set (locks (run_own s')) \<Longrightarrow> gp r = r) \<Longrightarrow>
       (\<And>r. o_id (go r) = o_id r) \<Longrightarrow> (\<And>r. OrderLock (o_id r) \<notin> set (locks (run_own s')) \<Longrightarrow> go r = r) \<Longrightarrow>
       (\<And>r. y_id (gy r) = y_id r) \<Longrightarrow> (\<And>r. PaymentLock (y_id r) \<notin> set (locks (run_own s')) \<Longrightarrow> gy r = r) \<Longrightarrow>
       tables (run_own s') = V\<lparr>t_products := map gp (t_products V), t_orders := map go (t_orders V) @ os,
         t_items := t_items V @ its, t_payments := map gy (t_payments V) @ ys\<rparr> \<Longrightarrow>
       runs s' \<and> outcome s' = (outcome s)\<lparr>t_products := map gp (t_products (outcome s)),
         t_orders := map go (t_orders (outcome s)) @ os, t_items := t_items (outcome s) @ its,
         t_payments := map gy (t_payments (outcome s)) @ ys\<rparr>"
proof -
  let ?own = "run_own s"
  let ?ls = "locks ?own" and ?seen = "seen (locks ?own) (run_base s) (tables ?own)"
  from r obtain c cs where later: "run_later s = c # cs" by (auto simp: amid_def split: list.splits)
  with r obtain w where f: "f (?own\<lparr>tables := ?seen c\<rparr>) = (Inr a, w)"
    and s': "s' = \<lparr>run_own = w, run_base = c, run_later = cs\<rparr>"
    and all: "list_all (isolated (locks w) c (tables w)) (c # cs)"
    by (auto simp: amid_def Let_def split: prod.splits if_splits)
  have fin: "final s' = final s" "final s \<in> set (c # cs)"
    unfolding last_final [OF later] by (simp_all add: final_def s')
  from assms(1) later have live: "live ?own"
    and old: "isolated ?ls (run_base s) (tables ?own) c" "isolated ?ls (run_base s) (tables ?own) (final s)"
    using fin(2) by (auto simp: runs_def list_all_iff)
  have now: "unchanged c (final s) l" if "l \<in> set ?ls \<union> set (locks w)" for l
    using that
  proof
    assume "l \<in> set ?ls"
    with old show ?thesis by (blast intro: unchanged_trans dest: isolatedD(2))
  qed (use all fin(2) in \<open>auto simp: list_all_iff dest: isolatedD(2)\<close>)
  show thesis
  proof (rule that [of "?seen c"])
    show "live (?own\<lparr>tables := ?seen c\<rparr>)"
      using live isolatedD(1) [OF old(1)] by (simp add: live_def holds_def)
    show "f (?own\<lparr>tables := ?seen c\<rparr>) = (Inr a, run_own s')" using f s' by simp
    show "row_by p_id k (t_products (outcome s)) = row_by p_id k (t_products (?seen c))"
      if "ProductLock k \<in> set ?ls \<union> set (locks (run_own s'))" for k
      using now [of "ProductLock k"] that s' unfolding outcome_def seen_rows by (intro row_by_overlay) simp
    show "row_by o_id k (t_orders (outcome s)) = row_by o_id k (t_orders (?seen c))"
      if "OrderLock k \<in> set ?ls \<union> set (locks (run_own s'))" for k
      using now [of "OrderLock k"] that s' unfolding outcome_def seen_rows by (intro row_by_overlay) simp
    show "row_by y_id k (t_payments (outcome s)) = row_by y_id k (t_payments (?seen c))"
      if "PaymentLock k \<in> set ?ls \<union> set (locks (run_own s'))" for k
      using now [of "PaymentLock k"] that s' unfolding outcome_def seen_rows by (intro row_by_overlay) simp
    show "items_of (outcome s) k = items_of (?seen c) k" if "OrderLock k \<in> set ?ls" for k
      using isolatedD(2) [OF old(1) that] isolatedD(2) [OF old(2) that]
      by (simp add: outcome_def items_of_def)
  next
    fix gp go gy os its ys
    assume "live (run_own s')" and more: "set ?ls \<subseteq> set (locks (run_own s'))"
      and gs: "\<And>r. p_id (gp r) = p_id r" "\<And>r. ProductLock (p_id r) \<notin> set (locks (run_own s')) \<Longrightarrow> gp r = r"
        "\<And>r. o_id (go r) = o_id r" "\<And>r. OrderLock (o_id r) \<notin> set (locks (run_own s')) \<Longrightarrow> go r = r"
        "\<And>r. y_id (gy r) = y_id r" "\<And>r. PaymentLock (y_id r) \<notin> set (locks (run_own s')) \<Longrightarrow> gy r = r"
      and t: "tables (run_own s') = (?seen c)\<lparr>t_products := map gp (t_products (?seen c)),
        t_orders := map go (t_orders (?seen c)) @ os, t_items := t_items (?seen c) @ its,
        t_payments := map gy (t_payments (?seen c)) @ ys\<rparr>"
    have "\<forall>l \<in> set (locks (run_own s')). unchanged c (final s) l" using now s' by simp
    from seen_step [OF isolatedD(1) [OF old(2)] this more gs t]
    have "outcome s' = (outcome s)\<lparr>t_products := map gp (t_products (outcome s)),
         t_orders := map go (t_orders (outcome s)) @ os, t_items := t_items (outcome s) @ its,
         t_payments := map gy (t_payments (outcome s)) @ ys\<rparr>"
      unfolding outcome_def fin(1) by (simp add: s')
    moreover have "runs s'" using \<open>live (run_own s')\<close> all s' by (simp add: runs_def)
    ultimately show "runs s' \<and> outcome s' = (outcome s)\<lparr>t_products := map gp (t_products (outcome s)),
         t_orders := map go (t_orders (outcome s)) @ os, t_items := t_items (outcome s) @ its,
         t_payments := map gy (t_payments (outcome s)) @ ys\<rparr>" by blast
  qed
qed

section \<open>The repository keeps its contract\<close>

abbreviation run_locks :: "running \<Rightarrow> row_lock list" where
  "run_locks s \<equiv> locks (run_own s)"

abbreviation run_now :: "running \<Rightarrow> time" where
  "run_now s \<equiv> db_now (run_own s)"

lemma amid_lock_product:
  assumes "runs s" "amid (store_LockProductForUpdate pid) s = (Inr p, s')"
  shows "runs s' \<and> run_now s' = run_now s \<and> outcome s' = outcome s \<and>
    run_locks s' = run_locks s @ [ProductLock pid] \<and>
    (\<exists>r. row_by p_id pid (t_products (outcome s)) = Some r \<and> p = productFromSqlc r)"
  using assms(1,2)
proof (cases rule: amid_effect)
  case (1 V)
  note law = store_LockProductForUpdate_Inr [OF 1(1,2)]
  have "runs s' \<and> outcome s' = (outcome s)\<lparr>t_products := map id (t_products (outcome s)),
      t_orders := map id (t_orders (outcome s)) @ [], t_items := t_items (outcome s) @ [],
      t_payments := map id (t_payments (outcome s)) @ []\<rparr>"
    by (rule 1(7)) (use law in \<open>auto\<close>)
  with law 1(3) [of pid] show ?thesis by simp
qed

lemma amid_decrease:
  assumes "runs s" "amid (store_DecreaseProductStock pid q) s = (Inr n, s')" "n \<noteq> 0"
  shows "runs s' \<and> run_now s' = run_now s \<and>
    outcome s' = (outcome s)\<lparr>t_products := dec_stock pid (int32_of q) (run_now s) (t_products (outcome s))\<rparr> \<and>
    run_locks s' = run_locks s @ [ProductLock pid] \<and>
    (\<exists>r. row_by p_id pid (t_products (outcome s)) = Some r \<and> sint (int32_of q) \<le> sint (p_stock r) \<and>
       sint (p_stock r - int32_of q) = sint (p_stock r) - sint (int32_of q))"
  using assms(1,2)
proof (cases rule: amid_effect)
  case (1 V)
  let ?g = "\<lambda>r. if p_id r = pid then r\<lparr>p_stock := p_stock r - int32_of q, p_updated_at := run_now s\<rparr> else r"
  note law = store_DecreaseProductStock_Inr [OF 1(1,2) assms(3)]
  have "runs s' \<and> outcome s' = (outcome s)\<lparr>t_products := map ?g (t_products (outcome s)),
      t_orders := map id (t_orders (outcome s)) @ [], t_items := t_items (outcome s) @ [],
      t_payments := map id (t_payments (outcome s)) @ []\<rparr>"
    by (rule 1(7)) (use law in \<open>auto simp: dec_stock_def\<close>)
  with law 1(3) [of pid] show ?thesis by (simp add: dec_stock_def)
qed

lemma amid_increase:
  assumes "runs s" "amid (store_IncreaseProductStock pid q) s = (Inr n, s')" "n \<noteq> 0"
  shows "runs s' \<and> run_now s' = run_now s \<and>
    outcome s' = (outcome s)\<lparr>t_products := inc_stock pid (int32_of q) (run_now s) (t_products (outcome s))\<rparr> \<and>
    run_locks s' = run_locks s @ [ProductLock pid] \<and>
    (\<exists>r. row_by p_id pid (t_products (outcome s)) = Some r \<and>
       sint (p_stock r + int32_of q) = sint (p_stock r) + sint (int32_of q))"
  using assms(1,2)
proof (cases rule: amid_effect)
  case (1 V)
  let ?g = "\<lambda>r. if p_id r = pid then r\<lparr>p_stock := p_stock r + int32_of q, p_updated_at := run_now s\<rparr> else r"
  note law = store_IncreaseProductStock_Inr [OF 1(1,2) assms(3)]
  have "runs s' \<and> outcome s' = (outcome s)\<lparr>t_products := map ?g (t_products (outcome s)),
      t_orders := map id (t_orders (outcome s)) @ [], t_items := t_items (outcome s) @ [],
      t_payments := map id (t_payments (outcome s)) @ []\<rparr>"
    by (rule 1(7)) (use law in \<open>auto simp: inc_stock_def\<close>)
  with law 1(3) [of pid] show ?thesis by (simp add: inc_stock_def)
qed

lemma amid_lock_order:
  assumes "runs s" "amid (store_LockOrderForUpdate uid oid) s = (Inr ord, s')"
  shows "runs s' \<and> run_now s' = run_now s \<and> outcome s' = outcome s \<and>
    run_locks s' = run_locks s @ [OrderLock oid] \<and>
    (\<exists>r. row_by o_id oid (t_orders (outcome s)) = Some r \<and> o_user_id r = uid \<and> ord = orderFromSqlc r)"
  using assms(1,2)
proof (cases rule: amid_effect)
  case (1 V)
  note law = store_LockOrderForUpdate_Inr [OF 1(1,2)]
  have "runs s' \<and> outcome s' = (outcome s)\<lparr>t_products := map id (t_products (outcome s)),
      t_orders := map id (t_orders (outcome s)) @ [], t_items := t_items (outcome s) @ [],
      t_payments := map id (t_payments (outcome s)) @ []\<rparr>"
    by (rule 1(7)) (use law in \<open>auto\<close>)
  with law 1(4) [of oid] show ?thesis by simp
qed

lemma amid_update_status:
  assumes "runs s" "amid (store_UpdateOrderStatus uid oid status) s = (Inr ord, s')"
  shows "runs s' \<and> run_now s' = run_now s \<and>
    outcome s' = (outcome s)\<lparr>t_orders := set_status oid status (run_now s) (t_orders (outcome s))\<rparr> \<and>
    run_locks s' = run_locks s @ [OrderLock oid] \<and>
    (\<exists>r. row_by o_id oid (t_orders (outcome s)) = Some r \<and> o_user_id r = uid \<and>
       ord = orderFromSqlc (r\<lparr>o_status := status, o_updated_at := run_now s\<rparr>))"
  using assms(1,2)
proof (cases rule: amid_effect)
  case (1 V)
  let ?g = "\<lambda>r. if o_id r = oid then r\<lparr>o_status := status, o_updated_at := run_now s\<rparr> else r"
  note law = store_UpdateOrderStatus_Inr [OF 1(1,2)]
  have "runs s' \<and> outcome s' = (outcome s)\<lparr>t_products := map id (t_products (outcome s)),
      t_orders := map ?g (t_orders (outcome s)) @ [], t_items := t_items (outcome s) @ [],
      t_payments := map id (t_payments (outcome s)) @ []\<rparr>"
    by (rule 1(7)) (use law in \<open>auto simp: set_status_def\<close>)
  with law 1(4) [of oid] show ?thesis by (simp add: set_status_def)
qed

lemma amid_get_items:
  assumes "runs s" "amid (store_GetOrderItemsByOrderID oid) s = (Inr its, s')" "OrderLock oid \<in> set (run_locks s)"
  shows "runs s' \<and> run_now s' = run_now s \<and> outcome s' = outcome s \<and> run_locks s' = run_locks s \<and>
    (\<exists>rows. its = map itemFromSqlc rows \<and>
       mset rows = mset (filter (\<lambda>r. i_order_id r = oid) (t_items (outcome s))))"
  using assms(1,2)
proof (cases rule: amid_effect)
  case (1 V)
  note law = store_GetOrderItemsByOrderID_Inr [OF 1(1,2)]
  have "runs s' \<and> outcome s' = (outcome s)\<lparr>t_products := map id (t_products (outcome s)),
      t_orders := map id (t_orders (outcome s)) @ [], t_items := t_items (outcome s) @ [],
      t_payments := map id (t_payments (outcome s)) @ []\<rparr>"
    by (rule 1(7)) (use law in \<open>auto simp: items_of_def\<close>)
  with law 1(5) [OF assms(3)] show ?thesis by (simp add: items_of_def)
qed

text \<open>The inserts. A new order's id is new in the outcome too, since its constraints hold there.\<close>

lemma amid_create_item:
  assumes "runs s" "amid (store_CreateOrderItem prm) s = (Inr it, s')"
  shows "runs s' \<and> run_now s' = run_now s \<and> run_locks s' = run_locks s \<and>
    (\<exists>u. let row = new_item (prm_OrderID prm) (prm_ProductID prm) (int32_of (prm_Quantity prm))
              (prm_Price prm) (prm_Price prm * prm_Quantity prm) u (run_now s) in
       it = itemFromSqlc row \<and> item_check row \<and> outcome s' = (outcome s)\<lparr>t_items := t_items (outcome s) @ [row]\<rparr>)"
  using assms(1,2)
proof (cases rule: amid_effect)
  case (1 V)
  from store_CreateOrderItem_Inr [OF 1(1,2)] obtain row where
    law: "live (run_own s')" "run_now s' = run_now s" "run_locks s' = run_locks s"
      "tables (run_own s') = V\<lparr>t_items := t_items V @ [row]\<rparr>" "it = itemFromSqlc row" "item_check row"
    and row: "\<exists>u. row = new_item (prm_OrderID prm) (prm_ProductID prm) (int32_of (prm_Quantity prm))
      (prm_Price prm) (prm_Price prm * prm_Quantity prm) u (run_now s)"
    by (auto simp: Let_def)
  from law 1(7) [where gp = id and go = id and gy = id and os = "[]" and its = "[row]" and ys = "[]"] row show ?thesis by (auto simp: Let_def)
qed

lemma amid_create_payment:
  assumes "runs s" "amid (store_CreatePayment oid amt) s = (Inr pay, s')"
  shows "runs s' \<and> run_now s' = run_now s \<and> run_locks s' = run_locks s \<and>
    (\<exists>u. let row = new_payment oid amt ''fake'' None u (run_now s) in
       pay = paymentFromSqlc_order row \<and> outcome s' = (outcome s)\<lparr>t_payments := t_payments (outcome s) @ [row]\<rparr>)"
  using assms(1,2)
proof (cases rule: amid_effect)
  case (1 V)
  from store_CreatePayment_Inr [OF 1(1,2)] obtain row where
    law: "live (run_own s')" "run_now s' = run_now s" "run_locks s' = run_locks s"
      "tables (run_own s') = V\<lparr>t_payments := t_payments V @ [row]\<rparr>" "pay = paymentFromSqlc_order row"
    and row: "\<exists>u. row = new_payment oid amt ''fake'' None u (run_now s)"
    by (auto simp: Let_def)
  from law 1(7) [where gp = id and go = id and gy = id and os = "[]" and its = "[]" and ys = "[row]"] row show ?thesis by (auto simp: Let_def)
qed

lemma amid_create_order:
  assumes "runs s" "amid (store_CreateOrder uid amt) s = (Inr ord, s')"
  shows "runs s' \<and> run_now s' = run_now s \<and> run_locks s' = run_locks s \<and>
    (\<exists>u. let row = new_order uid amt u (run_now s) in
       ord = orderFromSqlc row \<and> order_check row \<and> u \<notin> o_id ` set (t_orders (outcome s)) \<and>
       outcome s' = (outcome s)\<lparr>t_orders := t_orders (outcome s) @ [row]\<rparr>)"
  using assms(1,2)
proof (cases rule: amid_effect)
  case (1 V)
  from store_CreateOrder_Inr [OF 1(1,2)] obtain u row where
    law: "live (run_own s')" "run_now s' = run_now s" "run_locks s' = run_locks s"
      "tables (run_own s') = V\<lparr>t_orders := t_orders V @ [row]\<rparr>" "ord = orderFromSqlc row" "order_check row"
    and row: "row = new_order uid amt u (run_now s)"
    by (auto simp: Let_def)
  from law 1(7) [where gp = id and go = id and gy = id and os = "[row]" and its = "[]" and ys = "[]"] have
    now: "runs s'" "outcome s' = (outcome s)\<lparr>t_orders := t_orders (outcome s) @ [row]\<rparr>" by simp_all
  from runs_outcome [OF this(1)] have "u \<notin> o_id ` set (t_orders (outcome s))"
    by (simp add: now(2) schema_ok_def row new_order_def)
  with law now row show ?thesis by (auto simp: Let_def)
qed

interpretation amid_tx: order_store amid_repository outcome run_locks run_now runs
  by (unfold_locales, unfold amid_repository_def store.select_convs)
    (erule runs_outcome,
     erule (1) amid_lock_product, erule (2) amid_decrease, erule (2) amid_increase,
     erule (1) amid_create_order, erule (1) amid_create_item, erule (1) amid_create_payment,
     erule (1) amid_lock_order, erule amid_get_items, assumption, assumption, erule (1) amid_update_status)

section \<open>The queries of a payment keep theirs\<close>

definition amid_Charge :: "uuid \<Rightarrow> goint \<Rightarrow> (running, go_error, bool \<times> string) op" where
  "amid_Charge oid amount s = (let (r, w) = Charge oid amount (run_own s) in (r, s\<lparr>run_own := w\<rparr>))"

definition amid_queries :: "running pay_queries" where
  "amid_queries = \<lparr>
     q_LockOrderForPayment = (\<lambda>oid uid. amid (sql_LockOrderForPayment oid uid)),
     q_LockPaymentForUpdate = (\<lambda>oid. amid (sql_LockPaymentForUpdate oid)),
     q_Charge = amid_Charge,
     q_UpdatePaymentStatus = (\<lambda>status tid oid. amid (sql_UpdatePaymentStatus status tid oid)),
     q_MarkOrderAsPaid = (\<lambda>oid. amid (sql_MarkOrderAsPaid oid))\<rparr>"

abbreviation run_charges :: "running \<Rightarrow> charge list" where
  "run_charges s \<equiv> charges (run_own s)"

lemma distinct_payments:
  "schema_ok t \<Longrightarrow> distinct (map y_id (t_payments t))"
  "schema_ok t \<Longrightarrow> distinct (map y_order_id (t_payments t))"
  by (simp_all add: schema_ok_def)

lemma payment_keys:
  "schema_ok t \<Longrightarrow> row_by y_order_id (y_order_id r) (t_payments t) = Some r \<longleftrightarrow>
   row_by y_id (y_id r) (t_payments t) = Some r"
  by (simp add: distinct_payments row_by_Some)

lemma set_payment_row:
  assumes "schema_ok t" and "row_by y_order_id oid (t_payments t) = Some pay"
  shows "set_payment oid status tid now (t_payments t) =
    map (\<lambda>r. if y_id r = y_id pay then r\<lparr>y_status := status, y_transaction_id := tid, y_updated_at := now\<rparr> else r)
      (t_payments t)"
  unfolding set_payment_def
proof (intro map_cong refl)
  fix r
  assume "r \<in> set (t_payments t)"
  moreover note d = distinct_payments [OF assms(1)]
  moreover have "pay \<in> set (t_payments t)" "y_order_id pay = oid" using assms(2) by (auto dest: row_by_SomeD)
  ultimately have "y_order_id r = oid \<longleftrightarrow> y_id r = y_id pay"
    using row_by_Some [OF d(1)] row_by_Some [OF d(2)] by (metis option.inject)
  then show "(if y_order_id r = oid then r\<lparr>y_status := status, y_transaction_id := tid, y_updated_at := now\<rparr> else r) =
      (if y_id r = y_id pay then r\<lparr>y_status := status, y_transaction_id := tid, y_updated_at := now\<rparr> else r)" by simp
qed

lemma amid_pay_lock_order:
  assumes "runs s" "amid (sql_LockOrderForPayment oid uid) s = (Inr ord, s')"
  shows "runs s' \<and> run_now s' = run_now s \<and> run_charges s' = run_charges s \<and> outcome s' = outcome s \<and>
    run_locks s' = run_locks s @ [OrderLock oid] \<and>
    row_by o_id oid (t_orders (outcome s)) = Some ord \<and> o_user_id ord = uid"
  using assms
proof (cases rule: amid_effect)
  case (1 V)
  note law = sql_LockOrderForPayment_Inr [OF 1(1,2)]
  from law 1(7) [where gp = id and go = id and gy = id and os = "[]" and its = "[]" and ys = "[]"]
  have "runs s' \<and> outcome s' = outcome s" by auto
  with law 1(4) [of oid] show ?thesis by simp
qed

lemma amid_lock_payment:
  assumes "runs s" "amid (sql_LockPaymentForUpdate oid) s = (Inr pay, s')"
  shows "runs s' \<and> run_now s' = run_now s \<and> run_charges s' = run_charges s \<and> outcome s' = outcome s \<and>
    run_locks s' = run_locks s @ [PaymentLock (y_id pay)] \<and>
    row_by y_order_id oid (t_payments (outcome s)) = Some pay"
  using assms
proof (cases rule: amid_effect)
  case (1 V)
  note law = sql_LockPaymentForUpdate_Inr [OF 1(1,2)]
  from law 1(7) [where gp = id and go = id and gy = id and os = "[]" and its = "[]" and ys = "[]"]
  have now: "runs s'" "outcome s' = outcome s" by auto
  have V: "schema_ok V" using liveD [OF 1(1)] by simp
  have oid: "y_order_id pay = oid" using law by (auto dest: row_by_SomeD)
  with law payment_keys [OF V, of pay] have "row_by y_id (y_id pay) (t_payments V) = Some pay" by simp
  with law 1(6) [of "y_id pay"] have "row_by y_id (y_id pay) (t_payments (outcome s)) = Some pay" by simp
  with payment_keys [OF runs_outcome [OF assms(1)]] oid
  have "row_by y_order_id oid (t_payments (outcome s)) = Some pay" by metis
  with law now show ?thesis by simp
qed

lemma amid_update_payment:
  assumes "runs s" "amid (sql_UpdatePaymentStatus status tid oid) s = (Inr pay', s')"
    and row: "row_by y_order_id oid (t_payments (outcome s)) = Some pay" and held: "PaymentLock (y_id pay) \<in> set (run_locks s)"
  shows "runs s' \<and> run_now s' = run_now s \<and> run_charges s' = run_charges s \<and>
    run_locks s' = run_locks s @ [PaymentLock (y_id pay)] \<and>
    outcome s' = (outcome s)\<lparr>t_payments := set_payment oid status tid (run_now s) (t_payments (outcome s))\<rparr> \<and>
    pay' = pay\<lparr>y_status := status, y_transaction_id := tid, y_updated_at := run_now s\<rparr>"
  using assms(1,2)
proof (cases rule: amid_effect)
  case (1 V)
  let ?g = "\<lambda>r. if y_id r = y_id pay then r\<lparr>y_status := status, y_transaction_id := tid, y_updated_at := run_now s\<rparr> else r"
  have V: "schema_ok V" using liveD [OF 1(1)] by simp
  note out = runs_outcome [OF assms(1)]
  have oid: "y_order_id pay = oid" using row by (auto dest: row_by_SomeD)
  with row payment_keys [OF out] have "row_by y_id (y_id pay) (t_payments (outcome s)) = Some pay" by metis
  with 1(6) held have "row_by y_id (y_id pay) (t_payments V) = Some pay" by simp
  with payment_keys [OF V] oid have rowV: "row_by y_order_id oid (t_payments V) = Some pay" by metis
  from sql_UpdatePaymentStatus_Inr [OF 1(1) _ 1(2), of pay] rowV set_payment_row [OF V rowV] have
    law: "live (run_own s')" "run_now s' = run_now s" "run_charges s' = run_charges s"
      "run_locks s' = run_locks s @ [PaymentLock (y_id pay)]"
      "tables (run_own s') = V\<lparr>t_payments := map ?g (t_payments V)\<rparr>"
      "pay' = pay\<lparr>y_status := status, y_transaction_id := tid, y_updated_at := run_now s\<rparr>"
    by simp_all
  have "runs s' \<and> outcome s' = (outcome s)\<lparr>t_products := map id (t_products (outcome s)),
      t_orders := map id (t_orders (outcome s)) @ [], t_items := t_items (outcome s) @ [],
      t_payments := map ?g (t_payments (outcome s)) @ []\<rparr>"
    by (rule 1(7)) (use law in auto)
  with law set_payment_row [OF out row] show ?thesis by simp
qed

lemma amid_mark_paid:
  assumes "runs s" "amid (sql_MarkOrderAsPaid oid) s = (Inr ord', s')"
    and row: "row_by o_id oid (t_orders (outcome s)) = Some ord" and held: "OrderLock oid \<in> set (run_locks s)"
  shows "runs s' \<and> run_now s' = run_now s \<and> run_charges s' = run_charges s \<and>
    run_locks s' = run_locks s @ [OrderLock oid] \<and>
    outcome s' = (outcome s)\<lparr>t_orders := set_status oid ''paid'' (run_now s) (t_orders (outcome s))\<rparr> \<and>
    ord' = ord\<lparr>o_status := ''paid'', o_updated_at := run_now s\<rparr>"
  using assms(1,2)
proof (cases rule: amid_effect)
  case (1 V)
  let ?g = "\<lambda>r. if o_id r = oid then r\<lparr>o_status := ''paid'', o_updated_at := run_now s\<rparr> else r"
  from 1(4) held row have "row_by o_id oid (t_orders V) = Some ord" by simp
  with sql_MarkOrderAsPaid_Inr [OF 1(1) _ 1(2), of ord] have
    law: "live (run_own s')" "run_now s' = run_now s" "run_charges s' = run_charges s"
      "run_locks s' = run_locks s @ [OrderLock oid]"
      "tables (run_own s') = V\<lparr>t_orders := map ?g (t_orders V)\<rparr>"
      "ord' = ord\<lparr>o_status := ''paid'', o_updated_at := run_now s\<rparr>"
    by (simp_all add: set_status_def)
  have "runs s' \<and> outcome s' = (outcome s)\<lparr>t_products := map id (t_products (outcome s)),
      t_orders := map ?g (t_orders (outcome s)) @ [], t_items := t_items (outcome s) @ [],
      t_payments := map id (t_payments (outcome s)) @ []\<rparr>"
    by (rule 1(7)) (use law in auto)
  with law show ?thesis by (simp add: set_status_def)
qed

lemma amid_charge:
  assumes "runs s" "amid_Charge oid amount s = (Inr (success, txid), s')"
  shows "runs s' \<and> run_now s' = run_now s \<and> outcome s' = outcome s \<and> run_locks s' = run_locks s \<and>
    run_charges s' = run_charges s @ [\<lparr>c_order = oid, c_amount = amount, c_txid = txid, c_success = success\<rparr>]"
proof -
  from assms(2) obtain w where c: "Charge oid amount (run_own s) = (Inr (success, txid), w)" and s': "s' = s\<lparr>run_own := w\<rparr>"
    by (auto simp: amid_Charge_def split: prod.splits)
  have "live (run_own s)" using assms(1) by (simp add: runs_def)
  from Charge_Inr [OF this c] assms(1) show ?thesis
    by (simp add: s' runs_def outcome_def final_def)
qed

interpretation amid_pay: payment_store amid_queries outcome run_locks run_now run_charges runs
  by (unfold_locales, unfold amid_queries_def pay_queries.select_convs)
    ((rule amid_pay_lock_order; assumption), (rule amid_lock_payment; assumption), (rule amid_charge; assumption),
     (rule amid_update_payment; assumption), (rule amid_mark_paid; assumption))

end
