(* ===== verification/Concurrent.thy ===== *)
theory Concurrent
  imports Isolation
begin

text \<open>
  Histories of concurrent transactions: placements, cancellations and payments, each a run of the
  service's own function amid the commits of all the others (\<^theory_text>\<open>Isolation\<close>), and statements that leave
  the orders alone. Every such history is a serial one, in the order of the commits, so what is proved of
  requests served one after the other holds of concurrent ones: the books balance, units are neither
  lost nor sold twice, and no order is both paid and cancelled.
\<close>

section \<open>Histories\<close>

text \<open>
  A transaction that commits after the states \<open>H\<close>: it begins at the \<open>k\<close>-th, its statements see the states
  with the indices \<open>ns\<close>, later ones as it goes on, and it commits on top of the last.
\<close>

definition begun :: "tables list \<Rightarrow> nat \<Rightarrow> nat list \<Rightarrow> running \<Rightarrow> bool" where
  "begun H k ns s \<longleftrightarrow>
     live (run_own s) \<and> run_locks s = [] \<and>
     tables (run_own s) = H ! k \<and> run_base s = H ! k \<and> run_later s = map ((!) H) ns \<and>
     ns \<noteq> [] \<and> sorted (k # ns) \<and> Suc (last ns) = length H"

text \<open>
  The committed states so far, the oldest first. With \<open>c\<close>, nobody edits the catalog. Statements outside
  the three transactions commit by themselves; those of the other requests change neither orders, nor
  items, nor payments.
\<close>

inductive history :: "bool \<Rightarrow> tables \<Rightarrow> tables list \<Rightarrow> bool" for c t0 where
  start: "schema_ok t0 \<Longrightarrow> history c t0 [t0]"
| place: "history c t0 H \<Longrightarrow> begun H k ns s \<Longrightarrow>
    create_order_body amid_repository uid items s = (Inr res, s') \<Longrightarrow> history c t0 (H @ [outcome s'])"
| cancel: "history c t0 H \<Longrightarrow> begun H k ns s \<Longrightarrow>
    cancel_order_body amid_repository uid oid s = (Inr ord, s') \<Longrightarrow> history c t0 (H @ [outcome s'])"
| pay: "history c t0 H \<Longrightarrow> begun H k ns s \<Longrightarrow>
    pay_steps amid_queries uid oid s = (Inr (True, pay_row, ord_row), s') \<Longrightarrow> history c t0 (H @ [outcome s'])"
| elsewhere: "history c t0 H \<Longrightarrow> schema_ok t \<Longrightarrow> order_part c t = order_part c (last H) \<Longrightarrow>
    history c t0 (H @ [t])"

lemma seen_nothing: "seen [] b b c = c"
  by (simp add: seen_def overlay_def)

lemma sorted_le_last: "sorted ns \<Longrightarrow> n \<in> set ns \<Longrightarrow> n \<le> last ns"
  by (induction ns) (auto split: if_splits)

lemma begun_runs:
  assumes "begun H k ns s" and H: "\<forall>t \<in> set H. schema_ok t"
  shows "runs s" "outcome s = last H"
proof -
  note b = assms(1) [unfolded begun_def]
  have bound: "n < length H" if "n \<in> set (k # ns)" for n
    using b sorted_le_last [of "k # ns" n] that by simp
  then have sub: "set (run_base s # run_later s) \<subseteq> set H"
    using b by auto
  then show "runs s"
    using b H by (auto simp: runs_def isolated_def list_all_iff seen_nothing)
  have "final s = H ! last ns" using b by (simp add: final_def last_map)
  also have "H ! last ns = last H" using b by (metis diff_Suc_1 last_conv_nth length_0_conv nat.distinct(1))
  finally show "outcome s = last H" using b by (simp add: outcome_def seen_nothing)
qed

text \<open>Each of the three does to the state committed last what it does alone.\<close>

lemma place_amid:
  assumes "begun H k ns s" "\<forall>t \<in> set H. schema_ok t"
    and "create_order_body amid_repository uid items s = (Inr res, s')"
  shows "schema_ok (outcome s')" "placed uid items (run_now s) res (last H) (outcome s')"
  using amid_tx.create_order_body_Inr [OF begun_runs(1) [OF assms(1,2)] assms(3)] begun_runs(2) [OF assms(1,2)]
  by (auto intro: runs_outcome)

lemma cancel_amid:
  assumes "begun H k ns s" "\<forall>t \<in> set H. schema_ok t"
    and "cancel_order_body amid_repository uid oid s = (Inr ord, s')"
  shows "schema_ok (outcome s')" "cancelled uid oid (run_now s) ord (last H) (outcome s')"
  using amid_tx.cancel_order_body_Inr [OF begun_runs(1) [OF assms(1,2)] assms(3)] begun_runs(2) [OF assms(1,2)]
  by (auto intro: runs_outcome)

lemma pay_amid:
  assumes "begun H k ns s" "\<forall>t \<in> set H. schema_ok t"
    and "pay_steps amid_queries uid oid s = (Inr (True, pay', ord'), s')"
  shows "schema_ok (outcome s')"
    "\<exists>ord pay success txid. found uid oid (last H) ord pay \<and> payable ord pay \<and>
       settled oid (run_now s) success txid ord pay (last H) (outcome s') (paymentFromSqlc pay', orderFromSqlc ord') \<and>
       run_charges s' = run_charges s @ [charge_of oid pay txid success]"
proof -
  note run = begun_runs [OF assms(1,2)]
  from run(1) assms(3) have "runs s' \<and> (\<exists>ord pay success txid. found uid oid (outcome s) ord pay \<and> payable ord pay \<and>
      settled oid (run_now s) success txid ord pay (outcome s) (outcome s') (paymentFromSqlc pay', orderFromSqlc ord') \<and>
      run_charges s' = run_charges s @ [charge_of oid pay txid success])"
    by (cases rule: amid_pay.steps_Inr) (simp_all add: charge_of_def, blast)
  then show "schema_ok (outcome s')"
    "\<exists>ord pay success txid. found uid oid (last H) ord pay \<and> payable ord pay \<and>
       settled oid (run_now s) success txid ord pay (last H) (outcome s') (paymentFromSqlc pay', orderFromSqlc ord') \<and>
       run_charges s' = run_charges s @ [charge_of oid pay txid success]"
    by (simp_all add: run(2) runs_outcome)
qed

lemma order_moveI:
  "placed uid items now res t t' \<Longrightarrow> order_move c t t'"
  "cancelled uid oid now ord t t' \<Longrightarrow> order_move c t t'"
  "\<exists>ord pay success txid. found uid oid t ord pay \<and> payable ord pay \<and>
     settled oid now success txid ord pay t t' pair \<and> R ord pay success txid \<Longrightarrow> order_move c t t'"
  unfolding order_move_def by ((intro disjI2 disjI1 exI, assumption) | (elim exE conjE, intro disjI2 exI conjI, assumption+))+

lemma amid_moves:
  assumes "begun H k ns s" "\<forall>t \<in> set H. schema_ok t"
  shows "create_order_body amid_repository uid items s = (Inr res, s') \<Longrightarrow> order_move c (last H) (outcome s')"
    "cancel_order_body amid_repository uid oid s = (Inr ord, s') \<Longrightarrow> order_move c (last H) (outcome s')"
    "pay_steps amid_queries uid oid s = (Inr (True, pay', ord'), s') \<Longrightarrow> order_move c (last H) (outcome s')"
  by (rule order_moveI(1), erule place_amid(2) [OF assms],
      rule order_moveI(2), erule cancel_amid(2) [OF assms],
      rule order_moveI(3), erule pay_amid(2) [OF assms])

lemma history_schema: "history c t0 H \<Longrightarrow> H \<noteq> [] \<and> hd H = t0 \<and> (\<forall>t \<in> set H. schema_ok t)"
proof (induction rule: history.induct)
  case (place H k ns s uid items res s')
  with place_amid(1) [OF place(2) _ place(3)] show ?case by auto
next
  case (cancel H k ns s uid oid ord s')
  with cancel_amid(1) [OF cancel(2) _ cancel(3)] show ?case by auto
next
  case (pay H k ns s uid oid pay' ord' s')
  with pay_amid(1) [OF pay(2) _ pay(3)] show ?case by auto
qed auto

lemma history_moves: "history c t0 H \<Longrightarrow> successively (order_move c) H"
proof (induction rule: history.induct)
  case (place H k ns s uid items res s')
  with amid_moves(1) [OF place(2) _ place(3)] history_schema [OF place(1)]
  show ?case by (simp add: successively_append_iff)
next
  case (cancel H k ns s uid oid ord s')
  with amid_moves(2) [OF cancel(2) _ cancel(3)] history_schema [OF cancel(1)]
  show ?case by (simp add: successively_append_iff)
next
  case (pay H k ns s uid oid pay' ord' s')
  with amid_moves(3) [OF pay(2) _ pay(3)] history_schema [OF pay(1)]
  show ?case by (simp add: successively_append_iff)
next
  case (elsewhere H t)
  then show ?case by (simp add: successively_append_iff order_move_def)
qed simp

section \<open>What every history keeps\<close>

text \<open>An invariant of the moves holds of every state of the history.\<close>

lemma moves_keep:
  assumes "successively (order_move c) H" "H \<noteq> []" "\<forall>t \<in> set H. schema_ok t" "I (hd H)"
    and "\<And>t t'. order_move c t t' \<Longrightarrow> schema_ok t \<Longrightarrow> schema_ok t' \<Longrightarrow> I t \<Longrightarrow> I t'"
  shows "\<forall>t \<in> set H. I t"
  using assms(1-4)
proof (induction H rule: rev_induct)
  case (snoc t H)
  show ?case
  proof (cases "H = []")
    case False
    with snoc.prems have m: "successively (order_move c) H" "order_move c (last H) t"
      and ok: "\<forall>x \<in> set H. schema_ok x" "schema_ok t" "I (hd H)"
      by (simp_all add: successively_append_iff)
    from snoc.IH [OF m(1) False ok(1,3)] have I: "\<forall>x \<in> set H. I x" .
    with False ok have "I t" by (intro assms(5) [OF m(2)]) simp_all
    with I show ?thesis by simp
  qed (use snoc.prems in simp)
qed simp

lemma history_keeps:
  assumes "history c t0 H" "I t0"
    and "\<And>t t'. order_move c t t' \<Longrightarrow> schema_ok t \<Longrightarrow> schema_ok t' \<Longrightarrow> I t \<Longrightarrow> I t'"
  shows "\<forall>t \<in> set H. I t"
  by (rule moves_keep [OF history_moves [OF assms(1)] _ _ _ assms(3)]) (use history_schema [OF assms(1)] assms(2) in auto)

lemma history_books: "history c t0 H \<Longrightarrow> books_ok t0 \<Longrightarrow> t \<in> set H \<Longrightarrow> books_ok t"
  using history_keeps [where I = books_ok] move_books by blast

lemma history_kept:
  assumes "history c t0 H" "row_by o_id oid (t_orders t0) = Some ord" "t \<in> set H"
  shows "order_kept t0 t oid ord"
proof -
  have "\<forall>t \<in> set H. order_kept t0 t oid ord"
  proof (rule history_keeps [OF assms(1)])
    show "order_kept t0 t0 oid ord" using assms(2) by (simp add: order_kept_def order_step_refl)
    show "order_kept t0 t' oid ord" if "order_move c t t'" "schema_ok t" "order_kept t0 t oid ord" for t t'
      by (rule order_kept_trans [OF that(3) move_kept [OF that(1,2)]])
  qed
  with assms(3) show ?thesis by blast
qed

lemma history_ledger:
  assumes "history True t0 H" "stock_of t0 pid = Some n0" "t \<in> set H"
  shows "\<exists>n \<ge> 0. stock_of t pid = Some n \<and> n + reserved t pid = n0 + reserved t0 pid"
proof -
  let ?n = "n0 + reserved t0 pid - reserved t pid"
  have "\<forall>t \<in> set H. stock_of t pid = Some (n0 + reserved t0 pid - reserved t pid)"
    by (rule history_keeps [OF assms(1)]) (simp_all add: assms(2) move_ledger)
  with assms(3) have n: "stock_of t pid = Some ?n" by blast
  from n obtain r where "r \<in> set (t_products t)" "?n = sint (p_stock r)"
    by (auto simp: stock_of_def dest: row_by_SomeD)
  moreover have "schema_ok t" using history_schema [OF assms(1)] assms(3) by blast
  ultimately have "0 \<le> ?n" by (auto simp: schema_ok_def product_check_def)
  with n show ?thesis by simp
qed

section \<open>A sample history\<close>

text \<open>
  Two placements and a payment. The second placement, of ink, has locked the ink and written its order
  when the first, of a pen, commits. The payment of the first order locks that order before the second
  placement commits, and charges and commits after it.
\<close>

definition sample_txn :: "nat \<Rightarrow> tables \<Rightarrow> tables list \<Rightarrow> running" where
  "sample_txn draw b later =
     \<lparr>run_own = (sample_world all_works 0 b)\<lparr>tx := Some b, draw_no := draw\<rparr>, run_base = b, run_later = later\<rparr>"

definition sample_t1 :: tables where
  "sample_t1 = sample_tables\<lparr>
     t_products := [sample_product 20 ''pen'' 250 2, sample_product 10 ''ink'' 500 5],
     t_orders := [new_order 1 250 100 0],
     t_items := [new_item 100 20 1 250 250 101 0],
     t_payments := [new_payment 100 250 ''fake'' None 102 0]\<rparr>"

definition sample_t2 :: tables where
  "sample_t2 = sample_t1\<lparr>
     t_products := [sample_product 20 ''pen'' 250 2, sample_product 10 ''ink'' 500 4],
     t_orders := t_orders sample_t1 @ [new_order 1 500 150 0],
     t_items := t_items sample_t1 @ [new_item 150 10 1 500 500 151 0],
     t_payments := t_payments sample_t1 @ [new_payment 150 500 ''fake'' None 152 0]\<rparr>"

definition sample_begin :: "nat \<Rightarrow> running" where
  "sample_begin n =
     (if n = 0 then sample_txn 0 sample_tables (replicate 5 sample_tables)
      else if n = 1 then sample_txn 50 sample_tables (replicate 2 sample_tables @ replicate 3 sample_t1)
      else sample_txn 0 sample_t1 (sample_t1 # replicate 3 sample_t2))"

definition sample_first :: "(go_error + Order \<times> OrderItem list \<times> Payment) \<times> running" where
  "sample_first = create_order_body amid_repository 1 [\<lparr>req_ProductID = 20, req_Quantity = 1\<rparr>] (sample_begin 0)"

definition sample_second :: "(go_error + Order \<times> OrderItem list \<times> Payment) \<times> running" where
  "sample_second = create_order_body amid_repository 1 [\<lparr>req_ProductID = 10, req_Quantity = 1\<rparr>] (sample_begin 1)"

definition sample_third :: "(go_error + bool \<times> payment_row \<times> order_row) \<times> running" where
  "sample_third = pay_steps amid_queries 1 100 (sample_begin 2)"

lemma sample_tables_ok: "schema_ok sample_tables" "schema_ok sample_t1" "schema_ok sample_t2"
  by code_simp+

lemma run_returns:
  "(case run of (r, s) \<Rightarrow> \<not> isl r \<and> P s) \<Longrightarrow> \<exists>a s. run = (Inr a, s) \<and> P s"
  "(case q of (r, s) \<Rightarrow> map_sum f fst r = Inr True \<and> Q s) \<Longrightarrow> \<exists>b c s. q = (Inr (True, b, c), s) \<and> Q s"
  by (cases run; cases "fst run"; auto) (cases q; cases "fst q"; auto)

lemma sample_first_run: "case sample_first of (r, s) \<Rightarrow> \<not> isl r \<and> outcome s = sample_t1"
  by code_simp

lemma sample_second_run: "case sample_second of (r, s) \<Rightarrow> \<not> isl r \<and> outcome s = sample_t2"
  by code_simp

lemma sample_third_run:
  "case sample_third of (r, s) \<Rightarrow> map_sum (\<lambda>_. ()) fst r = Inr True \<and>
     map o_status (t_orders (outcome s)) = [''paid'', ''pending'']"
  by code_simp

lemma sample_begun:
  "begun [sample_tables] 0 [0, 0, 0, 0, 0] (sample_begin 0)"
  "begun [sample_tables, sample_t1] 0 [0, 0, 1, 1, 1] (sample_begin 1)"
  "begun [sample_tables, sample_t1, sample_t2] 1 [1, 2, 2, 2] (sample_begin 2)"
  by (simp_all add: begun_def sample_begin_def sample_txn_def sample_world_def live_def holds_def sample_tables_ok
      numeral_nat)

lemma sample_history:
  "history c sample_tables [sample_tables, sample_t1]"
  "history c sample_tables [sample_tables, sample_t1, sample_t2]"
proof -
  from run_returns(1) [OF sample_first_run] obtain res s where "sample_first = (Inr res, s)" "outcome s = sample_t1" by blast
  from history.place [OF history.start [OF sample_tables_ok(1)] sample_begun(1) this(1) [unfolded sample_first_def]] this(2)
  show one: "history c sample_tables [sample_tables, sample_t1]" by simp
  from run_returns(1) [OF sample_second_run] obtain res s where "sample_second = (Inr res, s)" "outcome s = sample_t2" by blast
  from history.place [OF one sample_begun(2) this(1) [unfolded sample_second_def]] this(2)
  show "history c sample_tables [sample_tables, sample_t1, sample_t2]" by simp
qed

section \<open>Properties\<close>

text \<open>
  C4. Transactions are isolated: a placement, a cancellation or a payment that runs while others commit
  between its statements, and then commits itself, does to the state committed last exactly what it
  does when it runs alone, with the prices, the stock and the statuses of that state, and answers
  accordingly; a payment of a settled order changes nothing.
\<close>

theorem transactions_amid_others:
  assumes "history c t0 H" and "begun H k ns s"
  shows "(create_order_body amid_repository uid items s = (Inr res, s') \<longrightarrow>
      placed uid items (run_now s) res (last H) (outcome s')) \<and>
    (cancel_order_body amid_repository uid oid s = (Inr ord, s') \<longrightarrow>
      cancelled uid oid (run_now s) ord (last H) (outcome s')) \<and>
    (pay_steps amid_queries uid oid s = (Inr (changed, pay', ord'), s') \<longrightarrow>
      (if changed then \<exists>ord0 pay0 success txid. found uid oid (last H) ord0 pay0 \<and> payable ord0 pay0 \<and>
         settled oid (run_now s) success txid ord0 pay0 (last H) (outcome s') (paymentFromSqlc pay', orderFromSqlc ord') \<and>
         run_charges s' = run_charges s @ [charge_of oid pay0 txid success]
       else found uid oid (last H) ord' pay' \<and> \<not> payable ord' pay' \<and> outcome s' = last H \<and>
         run_charges s' = run_charges s))"
proof -
  have ok: "\<forall>t \<in> set H. schema_ok t" using history_schema [OF assms(1)] by blast
  note run = begun_runs [OF assms(2) ok]
  have "found uid oid (last H) ord' pay' \<and> \<not> payable ord' pay' \<and> outcome s' = last H \<and> run_charges s' = run_charges s"
    if "pay_steps amid_queries uid oid s = (Inr (False, pay', ord'), s')"
    using run(1) that by (cases rule: amid_pay.steps_Inr) (simp_all add: run(2))
  then show ?thesis
    using place_amid(2) [OF assms(2) ok] cancel_amid(2) [OF assms(2) ok] pay_amid(2) [OF assms(2) ok]
    by (cases changed) simp_all
qed

theorem transactions_amid_others_witness:
  "\<exists>now res. placed 1 [\<lparr>req_ProductID = 10, req_Quantity = 1\<rparr>] now res sample_t1 sample_t2"
proof -
  from run_returns(1) [OF sample_second_run] obtain res s where "sample_second = (Inr res, s)" and s: "outcome s = sample_t2" by blast
  from transactions_amid_others [OF sample_history(1) sample_begun(2), THEN conjunct1, rule_format,
      OF this(1) [unfolded sample_second_def]]
  have "placed 1 [\<lparr>req_ProductID = 10, req_Quantity = 1\<rparr>] (run_now (sample_begin 1)) res sample_t1 sample_t2"
    by (simp add: s)
  then show ?thesis by blast
qed

text \<open>
  C5. Every history of concurrent transactions is a serial one, in the order of the commits: each state
  comes from the one before by placing an order, cancelling one, settling a payment, or a statement
  outside the orders. The schema's constraints hold throughout, the books balance, every order keeps its
  owner, its total and its items and leaves \<open>pending\<close> at most once, and as long as nobody edits the
  catalog, units are neither lost nor sold twice.
\<close>

theorem concurrent_is_serial:
  assumes "history c t0 H" and "books_ok t0"
  shows "hd H = t0 \<and> successively (order_move c) H \<and>
    (\<forall>t \<in> set H. schema_ok t \<and> books_ok t \<and>
       (\<forall>oid ord. row_by o_id oid (t_orders t0) = Some ord \<longrightarrow> order_kept t0 t oid ord) \<and>
       (c \<longrightarrow> (\<forall>pid n0. stock_of t0 pid = Some n0 \<longrightarrow>
          (\<exists>n \<ge> 0. stock_of t pid = Some n \<and> n + reserved t pid = n0 + reserved t0 pid))))"
proof -
  have "\<exists>n \<ge> 0. stock_of t pid = Some n \<and> n + reserved t pid = n0 + reserved t0 pid"
    if "c" "stock_of t0 pid = Some n0" "t \<in> set H" for t pid n0
    using history_ledger [OF _ that(2,3)] assms(1) that(1) by simp
  then show ?thesis
    using history_schema [OF assms(1)] history_moves [OF assms(1)] history_books [OF assms] history_kept [OF assms(1)]
    by blast
qed

theorem concurrent_is_serial_witness:
  "\<exists>t. history True sample_tables [sample_tables, sample_t1, sample_t2, t] \<and> books_ok t \<and>
     map o_status (t_orders t) = [''paid'', ''pending''] \<and> order_move True sample_t2 t"
proof -
  from run_returns(2) [OF sample_third_run] obtain pay' ord' s where run: "sample_third = (Inr (True, pay', ord'), s)"
    and s: "map o_status (t_orders (outcome s)) = [''paid'', ''pending'']" by (elim exE conjE)
  from history.pay [OF sample_history(2) sample_begun(3) run [unfolded sample_third_def]] have
    h: "history True sample_tables [sample_tables, sample_t1, sample_t2, outcome s]" by simp
  have "books_ok sample_tables" by (simp add: books_ok_def sample_tables_def)
  note serial = concurrent_is_serial [OF h this, THEN conjunct2]
  have "order_move True sample_t2 (outcome s)"
    using serial [THEN conjunct1] by (simp only: successively.simps)
  moreover have "books_ok (outcome s)"
    by (rule serial [THEN conjunct2, THEN bspec, THEN conjunct2, THEN conjunct1]) (simp only: list.set insert_iff simp_thms)
  ultimately show ?thesis
    using s h by (intro exI [of _ "outcome s"] conjI)
qed

end
