(* ===== verification/Claims.thy ===== *)
theory Claims
  imports Idempotency
begin

text \<open>
  Concurrent requests with the same idempotency key. \<open>CheckAndClaim\<close> runs up to three statements and
  no transaction spans them, so the statements of other requests come between. A history is the sequence
  of the states of the database; a request runs \<open>svc_CheckAndClaim\<close> or \<open>svc_SaveResponse\<close> over a
  repository whose statements take effect at given positions of the history, and every change of a
  key is the statement of some request. A request that stops in between has no more positions.
\<close>

section \<open>A request among others\<close>

text \<open>
  A request has its own connection and clocks in \<open>turn_own\<close>, the positions its statements are to have in
  \<open>turn_at\<close>, and in \<open>turn_done\<close> the positions it has used, each with the tables its statement left.
\<close>

record turns =
  turn_own :: world
  turn_at :: "nat list"
  turn_done :: "(nat \<times> tables) list"

definition turn :: "tables list \<Rightarrow> 'a db_op \<Rightarrow> (turns, go_error, 'a) op" where
  "turn H f s =
     (case turn_at s of
        [] \<Rightarrow> (Inl ErrConn, s)
      | n # ns \<Rightarrow>
          let (r, w) = f ((turn_own s)\<lparr>tables := H ! n\<rparr>) in
          (r, \<lparr>turn_own = w, turn_at = ns, turn_done = turn_done s @ [(n, tables w)]\<rparr>))"

definition turn_repository :: "tables list \<Rightarrow> turns key_repository" where
  "turn_repository H = \<lparr>
     kr_Create = (\<lambda>key hash uid. turn H (repo_CreateIdempotency key hash uid)),
     kr_Get = (\<lambda>key uid. turn H (repo_GetIdempotencyByUserID key uid)),
     kr_Reclaim = (\<lambda>key hash uid after. turn H (repo_ReclaimStaleIdempotency key hash uid after)),
     kr_Update = (\<lambda>key uid resp. turn H (repo_UpdateIdempotency key uid resp))\<rparr>"

datatype key_request = Claim string string uuid | Save string uuid string

fun conduct :: "tables list \<Rightarrow> key_request \<Rightarrow> (turns, go_error, IdempotencyResult option) op" where
  "conduct H (Claim key hash uid) = map_ok Some (svc_CheckAndClaim (turn_repository H) key hash uid)"
| "conduct H (Save key uid resp) = map_ok (\<lambda>_. None) (svc_SaveResponse (turn_repository H) key uid resp)"

definition done_by :: "tables list \<Rightarrow> key_request \<times> turns \<Rightarrow> (nat \<times> tables) list" where
  "done_by H q = turn_done (snd (conduct H (fst q) (snd q)))"

definition acts :: "tables list \<Rightarrow> key_request \<times> turns \<Rightarrow> nat \<Rightarrow> bool" where
  "acts H q n \<longleftrightarrow> n \<in> fst ` set (done_by H q)"

definition fresh :: "tables list \<Rightarrow> turns \<Rightarrow> bool" where
  "fresh H s \<longleftrightarrow> tx (turn_own s) = None \<and> turn_done s = [] \<and>
     sorted_wrt (<) (turn_at s) \<and> list_all (\<lambda>n. n < length H) (turn_at s)"

text \<open>
  A history of the states and of the requests that were served in it: every statement of a request leads
  from the state at its position to the next one, no two share a position, and a step that is
  nobody's leaves the keys as they are.
\<close>

definition key_history :: "tables list \<Rightarrow> (key_request \<times> turns) list \<Rightarrow> bool" where
  "key_history H qs \<longleftrightarrow>
     list_all schema_ok H \<and> list_all (\<lambda>q. fresh H (snd q)) qs \<and>
     list_all (\<lambda>q. list_all (\<lambda>(n, t). Suc n < length H \<and> H ! Suc n = t) (done_by H q)) qs \<and>
     distinct (concat (map (\<lambda>q. map fst (done_by H q)) qs)) \<and>
     (\<forall>n. Suc n < length H \<longrightarrow>
        key_look (H ! Suc n) = key_look (H ! n) \<or> (\<exists>q \<in> set qs. acts H q n))"

text \<open>What the application's clock shows at the third statement of a request.\<close>

definition reclaim_clock :: "turns \<Rightarrow> time" where
  "reclaim_clock s = env_app_clock (env (turn_own s)) (stmt_no (turn_own s) + 2)"

section \<open>One statement\<close>

lemma turn_elim:
  assumes "turn H f s = (r, s')"
  obtains (stopped) "turn_at s = []" "r = Inl ErrConn" "s' = s"
  | (ran) n ns w where "turn_at s = n # ns" "f ((turn_own s)\<lparr>tables := H ! n\<rparr>) = (r, w)"
      "s' = \<lparr>turn_own = w, turn_at = ns, turn_done = turn_done s @ [(n, tables w)]\<rparr>"
  using assms by (auto simp: turn_def split: list.splits prod.splits)

text \<open>A request ready for its next statement; \<open>c n\<close> is its clock \<open>n\<close> statements later.\<close>

definition ready :: "tables list \<Rightarrow> turns \<Rightarrow> bool" where
  "ready H s \<longleftrightarrow> list_all schema_ok H \<and> tx (turn_own s) = None \<and>
     sorted_wrt (<) (turn_at s) \<and> list_all (\<lambda>n. n < length H) (turn_at s)"

definition turn_clock :: "turns \<Rightarrow> nat \<Rightarrow> time" where
  "turn_clock s n = env_app_clock (env (turn_own s)) (stmt_no (turn_own s) + n)"

definition same_run :: "tables list \<Rightarrow> nat \<Rightarrow> turns \<Rightarrow> turns \<Rightarrow> tables \<Rightarrow> bool" where
  "same_run H n s s' t \<longleftrightarrow> ready H s' \<and> turn_done s' = turn_done s @ [(n, t)] \<and> turn_at s = n # turn_at s' \<and>
     turn_clock s' = (\<lambda>k. turn_clock s (Suc k)) \<and> env (turn_own s') = env (turn_own s)"

lemma ready_idle: "ready H s \<Longrightarrow> turn_at s = n # ns \<Longrightarrow> idle ((turn_own s)\<lparr>tables := H ! n\<rparr>)"
  by (auto simp: ready_def idle_def list_all_iff)

lemma same_runI:
  assumes "ready H s" "turn_at s = n # ns" "idle w" "env w = env (turn_own s)" "stmt_no w = Suc (stmt_no (turn_own s))"
  shows "same_run H n s \<lparr>turn_own = w, turn_at = ns, turn_done = turn_done s @ [(n, tables w)]\<rparr> (tables w)"
  using assms by (auto simp: same_run_def ready_def idle_def turn_clock_def)

lemma turn_create:
  assumes s: "ready H s" and r: "turn H (repo_CreateIdempotency key hash uid) s = (r, s')"
  obtains (stopped) "r = Inl ErrConn" "turn_done s' = turn_done s"
  | (same) n t where "same_run H n s s' t" "key_look t = key_look (H ! n)" "isl r"
  | (created) n t now where "same_run H n s s' t" "key_look (H ! n) key = None"
      "key_look t = (key_look (H ! n))(key \<mapsto> new_key key uid hash now)" "r = Inl ErrConn \<or> \<not> isl r"
  using r
proof (cases rule: turn_elim)
  case (ran n ns w)
  note repo = repo_create [OF ready_idle [OF s ran(1)] ran(2)]
  then have run: "same_run H n s s' (tables w)"
    unfolding ran(3) by (intro same_runI [OF s ran(1)]) simp_all
  from repo show ?thesis by (elim conjE disjE exE) (auto intro: same [OF run] created [OF run])
qed (rule stopped, simp_all)

lemma turn_get:
  assumes s: "ready H s" and r: "turn H (repo_GetIdempotencyByUserID key uid) s = (r, s')"
  obtains (stopped) "r = Inl ErrConn" "turn_done s' = turn_done s"
  | (read) n t where "same_run H n s s' t" "key_look t = key_look (H ! n)"
      "isl r \<or> (\<exists>row. r = Inr (keyFromSqlc uid (k_request_hash row) row) \<and> key_look (H ! n) key = Some row \<and> k_user_id row = uid)"
  using r
proof (cases rule: turn_elim)
  case (ran n ns w)
  note repo = repo_get [OF ready_idle [OF s ran(1)] ran(2)]
  then have "same_run H n s s' (tables w)"
    unfolding ran(3) by (intro same_runI [OF s ran(1)]) simp_all
  then show ?thesis by (rule read) (use repo in \<open>auto simp: owned_def\<close>)
qed (rule stopped, simp_all)

lemma turn_reclaim:
  assumes s: "ready H s" and r: "turn H (repo_ReclaimStaleIdempotency key hash uid after) s = (r, s')"
  obtains (stopped) "r = Inl ErrConn" "turn_done s' = turn_done s"
  | (same) n t where "same_run H n s s' t" "key_look t = key_look (H ! n)"
      "r = Inl ErrConn \<or> r = Inl (IdempotencyErr ErrNoIdempotencyFound) \<and>
         \<not> claimable uid (turn_clock s 0 - after) (key_look (H ! n) key)"
  | (taken) n t now where "same_run H n s s' t" "claimable uid (turn_clock s 0 - after) (key_look (H ! n) key)"
      "key_look t = (key_look (H ! n))(key := reclaimed hash now (key_look (H ! n) key))" "r = Inl ErrConn \<or> \<not> isl r"
  using r
proof (cases rule: turn_elim)
  case (ran n ns w)
  note repo = repo_reclaim [OF ready_idle [OF s ran(1)] ran(2)]
  then have run: "same_run H n s s' (tables w)"
    unfolding ran(3) by (intro same_runI [OF s ran(1)]) simp_all
  have clock: "turn_clock s 0 = env_app_clock (env (turn_own s)) (stmt_no (turn_own s))" by (simp add: turn_clock_def)
  from repo have "(key_look (tables w) = key_look (H ! n) \<and> (r = Inl ErrConn \<or>
       r = Inl (IdempotencyErr ErrNoIdempotencyFound) \<and> \<not> claimable uid (turn_clock s 0 - after) (key_look (H ! n) key))) \<or>
     claimable uid (turn_clock s 0 - after) (key_look (H ! n) key) \<and>
       (\<exists>now. key_look (tables w) = (key_look (H ! n))(key := reclaimed hash now (key_look (H ! n) key))) \<and>
       (r = Inl ErrConn \<or> \<not> isl r)"
    by (simp add: clock)
  then show ?thesis using same [OF run] taken [OF run] by blast
qed (rule stopped, simp_all)

section \<open>A whole request\<close>

text \<open>
  What the requests do, statement by statement: the answers that \<open>CheckAndClaim\<close> may give with what it
  found at which position, and what it left there. \<open>c\<close> is its clock at the third statement.
\<close>

inductive claim_trace ::
  "tables list \<Rightarrow> string \<Rightarrow> string \<Rightarrow> uuid \<Rightarrow> time \<Rightarrow> go_error + IdempotencyResult \<Rightarrow> (nat \<times> tables) list \<Rightarrow> bool"
  for H key hash uid c where
  stopped: "isl r \<Longrightarrow> claim_trace H key hash uid c r []"
| refused: "isl r \<Longrightarrow> key_look t = key_look (H ! n) \<Longrightarrow> claim_trace H key hash uid c r [(n, t)]"
| created: "key_look (H ! n) key = None \<Longrightarrow> key_look t = (key_look (H ! n))(key \<mapsto> new_key key uid hash now) \<Longrightarrow>
    r = Inl ErrConn \<or> r = Inr claim_new \<Longrightarrow> claim_trace H key hash uid c r [(n, t)]"
| found: "key_look t = key_look (H ! n) \<Longrightarrow> n < m \<Longrightarrow> key_look u = key_look (H ! m) \<Longrightarrow>
    isl r \<or> (\<exists>row. key_look (H ! m) key = Some row \<and> k_user_id row = uid \<and>
      (r = Inr \<lparr>Result_Status = Mismatch, Result_Response = None\<rparr> \<and> k_request_hash row \<noteq> hash \<or>
       r = Inr \<lparr>Result_Status = Replayed, Result_Response = k_response row\<rparr> \<and> k_request_hash row = hash \<and>
         k_response row \<noteq> None)) \<Longrightarrow>
    claim_trace H key hash uid c r [(n, t), (m, u)]"
| waiting: "key_look t = key_look (H ! n) \<Longrightarrow> n < m \<Longrightarrow> key_look u = key_look (H ! m) \<Longrightarrow> m < l \<Longrightarrow>
    key_look v = key_look (H ! l) \<Longrightarrow> key_look (H ! m) key = Some row \<Longrightarrow> k_user_id row = uid \<Longrightarrow> k_request_hash row = hash \<Longrightarrow>
    isl r \<or> r = Inr \<lparr>Result_Status = InProgress, Result_Response = None\<rparr> \<and>
      \<not> claimable uid (c - staleClaimTimeout) (key_look (H ! l) key) \<Longrightarrow>
    claim_trace H key hash uid c r [(n, t), (m, u), (l, v)]"
| retaken: "key_look t = key_look (H ! n) \<Longrightarrow> n < m \<Longrightarrow> key_look u = key_look (H ! m) \<Longrightarrow> m < l \<Longrightarrow>
    key_look (H ! m) key = Some row \<Longrightarrow> k_user_id row = uid \<Longrightarrow> k_request_hash row = hash \<Longrightarrow>
    claimable uid (c - staleClaimTimeout) (key_look (H ! l) key) \<Longrightarrow>
    key_look v = (key_look (H ! l))(key := reclaimed hash now (key_look (H ! l) key)) \<Longrightarrow>
    r = Inl ErrConn \<or> r = Inr claim_new \<Longrightarrow>
    claim_trace H key hash uid c r [(n, t), (m, u), (l, v)]"

lemma same_run_next:
  "ready H s \<Longrightarrow> same_run H n s s' t \<Longrightarrow> same_run H m s' s'' u \<Longrightarrow>
     turn_done s'' = turn_done s @ [(n, t), (m, u)] \<and> n < m"
  by (auto simp: same_run_def ready_def)

text \<open>The third statement, of a request that has found its key unanswered.\<close>

lemma reclaim_trace:
  assumes s: "ready H s" "turn_done s = []" and n: "same_run H n s s1 t" "key_look t = key_look (H ! n)"
    and m: "same_run H m s1 s2 u" "key_look u = key_look (H ! m)"
    and row: "key_look (H ! m) key = Some row" "k_user_id row = uid" "k_request_hash row = hash"
    and q: "turn H (repo_ReclaimStaleIdempotency key hash uid staleClaimTimeout) s2 = (q, s3)"
    and r: "r = (case q of
        Inl d \<Rightarrow> if errors_Is d (IdempotencyErr ErrNoIdempotencyFound)
          then Inr \<lparr>Result_Status = InProgress, Result_Response = None\<rparr> else Inl d
      | Inr _ \<Rightarrow> Inr claim_new)"
  shows "claim_trace H key hash uid (turn_clock s 2) r (turn_done s3)"
proof -
  note nm = same_run_next [OF s(1) n(1) m(1), unfolded s(2) append_Nil]
  have s1: "ready H s1" using n(1) by (simp add: same_run_def)
  have s2: "ready H s2" "turn_clock s2 0 = turn_clock s 2"
    using n(1) m(1) by (auto simp: same_run_def numeral_2_eq_2)
  from s2(1) q show ?thesis
  proof (cases rule: turn_reclaim)
    case stopped
    with r nm n(2) m(2) show ?thesis by (simp add: claim_trace.found)
  next
    case (same l v)
    from same_run_next [OF s1 m(1) same(1)] same(1) nm have "m < l" "turn_done s3 = [(n, t), (m, u), (l, v)]"
      by (simp_all add: same_run_def)
    with same(3) r s2(2) nm n(2) m(2) row same(2) show ?thesis by (auto intro: claim_trace.waiting)
  next
    case (taken l v now)
    from same_run_next [OF s1 m(1) taken(1)] taken(1) nm have "m < l" "turn_done s3 = [(n, t), (m, u), (l, v)]"
      by (simp_all add: same_run_def)
    moreover have "r = Inl ErrConn \<or> r = Inr claim_new" using taken(4) r by (cases q) auto
    ultimately show ?thesis using taken(2,3) s2(2) nm n(2) m(2) row by (auto intro: claim_trace.retaken)
  qed
qed

lemma claim_traces:
  assumes s: "ready H s" "turn_done s = []"
    and r: "svc_CheckAndClaim (turn_repository H) key hash uid s = (r, s')"
  shows "claim_trace H key hash uid (turn_clock s 2) r (turn_done s')"
proof -
  let ?exists = "IdempotencyErr ErrIdempotencyKeyExists" and ?none = "IdempotencyErr ErrNoIdempotencyFound"
  obtain c s1 where c: "turn H (repo_CreateIdempotency key hash uid) s = (c, s1)" by fastforce
  obtain g s2 where g: "turn H (repo_GetIdempotencyByUserID key uid) s1 = (g, s2)" by fastforce
  obtain q s3 where q: "turn H (repo_ReclaimStaleIdempotency key hash uid staleClaimTimeout) s2 = (q, s3)" by fastforce
  let ?q = "turn H (repo_ReclaimStaleIdempotency key hash uid staleClaimTimeout) s2"
  have "(r, s') = (case c of
      Inr _ \<Rightarrow> (Inr claim_new, s1)
    | Inl e \<Rightarrow> if \<not> errors_Is e ?exists then (Inl e, s1) else (case g of
        Inl d \<Rightarrow> (Inl d, s2)
      | Inr x \<Rightarrow>
          if hash \<noteq> Key_RequestHash x then (Inr \<lparr>Result_Status = Mismatch, Result_Response = None\<rparr>, s2)
          else if Key_Response x = None \<or> Key_Response x = Some [] then (case fst ?q of
              Inl d \<Rightarrow> if errors_Is d ?none then Inr \<lparr>Result_Status = InProgress, Result_Response = None\<rparr> else Inl d
            | Inr _ \<Rightarrow> Inr claim_new, snd ?q)
          else (Inr \<lparr>Result_Status = Replayed, Result_Response = Key_Response x\<rparr>, s2)))"
    unfolding r [symmetric] svc_CheckAndClaim_def turn_repository_def key_repository.select_convs c
    by (simp add: g and_then_def ret_def claim_new_def split: sum.splits prod.splits)
  note run = this [unfolded q fst_conv snd_conv]
  from s(1) c show ?thesis
  proof (cases rule: turn_create)
    case stopped
    with run s(2) show ?thesis by (simp add: claim_trace.stopped)
  next
    case (created n t now)
    show ?thesis
    proof (cases c)
      case (Inl e)
      with created(4) have "c = Inl ErrConn" by simp
      with run have "r = Inl ErrConn" "s' = s1" by simp_all
      with created s(2) show ?thesis by (auto simp: same_run_def intro: claim_trace.created)
    next
      case (Inr x)
      with run have "r = Inr claim_new" "s' = s1" by simp_all
      with created s(2) show ?thesis by (auto simp: same_run_def intro: claim_trace.created)
    qed
  next
    case (same n t)
    then have s1: "ready H s1" "turn_done s1 = [(n, t)]"
      using s(2) by (auto simp: same_run_def)
    show ?thesis
    proof (cases "c = Inl (projl c) \<and> errors_Is (projl c) ?exists")
      case False
      with run same(3) have "isl r" "s' = s1" by (cases c; simp)+
      with same(2) s1(2) show ?thesis by (simp add: claim_trace.refused)
    next
      case True
      from s1(1) g show ?thesis
      proof (cases rule: turn_get)
        case stopped
        from True run stopped(1) have "isl r" "s' = s2" by (cases c; simp)+
        with same(2) s1(2) stopped(2) show ?thesis by (simp add: claim_trace.refused)
      next
        case (read m u)
        note m = same_run_next [OF s(1) same(1) read(1), unfolded s(2) append_Nil]
        show ?thesis
        proof (cases "\<exists>row. g = Inr (keyFromSqlc uid (k_request_hash row) row) \<and> k_request_hash row = hash \<and>
            (k_response row = None \<or> k_response row = Some [])")
          case False
          with True run read(3) have "s' = s2" "isl r \<or> (\<exists>row. key_look (H ! m) key = Some row \<and> k_user_id row = uid \<and>
              (r = Inr \<lparr>Result_Status = Mismatch, Result_Response = None\<rparr> \<and> k_request_hash row \<noteq> hash \<or>
               r = Inr \<lparr>Result_Status = Replayed, Result_Response = k_response row\<rparr> \<and> k_request_hash row = hash \<and>
                 k_response row \<noteq> None))"
            by (cases c; cases g; force simp: keyFromSqlc_def split: if_splits)+
          with same(2) read(2) m show ?thesis by (simp add: claim_trace.found)
        next
          case True
          then obtain row where row: "key_look (H ! m) key = Some row" "k_user_id row = uid" "k_request_hash row = hash"
            using read(3) by (auto simp: keyFromSqlc_def)
          have res: "s' = s3" "r = (case q of Inl d \<Rightarrow>
              if errors_Is d ?none then Inr \<lparr>Result_Status = InProgress, Result_Response = None\<rparr> else Inl d
            | Inr _ \<Rightarrow> Inr claim_new)"
            using run True \<open>c = Inl _ \<and> _\<close> by (cases c; cases q; auto simp: keyFromSqlc_def)+
          from reclaim_trace [OF s same(1,2) read(1,2) row q res(2)] res(1) show ?thesis by simp
        qed
      qed
    qed
  qed
qed

lemma save_traces:
  assumes s: "ready H s" "turn_done s = []"
    and r: "svc_SaveResponse (turn_repository H) key uid resp s = (r, s')"
  obtains (stopped) "turn_done s' = []"
  | (same) n t where "turn_done s' = [(n, t)]" "key_look t = key_look (H ! n)"
  | (stored) n t json now where "turn_done s' = [(n, t)]" "owned uid (key_look (H ! n) key)"
      "env_jsonb (env (turn_own s)) resp = Some json"
      "key_look t = (key_look (H ! n))(key := answered json now (key_look (H ! n) key))"
proof -
  obtain u s1 where u: "turn H (repo_UpdateIdempotency key uid resp) s = (u, s1)" by fastforce
  with r have s1: "s' = s1"
    by (auto simp: svc_SaveResponse_def turn_repository_def and_then_def ret_def split: sum.splits)
  from u show thesis
  proof (cases rule: turn_elim)
    case (ran n ns w)
    have d: "turn_done s' = [(n, tables w)]" using s(2) by (simp add: s1 ran(3))
    from repo_update [OF ready_idle [OF s(1) ran(1)] ran(2)] show thesis
      by (elim conjE disjE exE) (auto intro: same [OF d] stored [OF d])
  qed (use stopped s(2) s1 in simp)
qed

section \<open>The steps of a history\<close>

lemma done_by_simps [simp]:
  "done_by H (Claim key hash uid, s) = turn_done (snd (svc_CheckAndClaim (turn_repository H) key hash uid s))"
  "done_by H (Save key uid resp, s) = turn_done (snd (svc_SaveResponse (turn_repository H) key uid resp s))"
  by (auto simp: done_by_def map_ok_def and_then_def ret_def split: prod.splits sum.splits)

lemma historyD:
  assumes "key_history H qs" "(q, s) \<in> set qs"
  shows "ready H s" "turn_done s = []" "(n, t) \<in> set (done_by H (q, s)) \<Longrightarrow> t = H ! Suc n \<and> Suc n < length H"
  using assms by (auto simp: key_history_def list_all_iff fresh_def ready_def)

lemma history_claim:
  assumes "key_history H qs" "(Claim key hash uid, s) \<in> set qs"
  shows "claim_trace H key hash uid (reclaim_clock s) (fst (svc_CheckAndClaim (turn_repository H) key hash uid s))
    (done_by H (Claim key hash uid, s))"
  using claim_traces [OF historyD(1,2) [OF assms] prod.collapse [symmetric], of key hash uid]
  by (simp add: reclaim_clock_def turn_clock_def)

lemma history_step:
  assumes h: "key_history H qs" and n: "Suc n < length H"
  obtains (same) "key_look (H ! Suc n) = key_look (H ! n)"
  | (created) key hash uid s now where "(Claim key hash uid, s) \<in> set qs" "acts H (Claim key hash uid, s) n"
      "key_look (H ! n) key = None" "key_look (H ! Suc n) = (key_look (H ! n))(key \<mapsto> new_key key uid hash now)"
  | (retaken) key hash uid s m row now where "(Claim key hash uid, s) \<in> set qs" "acts H (Claim key hash uid, s) n"
      "m < n" "key_look (H ! m) key = Some row" "k_request_hash row = hash"
      "claimable uid (reclaim_clock s - staleClaimTimeout) (key_look (H ! n) key)"
      "key_look (H ! Suc n) = (key_look (H ! n))(key := reclaimed hash now (key_look (H ! n) key))"
  | (stored) key uid resp s json now where "(Save key uid resp, s) \<in> set qs" "acts H (Save key uid resp, s) n"
      "owned uid (key_look (H ! n) key)" "env_jsonb (env (turn_own s)) resp = Some json"
      "key_look (H ! Suc n) = (key_look (H ! n))(key := answered json now (key_look (H ! n) key))"
proof (cases "key_look (H ! Suc n) = key_look (H ! n)")
  case False
  with h n obtain q s t where qs: "(q, s) \<in> set qs" and d: "(n, t) \<in> set (done_by H (q, s))"
    by (fastforce simp: key_history_def acts_def)
  from historyD(3) [OF h qs d] have t: "t = H ! Suc n" by simp
  from d have pos: "acts H (q, s) n" by (force simp: acts_def)
  show thesis
  proof (cases q)
    case (Claim key hash uid)
    from history_claim [OF h qs [unfolded Claim]] d [unfolded Claim] False t show thesis
      by (cases rule: claim_trace.cases)
        (auto intro: created [OF qs [unfolded Claim] pos [unfolded Claim]] retaken [OF qs [unfolded Claim] pos [unfolded Claim]])
  next
    case (Save key uid resp)
    from historyD(1,2) [OF h qs] prod.collapse [symmetric] show thesis
    proof (cases rule: save_traces [where key = key and uid = uid and resp = resp])
      case (stored m t' json now)
      with d t show thesis unfolding Save by (intro that(4) [OF qs [unfolded Save] pos [unfolded Save]]) auto
    qed (use d False t in \<open>auto simp: Save\<close>)
  qed
qed (rule same)

text \<open>
  From one position to a later one a key keeps its owner and its request hash, and stays answered once it
  is; a claim that is unanswered at both can only have been renewed.
\<close>

definition key_kept :: "key_row \<Rightarrow> key_row option \<Rightarrow> bool" where
  "key_kept row r \<longleftrightarrow> (\<exists>row'. r = Some row' \<and> k_user_id row' = k_user_id row \<and>
     k_request_hash row' = k_request_hash row \<and> (k_response row \<noteq> None \<longrightarrow> k_response row' \<noteq> None))"

lemma history_keeps_key:
  assumes h: "key_history H qs" and "m < length H" "n \<le> m" "key_look (H ! n) key = Some row"
  shows "key_kept row (key_look (H ! m) key)"
  using assms(2-)
proof (induction m arbitrary: n key row)
  case 0
  then show ?case by (simp add: key_kept_def)
next
  case (Suc m)
  show ?case
  proof (cases "n = Suc m")
    case False
    with Suc.prems have IH: "key_kept row (key_look (H ! m) key)" by (intro Suc.IH) auto
    from h Suc.prems(1) show ?thesis
    proof (cases rule: history_step)
      case (retaken key' hash uid s p row' now)
      then have "key_kept row' (key_look (H ! m) key')" using Suc.prems(1) by (intro Suc.IH) auto
      with retaken IH show ?thesis by (auto simp: key_kept_def claimable_def reclaimed_def)
    qed (use IH in \<open>auto simp: key_kept_def answered_def owned_def split: option.splits\<close>)
  qed (use Suc.prems in \<open>simp add: key_kept_def\<close>)
qed

text \<open>While a key stays unanswered, either nothing happens to it or another request takes it over.\<close>

lemma history_unanswered:
  assumes h: "key_history H qs" and "Suc n < length H"
    and row: "key_look (H ! n) key = Some row"
    and row': "key_look (H ! Suc n) key = Some row'" "k_response row' = None"
  obtains (same) "row' = row"
  | (retaken) hash uid s where "(Claim key hash uid, s) \<in> set qs" "acts H (Claim key hash uid, s) n"
  using h assms(2)
proof (cases rule: history_step)
  case (retaken key' hash uid s p row'' now)
  with row row' that show ?thesis by (cases "key' = key") auto
qed (use row row' that in \<open>auto simp: answered_def owned_def split: if_splits option.splits\<close>)

text \<open>A request that is let through takes the key with its last statement.\<close>

lemma let_through:
  assumes h: "key_history H qs" and q: "(Claim key hash uid, s) \<in> set qs"
    and new: "fst (svc_CheckAndClaim (turn_repository H) key hash uid s) = Inr claim_new"
  defines "i \<equiv> fst (last (done_by H (Claim key hash uid, s)))"
  obtains row where "Suc i < length H" "acts H (Claim key hash uid, s) i"
    "key_look (H ! Suc i) key = Some row" "k_user_id row = uid" "k_request_hash row = hash" "k_response row = None"
    "key_look (H ! i) key = None \<or> claimable uid (reclaim_clock s - staleClaimTimeout) (key_look (H ! i) key)"
proof -
  let ?d = "done_by H (Claim key hash uid, s)"
  note last = historyD(3) [OF h q, of "fst (last ?d)" "snd (last ?d)"]
  from history_claim [OF h q, unfolded new] show thesis
  proof (cases rule: claim_trace.cases)
    case (created n t now)
    with last show thesis by (intro that [of "new_key key uid hash now"]) (auto simp: i_def acts_def new_key_def)
  next
    case (retaken t n m u l row v now)
    with last history_keeps_key [OF h, of l m key row] that show thesis
      by (auto simp: i_def acts_def claimable_def reclaimed_def key_kept_def split: option.splits)
  qed (simp_all add: claim_new_def)
qed

lemma unanswered_until:
  assumes h: "key_history H qs" and n: "i \<le> n" "n \<le> j" "j < length H"
    and i: "key_look (H ! i) key = Some row" and j: "key_look (H ! j) key = Some row'" "k_response row' = None"
  shows "\<exists>r. key_look (H ! n) key = Some r \<and> k_user_id r = k_user_id row \<and> k_request_hash r = k_request_hash row \<and>
    k_response r = None"
proof -
  from history_keeps_key [OF h _ n(1) i] n obtain r where
    r: "key_look (H ! n) key = Some r" "k_user_id r = k_user_id row" "k_request_hash r = k_request_hash row"
    by (auto simp: key_kept_def)
  with history_keeps_key [OF h n(3,2) r(1)] j show ?thesis by (auto simp: key_kept_def)
qed

lemma renewed_until:
  assumes h: "key_history H qs" and "i \<le> j" "j < length H"
    and i: "key_look (H ! i) key = Some row" and j: "key_look (H ! j) key = Some row'" "k_response row' = None"
  shows "row' = row \<or> (\<exists>n hash uid s. i \<le> n \<and> n < j \<and> (Claim key hash uid, s) \<in> set qs \<and>
    acts H (Claim key hash uid, s) n)"
  using assms(2,3) j
proof (induction j arbitrary: row' rule: dec_induct)
  case base
  with i show ?case by simp
next
  case (step n)
  from unanswered_until [OF h step.hyps(1) _ step.prems(1) i step.prems(2,3)] obtain r where
    r: "key_look (H ! n) key = Some r" "k_response r = None" by auto
  from h step.prems(1) r(1) step.prems(2,3) show ?case
  proof (cases rule: history_unanswered)
    case same
    with step.IH [OF _ r] step.prems(1) show ?thesis using less_SucI by auto
  next
    case (retaken hash uid s)
    with step.hyps show ?thesis by blast
  qed
qed

lemma distinct_parts:
  assumes "distinct (concat (map f xs))" "a < length xs" "b < length xs" "a \<noteq> b"
  shows "set (f (xs ! a)) \<inter> set (f (xs ! b)) = {}"
  using assms
proof (induction a b rule: linorder_wlog)
  case (le a b)
  then have "xs ! b \<in> set (drop (Suc a) xs)"
    by (auto simp: in_set_conv_nth intro!: exI [of _ "b - Suc a"])
  moreover have "distinct (concat (map f (take a xs @ xs ! a # drop (Suc a) xs)))"
    using le by (simp add: id_take_nth_drop [symmetric])
  ultimately show ?case by auto
qed blast

lemma let_through_again:
  assumes h: "key_history H qs"
    and q: "(Claim key hash uid, s) \<in> set qs" "(Claim key hash' uid', s') \<in> set qs"
    and new: "fst (svc_CheckAndClaim (turn_repository H) key hash uid s) = Inr claim_new"
      "fst (svc_CheckAndClaim (turn_repository H) key hash' uid' s') = Inr claim_new"
  defines "i \<equiv> fst (last (done_by H (Claim key hash uid, s)))"
    and "j \<equiv> fst (last (done_by H (Claim key hash' uid', s')))"
  assumes ij: "i < j"
  shows "uid' = uid \<and> hash' = hash \<and>
    (\<forall>n. i < n \<and> n \<le> j \<longrightarrow> (\<exists>row. key_look (H ! n) key = Some row \<and> k_user_id row = uid \<and> k_request_hash row = hash \<and>
       k_response row = None)) \<and>
    (\<exists>row. key_look (H ! j) key = Some row \<and> k_created_at row + staleClaimTimeout < reclaim_clock s' \<and>
       (key_look (H ! Suc i) key = Some row \<or> (\<exists>n hash uid s. i < n \<and> n < j \<and> (Claim key hash uid, s) \<in> set qs \<and>
          acts H (Claim key hash uid, s) n)))"
proof -
  from h q(1) new(1) obtain row where "Suc i < length H"
    and row: "key_look (H ! Suc i) key = Some row" "k_user_id row = uid" "k_request_hash row = hash" "k_response row = None"
    unfolding i_def by (rule let_through)
  from h q(2) new(2) obtain row2 where j: "Suc j < length H"
    and row2: "key_look (H ! Suc j) key = Some row2" "k_user_id row2 = uid'" "k_request_hash row2 = hash'"
    and claimable: "key_look (H ! j) key = None \<or> claimable uid' (reclaim_clock s' - staleClaimTimeout) (key_look (H ! j) key)"
    unfolding j_def by (rule let_through)
  from history_keeps_key [OF h _ _ row(1), of "Suc j"] row row2 ij j have same: "uid' = uid" "hash' = hash"
    by (auto simp: key_kept_def)
  from history_keeps_key [OF h _ _ row(1), of j] claimable ij j obtain r where
    r: "key_look (H ! j) key = Some r" "k_response r = None" "k_created_at r + staleClaimTimeout < reclaim_clock s'"
    by (auto simp: key_kept_def claimable_def)
  have "\<exists>r. key_look (H ! n) key = Some r \<and> k_user_id r = uid \<and> k_request_hash r = hash \<and> k_response r = None"
    if "i < n \<and> n \<le> j" for n
    using unanswered_until [OF h _ _ _ row(1) r(1,2), of n] that j row by auto
  moreover from renewed_until [OF h _ _ row(1) r(1,2)] ij j have
    "r = row \<or> (\<exists>n hash uid s. i < n \<and> n < j \<and> (Claim key hash uid, s) \<in> set qs \<and>
      acts H (Claim key hash uid, s) n)"
    by (auto simp: Suc_le_eq)
  ultimately show ?thesis using same r row(1) by auto
qed

section \<open>Where an answer comes from\<close>

text \<open>In a history that starts without the key, a response is one that a request has stored.\<close>

lemma response_stored:
  assumes h: "key_history H qs" and "m < length H" and "key_look (H ! 0) key = None"
    and "key_look (H ! m) key = Some row" "k_response row = Some json"
  shows "\<exists>n resp s. n < m \<and> (Save key (k_user_id row) resp, s) \<in> set qs \<and>
    acts H (Save key (k_user_id row) resp, s) n \<and> env_jsonb (env (turn_own s)) resp = Some json"
  using assms(2-)
proof (induction m arbitrary: row)
  case (Suc m)
  have IH: ?case if "key_look (H ! m) key = Some r" "k_response r = Some json" "k_user_id r = k_user_id row" for r
    using Suc.IH [OF _ Suc.prems(2) that(1,2)] Suc.prems(1) unfolding that(3) by (meson less_SucI Suc_lessD)
  from h Suc.prems(1) show ?case
  proof (cases rule: history_step)
    case (stored key' uid resp s json' now)
    show ?thesis
    proof (cases "key' = key")
      case True
      with stored Suc.prems show ?thesis
        by (intro exI [of _ m] exI [of _ resp] exI [of _ s]) (auto simp: answered_def owned_def split: option.splits)
    qed (use stored Suc.prems IH in simp)
  qed (use IH Suc.prems in \<open>auto simp: new_key_def claimable_def reclaimed_def split: if_splits option.splits\<close>)
qed simp

section \<open>A sample history\<close>

text \<open>
  A request claims a key at position 0. A second one finds it taken at 1 and 2, and being more than 30
  seconds later takes it over at 4, the response of the first is stored at 5, and a third one, which had
  tried to create the key at 3, is answered with it at 6.
\<close>

definition sample_turns :: "nat \<Rightarrow> nat list \<Rightarrow> turns" where
  "sample_turns n ns = \<lparr>turn_own = (sample_world all_works 0 sample_tables)\<lparr>stmt_no := n\<rparr>, turn_at = ns, turn_done = []\<rparr>"

definition sample_requests :: "(key_request \<times> turns) list" where
  "sample_requests = [
     (Claim ''k'' ''h'' 1, sample_turns 0 [0]), (Claim ''k'' ''h'' 1, sample_turns 8 [1, 2, 4]),
     (Save ''k'' 1 ''{}'', sample_turns 9 [5]), (Claim ''k'' ''h'' 1, sample_turns 9 [3, 6])]"

definition sample_key :: "time \<Rightarrow> string option \<Rightarrow> time \<Rightarrow> tables" where
  "sample_key created resp updated = sample_tables\<lparr>t_keys := [(new_key ''k'' 1 ''h'' created)\<lparr>k_response := resp, k_updated_at := updated\<rparr>]\<rparr>"

definition sample_states :: "tables list" where
  "sample_states = sample_tables # replicate 4 (sample_key 0 None 0) @ [sample_key 10000 None 10000] @
     replicate 2 (sample_key 10000 (Some ''{}'') 9000)"

lemma sample_key_history: "key_history sample_states sample_requests"
proof -
  have "list_all schema_ok sample_states" "list_all (\<lambda>q. fresh sample_states (snd q)) sample_requests"
    "list_all (\<lambda>q. list_all (\<lambda>(n, t). Suc n < length sample_states \<and> sample_states ! Suc n = t)
       (done_by sample_states q)) sample_requests"
    "distinct (concat (map (\<lambda>q. map fst (done_by sample_states q)) sample_requests))"
    by code_simp+
  moreover have "\<forall>n < length sample_states - 1. \<exists>q \<in> set sample_requests. acts sample_states q n"
    by code_simp
  ultimately show ?thesis by (simp add: key_history_def less_diff_conv)
qed

text \<open>
  A claim is no lease: the first request is not told that the second has taken its key over, both are let
  through, and the response of the first is stored under the claim of the second.
\<close>

lemma claim_overtaken:
  "map (\<lambda>(q, s). fst (conduct sample_states q s)) sample_requests =
     [Inr (Some claim_new), Inr (Some claim_new), Inr None,
      Inr (Some \<lparr>Result_Status = Replayed, Result_Response = Some ''{}''\<rparr>)]"
  by code_simp

lemma conduct_claim:
  "fst (conduct H (Claim key hash uid) s) = Inr (Some res) \<longleftrightarrow>
   fst (svc_CheckAndClaim (turn_repository H) key hash uid s) = Inr res"
  by (auto simp: map_ok_def and_then_def ret_def split: prod.splits sum.splits)

section \<open>Properties\<close>



text \<open>
  C8. What each other answer means in the midst of others. A replayed response is one that an earlier
  \<open>SaveResponse\<close> for this key and user has stored, and a request with the same body was made with the key;
  a mismatch means that the key is bound to another body for good; one that is in progress has found
  the key claimed with its own body.
\<close>

theorem answers_amid_others:
  assumes h: "key_history H qs" and free: "key_look (H ! 0) key = None"
    and q: "(Claim key hash uid, s) \<in> set qs"
    and r: "fst (conduct H (Claim key hash uid) s) = Inr (Some res)" and "res \<noteq> claim_new"
  shows "\<exists>m row. acts H (Claim key hash uid, s) m \<and> key_look (H ! m) key = Some row \<and> k_user_id row = uid \<and>
    (\<forall>l. m \<le> l \<and> l < length H \<longrightarrow> key_kept row (key_look (H ! l) key)) \<and>
    (if k_request_hash row \<noteq> hash then res = \<lparr>Result_Status = Mismatch, Result_Response = None\<rparr>
     else res = \<lparr>Result_Status = InProgress, Result_Response = None\<rparr> \<or>
       (\<exists>n resp s'. n < m \<and> (Save key uid resp, s') \<in> set qs \<and> acts H (Save key uid resp, s') n \<and>
          k_response row = env_jsonb (env (turn_own s')) resp \<and>
          res = \<lparr>Result_Status = Replayed, Result_Response = k_response row\<rparr>))"
proof -
  let ?d = "done_by H (Claim key hash uid, s)"
  have bound: "Suc m < length H" "acts H (Claim key hash uid, s) m" if "m \<in> fst ` set ?d" for m
    using that historyD(3) [OF h q] by (auto simp: acts_def)
  note kept = history_keeps_key [OF h]
  from history_claim [OF h q, unfolded r [unfolded conduct_claim]] show ?thesis
  proof (cases rule: claim_trace.cases)
    case (found t n m u)
    then obtain row where row: "key_look (H ! m) key = Some row" "k_user_id row = uid"
      and res: "res = \<lparr>Result_Status = Mismatch, Result_Response = None\<rparr> \<and> k_request_hash row \<noteq> hash \<or>
        res = \<lparr>Result_Status = Replayed, Result_Response = k_response row\<rparr> \<and> k_request_hash row = hash \<and> k_response row \<noteq> None"
      by auto
    from found(1) have m: "Suc m < length H" "acts H (Claim key hash uid, s) m" by (auto intro: bound)
    show ?thesis
      using row res m response_stored [OF h _ free row(1)] kept [OF _ _ row(1)]
      by (intro exI [of _ m] exI [of _ row]) fastforce
  next
    case (waiting t n m u l v row)
    from waiting(1) have m: "acts H (Claim key hash uid, s) m" by (auto intro: bound)
    with waiting(7-) kept [OF _ _ waiting(7)] show ?thesis
      by (intro exI [of _ m] exI [of _ row]) auto
  qed (use \<open>res \<noteq> claim_new\<close> in simp_all)
qed

theorem answers_amid_others_witness:
  "\<exists>resp s. (Save ''k'' 1 resp, s) \<in> set sample_requests \<and> env_jsonb (env (turn_own s)) resp = Some ''{}'' \<and>
     fst (conduct sample_states (Claim ''k'' ''h'' 1) (sample_turns 9 [3, 6])) =
       Inr (Some \<lparr>Result_Status = Replayed, Result_Response = Some ''{}''\<rparr>)"
proof -
  let ?res = "\<lparr>Result_Status = Replayed, Result_Response = Some ''{}''\<rparr>"
  have r: "fst (conduct sample_states (Claim ''k'' ''h'' 1) (sample_turns 9 [3, 6])) = Inr (Some ?res)" by code_simp
  have free: "key_look (sample_states ! 0) ''k'' = None" by code_simp
  have q: "(Claim ''k'' ''h'' 1, sample_turns 9 [3, 6]) \<in> set sample_requests" by (simp add: sample_requests_def)
  from answers_amid_others [OF sample_key_history free q r] obtain resp s where
    "(Save ''k'' 1 resp, s) \<in> set sample_requests" "env_jsonb (env (turn_own s)) resp = Some ''{}''"
    by (auto simp: claim_new_def split: if_splits)
  with r show ?thesis by blast
qed

end
