(* ===== verification/Json.thy ===== *)
theory Json
  imports Text
begin

text \<open>
  What the handlers use of Go's \<open>encoding/json\<close> (version 1 of the package) on bytes: the text of a
  JSON value as \<open>Marshal\<close> writes it, and the value a \<open>Decoder\<close> reads from the start of a body. Structs
  are read and written in \<^theory_text>\<open>Payloads\<close>.
\<close>

datatype json =
    JNull
  | JBool bool
  | JNumber string
  | JString string
  | JArray "json list"
  | JObject "(string \<times> json) list"

section \<open>UTF-8\<close>

definition byte :: "char \<Rightarrow> nat" where
  "byte c = of_char c"

definition cont :: "nat \<Rightarrow> bool" where
  "cont b \<longleftrightarrow> 0x80 \<le> b \<and> b \<le> 0xBF"

text \<open>The number of bytes of the rune a string of bytes starts with, 0 when that is no UTF-8.\<close>

fun rune_len :: "nat list \<Rightarrow> nat" where
  "rune_len [] = 0"
| "rune_len (b # bs) =
     (if b < 0x80 then 1
      else if 0xC2 \<le> b \<and> b \<le> 0xDF then
        (case bs of c # _ \<Rightarrow> if cont c then 2 else 0 | [] \<Rightarrow> 0)
      else if 0xE0 \<le> b \<and> b \<le> 0xEF then
        (case bs of
           c # d # _ \<Rightarrow>
             if cont c \<and> (b = 0xE0 \<longrightarrow> 0xA0 \<le> c) \<and> (b = 0xED \<longrightarrow> c \<le> 0x9F) \<and> cont d then 3 else 0
         | _ \<Rightarrow> 0)
      else if 0xF0 \<le> b \<and> b \<le> 0xF4 then
        (case bs of
           c # d # e # _ \<Rightarrow>
             if cont c \<and> (b = 0xF0 \<longrightarrow> 0x90 \<le> c) \<and> (b = 0xF4 \<longrightarrow> c \<le> 0x8F) \<and> cont d \<and> cont e then 4 else 0
         | _ \<Rightarrow> 0)
      else 0)"

text \<open>\<open>utf8.AppendRune\<close>, for runes that are not surrogates.\<close>

definition utf8 :: "nat \<Rightarrow> string" where
  "utf8 r = bytes
     (if r < 0x80 then [r]
      else if r < 0x800 then [0xC0 + r div 64, 0x80 + r mod 64]
      else if r < 0x10000 then [0xE0 + r div 4096, 0x80 + r div 64 mod 64, 0x80 + r mod 64]
      else [0xF0 + r div 262144, 0x80 + r div 4096 mod 64, 0x80 + r div 64 mod 64, 0x80 + r mod 64])"

section \<open>Writing\<close>

definition hex_digit :: "nat \<Rightarrow> char" where
  "hex_digit d = (if d < 10 then char_of (48 + d) else char_of (87 + d))"

definition escapes :: "(char \<times> string) list" where
  "escapes = [(CHR 0x22, bytes [0x5C, 0x22]), (CHR 0x5C, bytes [0x5C, 0x5C]),
     (CHR 0x08, bytes [0x5C, 0x62]), (CHR 0x0C, bytes [0x5C, 0x66]), (CHR 0x0A, bytes [0x5C, 0x6E]),
     (CHR 0x0D, bytes [0x5C, 0x72]), (CHR 0x09, bytes [0x5C, 0x74])]"

definition u_escape :: "nat \<Rightarrow> string" where
  "u_escape n = CHR 0x5C # CHR ''u'' # map (\<lambda>i. hex_digit (n div 16 ^ i mod 16)) [3, 2, 1, 0]"

definition escape_byte :: "char \<Rightarrow> string" where
  "escape_byte c =
     (case map_of escapes c of
        Some t \<Rightarrow> t
      | None \<Rightarrow> if byte c < 32 \<or> c \<in> {CHR ''<'', CHR ''>'', CHR ''&''} then u_escape (byte c) else [c])"

function quote_chars :: "string \<Rightarrow> string" where
  "quote_chars [] = []"
| "quote_chars (c # cs) =
     (if byte c < 0x80 then escape_byte c @ quote_chars cs
      else let n = rune_len (map byte (c # cs)) in
        if n = 0 then u_escape 0xFFFD @ quote_chars cs
        else if take n (c # cs) = utf8 0x2028 then u_escape 0x2028 @ quote_chars (drop n (c # cs))
        else if take n (c # cs) = utf8 0x2029 then u_escape 0x2029 @ quote_chars (drop n (c # cs))
        else take n (c # cs) @ quote_chars (drop n (c # cs)))"
  by pat_completeness auto
termination by (relation "measure length") auto

definition quote :: "string \<Rightarrow> string" where
  "quote s = CHR 0x22 # quote_chars s @ [CHR 0x22]"

fun join :: "string \<Rightarrow> string list \<Rightarrow> string" where
  "join sep [] = []"
| "join sep [x] = x"
| "join sep (x # y # xs) = x @ sep @ join sep (y # xs)"

fun print_json :: "json \<Rightarrow> string" where
  "print_json JNull = ''null''"
| "print_json (JBool b) = (if b then ''true'' else ''false'')"
| "print_json (JNumber t) = t"
| "print_json (JString s) = quote s"
| "print_json (JArray js) = ''['' @ join '','' (map print_json js) @ '']''"
| "print_json (JObject ms) = ''{'' @ join '','' (map (\<lambda>(k, j). quote k @ '':'' @ print_json j) ms) @ ''}''"

section \<open>Reading\<close>

definition is_ws :: "char \<Rightarrow> bool" where
  "is_ws c \<longleftrightarrow> c \<in> {CHR '' '', CHR 0x09, CHR 0x0A, CHR 0x0D}"

abbreviation skip_ws :: "string \<Rightarrow> string" where
  "skip_ws \<equiv> dropWhile is_ws"

definition hex_val :: "char \<Rightarrow> nat option" where
  "hex_val c = (let n = byte c in
     if 48 \<le> n \<and> n \<le> 57 then Some (n - 48)
     else if 97 \<le> n \<and> n \<le> 102 then Some (n - 87)
     else if 65 \<le> n \<and> n \<le> 70 then Some (n - 55) else None)"

text \<open>Four hexadecimal digits, as they follow \<open>\u\<close>.\<close>

definition hex4 :: "string \<Rightarrow> (nat \<times> string) option" where
  "hex4 s =
     (case s of
        a # b # c # d # r \<Rightarrow>
          (case (hex_val a, hex_val b, hex_val c, hex_val d) of
             (Some i, Some j, Some k, Some l) \<Rightarrow> Some (((i * 16 + j) * 16 + k) * 16 + l, r)
           | _ \<Rightarrow> None)
      | _ \<Rightarrow> None)"

definition surrogate :: "nat \<Rightarrow> bool" where
  "surrogate n \<longleftrightarrow> 0xD800 \<le> n \<and> n < 0xE000"

text \<open>
  The rune of a \<open>\u\<close> escape and what follows it: a pair of surrogates is one rune, a lone surrogate
  the replacement character.
\<close>

definition u_rune :: "string \<Rightarrow> (nat \<times> string) option" where
  "u_rune s =
     (case hex4 s of
        None \<Rightarrow> None
      | Some (n, r) \<Rightarrow>
          if \<not> surrogate n then Some (n, r)
          else case r of
            b # u # r1 \<Rightarrow>
              if n < 0xDC00 \<and> b = CHR 0x5C \<and> u = CHR ''u'' then
                (case hex4 r1 of
                   Some (m, r2) \<Rightarrow>
                     if 0xDC00 \<le> m \<and> m < 0xE000 then Some (0x10000 + (n - 0xD800) * 1024 + (m - 0xDC00), r2)
                     else Some (0xFFFD, r)
                 | None \<Rightarrow> None)
              else Some (0xFFFD, r)
          | _ \<Rightarrow> Some (0xFFFD, r))"

definition unescapes :: "(char \<times> nat) list" where
  "unescapes = [(CHR 0x22, 0x22), (CHR 0x5C, 0x5C), (CHR ''/'', 0x2F), (CHR ''b'', 8), (CHR ''f'', 12),
     (CHR ''n'', 10), (CHR ''r'', 13), (CHR ''t'', 9)]"

lemma hex4_length: "hex4 s = Some (n, r) \<Longrightarrow> length r < length s"
  by (auto simp: hex4_def split: list.splits option.splits)

lemma u_rune_length: "u_rune s = Some (n, r) \<Longrightarrow> length r < length s"
  by (auto simp: u_rune_def dest!: hex4_length split: option.splits if_splits list.splits)

definition prepend :: "'a list \<Rightarrow> ('a list \<times> 'b) option \<Rightarrow> ('a list \<times> 'b) option" where
  "prepend xs r = map_option (\<lambda>(ys, b). (xs @ ys, b)) r"

text \<open>The characters of a string up to its closing quote; bytes that are no UTF-8 are replaced.\<close>

function parse_chars :: "string \<Rightarrow> (string \<times> string) option" where
  "parse_chars [] = None"
| "parse_chars (c # cs) =
     (if c = CHR 0x22 then Some ([], cs)
      else if c = CHR 0x5C then
        (case cs of
           [] \<Rightarrow> None
         | e # r \<Rightarrow>
             if e = CHR ''u'' then
               (case u_rune r of None \<Rightarrow> None | Some (n, r') \<Rightarrow> prepend (utf8 n) (parse_chars r'))
             else (case map_of unescapes e of None \<Rightarrow> None | Some n \<Rightarrow> prepend (bytes [n]) (parse_chars r)))
      else if byte c < 32 then None
      else if byte c < 0x80 then prepend [c] (parse_chars cs)
      else let n = rune_len (map byte (c # cs)) in
        if n = 0 then prepend (utf8 0xFFFD) (parse_chars cs)
        else prepend (take n (c # cs)) (parse_chars (drop n (c # cs))))"
  by pat_completeness auto
termination by (relation "measure length") (auto dest: u_rune_length)

abbreviation is_digit :: "char \<Rightarrow> bool" where
  "is_digit c \<equiv> digit_val c \<noteq> None"

definition some_digits :: "string \<Rightarrow> (string \<times> string) option" where
  "some_digits s = (if takeWhile is_digit s = [] then None else Some (takeWhile is_digit s, dropWhile is_digit s))"

definition expect :: "char \<Rightarrow> string \<Rightarrow> string option" where
  "expect c s = (case s of [] \<Rightarrow> None | x # r \<Rightarrow> if x = c then Some r else None)"

definition int_part :: "string \<Rightarrow> (string \<times> string) option" where
  "int_part s = (case expect CHR ''0'' s of Some r \<Rightarrow> Some (''0'', r) | None \<Rightarrow> some_digits s)"

definition frac_part :: "string \<Rightarrow> (string \<times> string) option" where
  "frac_part s = (case expect CHR ''.'' s of Some r \<Rightarrow> prepend ''.'' (some_digits r) | None \<Rightarrow> Some ([], s))"

definition exp_part :: "string \<Rightarrow> (string \<times> string) option" where
  "exp_part s =
     (case s of
        c # cs \<Rightarrow>
          if c = CHR ''e'' \<or> c = CHR ''E'' then
            (case cs of
               d # ds \<Rightarrow> if d = CHR ''+'' \<or> d = CHR ''-'' then prepend [c, d] (some_digits ds)
                         else prepend [c] (some_digits cs)
             | [] \<Rightarrow> None)
          else Some ([], s)
      | [] \<Rightarrow> Some ([], []))"

definition then_parse ::
  "(string \<times> string) option \<Rightarrow> (string \<Rightarrow> (string \<times> string) option) \<Rightarrow> (string \<times> string) option" where
  "then_parse r p = (case r of None \<Rightarrow> None | Some (t, s) \<Rightarrow> prepend t (p s))"

definition parse_number :: "string \<Rightarrow> (string \<times> string) option" where
  "parse_number s =
     then_parse (then_parse (then_parse
       (case expect CHR ''-'' s of Some r \<Rightarrow> Some (''-'', r) | None \<Rightarrow> Some ([], s)) int_part) frac_part) exp_part"

definition literal :: "string \<Rightarrow> json \<Rightarrow> string \<Rightarrow> (json \<times> string) option" where
  "literal w j s = (if take (length w) s = w then Some (j, drop (length w) s) else None)"

text \<open>The key of a member, up to the colon.\<close>

definition parse_key :: "string \<Rightarrow> (string \<times> string) option" where
  "parse_key s =
     (case Option.bind (expect CHR 0x22 (skip_ws s)) parse_chars of
        None \<Rightarrow> None
      | Some (k, r) \<Rightarrow> map_option (Pair k) (expect CHR '':'' (skip_ws r)))"

text \<open>
  A value, the elements of an array after its bracket, and the members of an object after its brace.
  Each call spends one unit of fuel; \<open>parse_fuel\<close> shows that the fuel of \<open>parse_json\<close> is enough.
\<close>

fun parse_value :: "nat \<Rightarrow> string \<Rightarrow> (json \<times> string) option"
and parse_elems :: "nat \<Rightarrow> string \<Rightarrow> (json list \<times> string) option"
and parse_members :: "nat \<Rightarrow> string \<Rightarrow> ((string \<times> json) list \<times> string) option" where
  "parse_value 0 s = None"
| "parse_value (Suc n) s =
     (case skip_ws s of
        [] \<Rightarrow> None
      | c # cs \<Rightarrow>
          if c = CHR ''n'' then literal ''null'' JNull (c # cs)
          else if c = CHR ''t'' then literal ''true'' (JBool True) (c # cs)
          else if c = CHR ''f'' then literal ''false'' (JBool False) (c # cs)
          else if c = CHR 0x22 then map_option (apfst JString) (parse_chars cs)
          else if c = CHR ''['' then
            (case expect CHR '']'' (skip_ws cs) of
               Some r \<Rightarrow> Some (JArray [], r)
             | None \<Rightarrow> map_option (apfst JArray) (parse_elems n cs))
          else if c = CHR ''{'' then
            (case expect CHR ''}'' (skip_ws cs) of
               Some r \<Rightarrow> Some (JObject [], r)
             | None \<Rightarrow> map_option (apfst JObject) (parse_members n cs))
          else map_option (apfst JNumber) (parse_number (c # cs)))"
| "parse_elems 0 s = None"
| "parse_elems (Suc n) s =
     (case parse_value n s of
        None \<Rightarrow> None
      | Some (j, r) \<Rightarrow>
          (case expect CHR '','' (skip_ws r) of
             Some r' \<Rightarrow> prepend [j] (parse_elems n r')
           | None \<Rightarrow> map_option (Pair [j]) (expect CHR '']'' (skip_ws r))))"
| "parse_members 0 s = None"
| "parse_members (Suc n) s =
     (case parse_key s of
        None \<Rightarrow> None
      | Some (k, s1) \<Rightarrow>
          (case parse_value n s1 of
             None \<Rightarrow> None
           | Some (j, r) \<Rightarrow>
               (case expect CHR '','' (skip_ws r) of
                  Some r' \<Rightarrow> prepend [(k, j)] (parse_members n r')
                | None \<Rightarrow> map_option (Pair [(k, j)]) (expect CHR ''}'' (skip_ws r)))))"

text \<open>The scanner refuses more than 10000 open brackets.\<close>

fun depth :: "json \<Rightarrow> int" where
  "depth (JArray js) = 1 + foldr max (map depth js) 0"
| "depth (JObject ms) = 1 + foldr max (map (\<lambda>(k, j). depth j) ms) 0"
| "depth _ = 0"

definition parse_json :: "string \<Rightarrow> (json \<times> string) option" where
  "parse_json s =
     (case parse_value (2 * length s + 2) s of
        None \<Rightarrow> None
      | Some (j, r) \<Rightarrow> if depth j \<le> 10000 then Some (j, r) else None)"

section \<open>Enough fuel\<close>

lemma prepend_Some: "prepend xs r = Some (ys, s) \<longleftrightarrow> (\<exists>zs. r = Some (zs, s) \<and> ys = xs @ zs)"
  by (auto simp: prepend_def)

lemma prepend_None [simp]: "prepend xs r = None \<longleftrightarrow> r = None" "prepend xs None = None"
  by (simp_all add: prepend_def)

lemma prepend_pair [simp]: "prepend xs (Some (ys, s)) = Some (xs @ ys, s)"
  by (simp add: prepend_def)

lemma expect_Cons [simp]: "expect c [] = None" "expect c (x # r) = (if x = c then Some r else None)"
  by (simp_all add: expect_def)

lemma expect_length: "expect c s = Some r \<Longrightarrow> length r < length s"
  by (auto simp: expect_def split: list.splits if_splits)

lemma skip_ws_length: "length (skip_ws s) \<le> length s"
  by (rule length_dropWhile_le)

lemma parse_chars_Some:
  assumes "parse_chars (c # cs) = Some (t, r)"
  shows "r = cs \<or> (\<exists>s' t'. length s' < length (c # cs) \<and> parse_chars s' = Some (t', r))"
proof -
  consider "c = CHR 0x22" | e r1 where "c = CHR 0x5C" "cs = e # r1"
    | "c \<noteq> CHR 0x22" "c \<noteq> CHR 0x5C"
    using assms by (cases cs) (auto split: if_splits)
  then show ?thesis
  proof cases
    case 1
    with assms show ?thesis by simp
  next
    case 2
    with assms show ?thesis
      by (auto simp: prepend_Some split: if_splits option.splits dest!: u_rune_length)
  next
    case 3
    with assms show ?thesis
      by (auto simp: prepend_Some Let_def split: if_splits)
  qed
qed

lemma parse_chars_length: "parse_chars s = Some (t, r) \<Longrightarrow> length r < length s"
proof (induction s arbitrary: t rule: length_induct)
  case (1 s)
  then show ?case
    by (cases s) (fastforce dest: parse_chars_Some)+
qed

lemma parse_key_length:
  assumes "parse_key s = Some (k, r)"
  shows "length r < length s"
proof -
  from assms obtain s1 s2 where "expect CHR 0x22 (skip_ws s) = Some s1" "parse_chars s1 = Some (k, s2)"
    "expect CHR '':'' (skip_ws s2) = Some r"
    by (auto simp: parse_key_def split: option.splits Option.bind_splits)
  from expect_length [OF this(1)] parse_chars_length [OF this(2)] expect_length [OF this(3)]
    skip_ws_length [of s] skip_ws_length [of s2]
  show ?thesis by linarith
qed

lemma some_digits_length: "some_digits s = Some (t, r) \<Longrightarrow> length r < length s"
proof -
  assume "some_digits s = Some (t, r)"
  then have "takeWhile is_digit s \<noteq> []" "r = dropWhile is_digit s" by (auto simp: some_digits_def split: if_splits)
  moreover have "length (takeWhile is_digit s) + length (dropWhile is_digit s) = length s"
    by (simp flip: length_append)
  ultimately show ?thesis by (cases "takeWhile is_digit s") simp_all
qed

lemma number_parts_length:
  "int_part s = Some (t, r) \<Longrightarrow> length r < length s"
  "frac_part s = Some (t, r) \<Longrightarrow> length r \<le> length s"
  "exp_part s = Some (t, r) \<Longrightarrow> length r \<le> length s"
proof -
  show "int_part s = Some (t, r) \<Longrightarrow> length r < length s"
    by (auto simp: int_part_def split: option.splits dest: expect_length some_digits_length)
  show "frac_part s = Some (t, r) \<Longrightarrow> length r \<le> length s"
    by (auto simp: frac_part_def prepend_Some split: option.splits dest!: expect_length some_digits_length)
  show "exp_part s = Some (t, r) \<Longrightarrow> length r \<le> length s"
    by (auto simp: exp_part_def prepend_Some split: list.splits if_splits dest!: some_digits_length)
qed

lemma parse_number_length:
  assumes "parse_number s = Some (t, r)"
  shows "length r < length s"
proof -
  from assms have "\<exists>s0 t1 s1 t2 s2 t3. (s0 = s \<or> expect CHR ''-'' s = Some s0) \<and>
      int_part s0 = Some (t1, s1) \<and> frac_part s1 = Some (t2, s2) \<and> exp_part s2 = Some (t3, r)"
    unfolding parse_number_def then_parse_def
    by (fastforce split: option.splits simp: prepend_Some)
  then obtain t1 s1 t2 s2 s0 t3 where "s0 = s \<or> expect CHR ''-'' s = Some s0"
    "int_part s0 = Some (t1, s1)" "frac_part s1 = Some (t2, s2)" "exp_part s2 = Some (t3, r)" by blast
  with expect_length [of "CHR ''-''" s s0] number_parts_length show ?thesis by fastforce
qed

lemma literal_length: "literal w j s = Some (j', r) \<Longrightarrow> w \<noteq> [] \<Longrightarrow> length r < length s"
proof -
  assume "literal w j s = Some (j', r)" and w: "w \<noteq> []"
  then have r: "r = drop (length w) s" and "take (length w) s = w" by (auto simp: literal_def split: if_splits)
  then have "length w \<le> length s" by (metis length_take min.cobounded1)
  with r w show ?thesis by (cases w) auto
qed

lemma skip_ws_Cons: "skip_ws s = c # cs \<Longrightarrow> length cs < length s"
  using skip_ws_length [of s] by simp

lemma parse_length:
  "parse_value n s = Some (j, r) \<Longrightarrow> length r < length s"
  "parse_elems n s = Some (js, r) \<Longrightarrow> length r < length s"
  "parse_members n s = Some (ms, r) \<Longrightarrow> length r < length s"
proof (induction n arbitrary: s j js ms r)
  case (Suc n)
  { case 1
    then obtain c cs where cs: "skip_ws s = c # cs" by (auto split: list.splits)
    note l = skip_ws_Cons [OF cs] literal_length parse_chars_length Suc.IH(2,3) parse_number_length
    from 1 cs consider w j' where "literal w j' (c # cs) = Some (j, r)" "w \<noteq> []"
      | t where "parse_chars cs = Some (t, r)" | d where "expect d (skip_ws cs) = Some r"
      | t where "parse_elems n cs = Some (t, r)" | t where "parse_members n cs = Some (t, r)"
      | t where "parse_number (c # cs) = Some (t, r)"
      by (fastforce split: if_splits option.splits)
    then show ?case
      using l skip_ws_length [of s] expect_length skip_ws_length [of cs] cs
      by cases fastforce+ }
  { case 2
    then obtain j1 r1 where "parse_value n s = Some (j1, r1)"
      and "(\<exists>r2 t. expect CHR '','' (skip_ws r1) = Some r2 \<and> parse_elems n r2 = Some (t, r)) \<or>
        expect CHR '']'' (skip_ws r1) = Some r"
      by (auto simp: prepend_Some split: option.splits)
    with Suc.IH(1) Suc.IH(2) skip_ws_length [of r1] show ?case by (fastforce dest: expect_length) }
  { case 3
    then obtain k s1 j1 r1 where "parse_key s = Some (k, s1)" "parse_value n s1 = Some (j1, r1)"
      and "(\<exists>r2 t. expect CHR '','' (skip_ws r1) = Some r2 \<and> parse_members n r2 = Some (t, r)) \<or>
        expect CHR ''}'' (skip_ws r1) = Some r"
      by (auto simp: prepend_Some split: option.splits)
    with parse_key_length Suc.IH(1) Suc.IH(3) skip_ws_length [of r1] show ?case
      by (fastforce dest: expect_length) }
qed simp_all

lemma parse_fuel:
  "2 * length s + 2 \<le> n \<Longrightarrow> n \<le> m \<Longrightarrow> parse_value n s = parse_value m s"
  "2 * length s + 3 \<le> n \<Longrightarrow> n \<le> m \<Longrightarrow> parse_elems n s = parse_elems m s"
  "2 * length s + 3 \<le> n \<Longrightarrow> n \<le> m \<Longrightarrow> parse_members n s = parse_members m s"
proof (induction n arbitrary: s m)
  case (Suc n)
  { case 1
    then obtain k where m: "m = Suc k" "n \<le> k" by (cases m) auto
    have "parse_elems n cs = parse_elems k cs" "parse_members n cs = parse_members k cs"
      if "skip_ws s = c # cs" for c cs
      using Suc.IH(2,3) [of cs k] skip_ws_Cons [OF that] 1 m by simp_all
    with m show ?case
      by (cases "skip_ws s") (simp_all del: dropWhile_eq_Nil_conv split: option.split) }
  { case 2
    then obtain k where m: "m = Suc k" "n \<le> k" by (cases m) auto
    have "parse_value n s = parse_value k s" using Suc.IH(1) [of s k] 2 m by simp
    moreover have "parse_elems n r' = parse_elems k r'"
      if "parse_value k s = Some (j, r)" "expect CHR '','' (skip_ws r) = Some r'" for j r r'
      using parse_length(1) [OF that(1)] expect_length [OF that(2)] skip_ws_length [of r]
        Suc.IH(2) [of r' k] 2 m by simp
    ultimately show ?case using m by (simp split: option.split) }
  { case 3
    then obtain k where m: "m = Suc k" "n \<le> k" by (cases m) auto
    have "parse_value n s1 = parse_value k s1" if "parse_key s = Some (x, s1)" for x s1
      using parse_key_length [OF that] Suc.IH(1) [of s1 k] 3 m by simp
    moreover have "parse_members n r' = parse_members k r'"
      if "parse_key s = Some (x, s1)" "parse_value k s1 = Some (j, r)" "expect CHR '','' (skip_ws r) = Some r'"
      for x s1 j r r'
      using parse_key_length [OF that(1)] parse_length(1) [OF that(2)] expect_length [OF that(3)]
        skip_ws_length [of r] Suc.IH(3) [of r' k] 3 m by simp
    ultimately show ?case using m by (simp split: option.split) }
qed simp_all

section \<open>What is written is read back\<close>

definition plain_text :: "string \<Rightarrow> bool" where
  "plain_text s \<longleftrightarrow>
     (\<forall>c \<in> set s. 32 \<le> byte c \<and> byte c < 0x80 \<and> c \<notin> {CHR 0x22, CHR 0x5C, CHR ''<'', CHR ''>'', CHR ''&''})"

fun json_plain :: "json \<Rightarrow> bool" where
  "json_plain JNull \<longleftrightarrow> True"
| "json_plain (JBool b) \<longleftrightarrow> True"
| "json_plain (JNumber t) \<longleftrightarrow> (case Atoi t of None \<Rightarrow> False | Some n \<Rightarrow> t = Itoa n)"
| "json_plain (JString s) \<longleftrightarrow> plain_text s"
| "json_plain (JArray js) \<longleftrightarrow> list_all json_plain js"
| "json_plain (JObject ms) \<longleftrightarrow> list_all (\<lambda>(k, j). plain_text k \<and> json_plain j) ms"

lemma plain_char:
  assumes "32 \<le> byte c" "byte c < 0x80" "c \<notin> {CHR 0x22, CHR 0x5C, CHR ''<'', CHR ''>'', CHR ''&''}"
  shows "escape_byte c = [c]"
proof -
  have "map_of escapes c = None"
  proof -
    have "byte CHR 0x08 = 8" "byte CHR 0x0C = 12" "byte CHR 0x0A = 10" "byte CHR 0x0D = 13" "byte CHR 0x09 = 9"
      by (simp_all add: byte_def)
    with assms(1) have "c \<noteq> CHR 0x08" "c \<noteq> CHR 0x0C" "c \<noteq> CHR 0x0A" "c \<noteq> CHR 0x0D" "c \<noteq> CHR 0x09" by auto
    with assms(3) show ?thesis by (simp add: escapes_def)
  qed
  with assms show ?thesis by (auto simp: escape_byte_def)
qed

lemma quote_plain: "plain_text s \<Longrightarrow> quote_chars s = s"
  by (induction s) (auto simp: plain_text_def plain_char)

lemma parse_chars_plain: "plain_text s \<Longrightarrow> parse_chars (s @ CHR 0x22 # r) = Some (s, r)"
  by (induction s) (simp_all add: plain_text_def)

lemma digit_is_digit: "d < 10 \<Longrightarrow> is_digit (digit d)"
  by simp

lemma digit_zero: "digit 0 = CHR ''0''"
  by code_simp

lemma dec_digits: "\<forall>c \<in> set (dec n). is_digit c"
proof (induction n rule: dec.induct)
  case (1 n)
  then show ?case by (subst dec.simps) auto
qed

lemma dec_zero: "hd (dec n) = CHR ''0'' \<Longrightarrow> n = 0"
proof (induction n rule: dec.induct)
  case (1 n)
  show ?case
  proof (cases "n < 10")
    case True
    with "1.prems" have "digit n = CHR ''0''" by (simp add: dec.simps)
    then have "(of_char (digit n) :: nat) = 48" by simp
    with True show ?thesis by (simp add: digit_def)
  next
    case False
    then have "hd (dec n) = hd (dec (n div 10))" by (simp add: dec.simps [of n])
    with 1 False have "n div 10 = 0" by simp
    with False show ?thesis by simp
  qed
qed

definition number_ends :: "string \<Rightarrow> bool" where
  "number_ends r \<longleftrightarrow> (case r of [] \<Rightarrow> True | c # _ \<Rightarrow> \<not> is_digit c \<and> c \<notin> {CHR ''.'', CHR ''e'', CHR ''E''})"

lemma takeWhile_dec:
  "number_ends r \<Longrightarrow> takeWhile is_digit (dec n @ r) = dec n \<and> dropWhile is_digit (dec n @ r) = r"
  using dec_digits [of n]
  by (cases r) (auto simp: number_ends_def takeWhile_append dropWhile_append split: if_splits)

lemma int_part_dec: "number_ends r \<Longrightarrow> int_part (dec n @ r) = Some (dec n, r)"
proof -
  assume r: "number_ends r"
  obtain c cs where d: "dec n = c # cs" by (cases "dec n") auto
  show ?thesis
  proof (cases "n = 0")
    case True
    then have "dec n = ''0''" by (simp add: dec.simps digit_zero)
    then show ?thesis by (simp add: int_part_def)
  next
    case False
    with d dec_zero [of n] have "c \<noteq> CHR ''0''" by auto
    with takeWhile_dec [OF r, of n] d show ?thesis by (simp add: int_part_def some_digits_def)
  qed
qed

lemma parse_number_Itoa: "number_ends r \<Longrightarrow> parse_number (Itoa n @ r) = Some (Itoa n, r)"
proof -
  assume r: "number_ends r"
  then have "frac_part r = Some ([], r)" "exp_part r = Some ([], r)"
    by (auto simp: number_ends_def frac_part_def exp_part_def split: list.splits)
  moreover have "expect CHR ''-'' (dec m @ r) = None" for m
    using dec_hd [of m] by (cases "dec m") auto
  ultimately show ?thesis
    using int_part_dec [OF r] by (auto simp: parse_number_def then_parse_def Itoa_def)
qed

lemma digit_char:
  "is_digit c \<Longrightarrow> \<not> is_ws c \<and>
     c \<notin> {CHR ''n'', CHR ''t'', CHR ''f'', CHR 0x22, CHR ''['', CHR '']'', CHR ''{'', CHR ''}'', CHR '','', CHR '':''}"
  by (auto simp: digit_val_def is_ws_def)

lemma Itoa_hd: "\<exists>c cs. Itoa n = c # cs \<and> (is_digit c \<or> c = CHR ''-'')"
proof -
  have "\<exists>c cs. dec m = c # cs \<and> is_digit c" for m using dec_digits [of m] by (cases "dec m") auto
  then show ?thesis unfolding Itoa_def by (metis (full_types))
qed

lemma print_json_hd:
  assumes "json_plain j"
  shows "\<exists>c cs. print_json j = c # cs \<and> \<not> is_ws c \<and> c \<noteq> CHR '']''"
proof (cases j)
  case (JNumber t)
  with assms obtain n where "t = Itoa n" by (auto split: option.splits)
  with Itoa_hd [of n] obtain c cs where "t = c # cs" "is_digit c \<or> c = CHR ''-''" by blast
  moreover have "\<not> is_ws c \<and> c \<noteq> CHR '']''" using calculation(2) digit_char [of c]
    by (cases "is_digit c") (simp_all add: is_ws_def)
  ultimately show ?thesis using JNumber by simp
qed (simp_all add: is_ws_def quote_def)

lemma number_endsI: "c \<in> {CHR '','', CHR '']'', CHR ''}''} \<Longrightarrow> number_ends (c # r)"
  by (auto simp: number_ends_def digit_val_def)

lemma parse_elems_print:
  assumes "js \<noteq> []" and "list_all json_plain js"
    and "\<And>j r n. j \<in> set js \<Longrightarrow> number_ends r \<Longrightarrow> 2 * length (print_json j @ r) + 2 \<le> n \<Longrightarrow>
      parse_value n (print_json j @ r) = Some (j, r)"
    and "2 * length (join '','' (map print_json js) @ '']'' @ r) + 3 \<le> n"
  shows "parse_elems n (join '','' (map print_json js) @ '']'' @ r) = Some (js, r)"
  using assms
proof (induction js arbitrary: n)
  case (Cons j js)
  then obtain m where n: "n = Suc m" by (cases n) auto
  show ?case
  proof (cases js)
    case Nil
    with Cons.prems(3) [of j "CHR '']'' # r" m] Cons.prems(4) n show ?thesis
      by (simp add: number_endsI is_ws_def)
  next
    case (Cons k ks)
    let ?rest = "join '','' (map print_json js) @ CHR '']'' # r"
    have "parse_value m (print_json j @ CHR '','' # ?rest) = Some (j, CHR '','' # ?rest)"
      using Cons.prems(3) [of j "CHR '','' # ?rest" m] Cons.prems(4) n Cons by (simp add: number_endsI)
    moreover have "parse_elems m ?rest = Some (js, r)"
      using Cons.IH [of m] Cons.prems Cons n by simp
    ultimately show ?thesis using n Cons by (simp add: is_ws_def)
  qed
qed simp

lemma parse_key_print:
  "plain_text k \<Longrightarrow> parse_key (quote k @ CHR '':'' # r) = Some (k, r)"
  by (simp add: parse_key_def quote_def quote_plain parse_chars_plain is_ws_def)

lemma parse_members_print:
  assumes "ms \<noteq> []" and "list_all (\<lambda>(k, j). plain_text k \<and> json_plain j) ms"
    and "\<And>k j r n. (k, j) \<in> set ms \<Longrightarrow> number_ends r \<Longrightarrow> 2 * length (print_json j @ r) + 2 \<le> n \<Longrightarrow>
      parse_value n (print_json j @ r) = Some (j, r)"
    and "2 * length (join '','' (map (\<lambda>(k, j). quote k @ '':'' @ print_json j) ms) @ ''}'' @ r) + 3 \<le> n"
  shows "parse_members n (join '','' (map (\<lambda>(k, j). quote k @ '':'' @ print_json j) ms) @ ''}'' @ r) = Some (ms, r)"
  using assms
proof (induction ms arbitrary: n)
  case (Cons x ms)
  obtain k j where x: "x = (k, j)" by fastforce
  from Cons obtain m where n: "n = Suc m" by (cases n) auto
  from Cons.prems x have k: "plain_text k" by simp
  show ?case
  proof (cases ms)
    case Nil
    with Cons.prems(3) [of k j "CHR ''}'' # r" m] Cons.prems(4) n x k show ?thesis
      by (simp add: number_endsI is_ws_def parse_key_print)
  next
    case (Cons y ys)
    let ?rest = "join '','' (map (\<lambda>(k, j). quote k @ '':'' @ print_json j) ms) @ CHR ''}'' # r"
    have "parse_value m (print_json j @ CHR '','' # ?rest) = Some (j, CHR '','' # ?rest)"
      using Cons.prems(3) [of k j "CHR '','' # ?rest" m] Cons.prems(4) n Cons x by (simp add: number_endsI)
    moreover have "parse_members m ?rest = Some (ms, r)"
    proof -
      have "2 * length ?rest + 3 \<le> m" using Cons.prems(4) n x Cons by simp
      with Cons.IH [OF _ _ Cons.prems(3) [OF list.set_intros(2)], where n = m] Cons.prems(2) Cons show ?thesis by simp
    qed
    ultimately show ?thesis using n Cons x k by (simp add: is_ws_def parse_key_print)
  qed
qed simp

lemma parse_print:
  "json_plain j \<Longrightarrow> number_ends r \<Longrightarrow> 2 * length (print_json j @ r) + 2 \<le> n \<Longrightarrow>
   parse_value n (print_json j @ r) = Some (j, r)"
proof (induction j arbitrary: n r)
  case JNull
  from JNull.prems(3) obtain m where n: "n = Suc m" by (cases n) simp_all
  then show ?case by (simp add: is_ws_def literal_def)
next
  case (JBool b)
  from JBool.prems(3) obtain m where n: "n = Suc m" by (cases n) simp_all
  then show ?case by (simp add: is_ws_def literal_def)
next
  case (JNumber t)
  from JNumber.prems(3) obtain m where n: "n = Suc m" by (cases n) simp_all
  from JNumber.prems(1) obtain w where t: "t = Itoa w" by (auto split: option.splits)
  from Itoa_hd [of w] obtain c cs where c: "Itoa w = c # cs" "is_digit c \<or> c = CHR ''-''" by blast
  have "\<not> is_ws c \<and> c \<notin> {CHR ''n'', CHR ''t'', CHR ''f'', CHR 0x22, CHR ''['', CHR ''{''}"
    using c(2) digit_char [of c] by (cases "is_digit c") (simp_all add: is_ws_def)
  moreover from parse_number_Itoa [OF JNumber.prems(2), of w] have "parse_number (c # cs @ r) = Some (c # cs, r)"
    by (simp add: c(1))
  ultimately show ?case using n by (simp add: t c(1))
next
  case (JString s)
  from JString.prems(3) obtain m where n: "n = Suc m" by (cases n) simp_all
  with JString.prems(1) show ?case by (simp add: is_ws_def quote_def quote_plain parse_chars_plain)
next
  case (JArray js)
  from JArray.prems(3) obtain m where n: "n = Suc m" by (cases n) simp_all
  show ?case
  proof (cases js)
    case Nil
    with n show ?thesis by (simp add: is_ws_def)
  next
    case (Cons k ks)
    from JArray.prems Cons have "json_plain k" by simp
    from print_json_hd [OF this] obtain c cs where c: "print_json k = c # cs" "\<not> is_ws c" "c \<noteq> CHR '']''" by blast
    obtain ds where "join '','' (map print_json js) = c # ds" using Cons c by (cases ks) simp_all
    moreover have "parse_elems m (join '','' (map print_json js) @ '']'' @ r) = Some (js, r)"
    proof (rule parse_elems_print)
      show "js \<noteq> []" using Cons by simp
      show "list_all json_plain js" using JArray.prems(1) by simp
      then show "parse_value n' (print_json j @ r') = Some (j, r')"
        if "j \<in> set js" "number_ends r'" "2 * length (print_json j @ r') + 2 \<le> n'" for j r' n'
        using JArray.IH [OF that(1)] that by (simp add: list_all_iff del: parse_value.simps)
      show "2 * length (join '','' (map print_json js) @ '']'' @ r) + 3 \<le> m" using JArray.prems(3) n by simp
    qed
    ultimately show ?thesis using n c(2,3) by (simp add: is_ws_def)
  qed
next
  case (JObject ms)
  from JObject.prems(3) obtain m where n: "n = Suc m" by (cases n) simp_all
  show ?case
  proof (cases ms)
    case Nil
    with n show ?thesis by (simp add: is_ws_def)
  next
    case (Cons x xs)
    obtain k j where x: "x = (k, j)" by fastforce
    obtain ds where "join '','' (map (\<lambda>(k, j). quote k @ '':'' @ print_json j) ms) = CHR 0x22 # ds"
      using Cons x by (cases xs) (simp_all add: quote_def)
    moreover have "parse_members m (join '','' (map (\<lambda>(k, j). quote k @ '':'' @ print_json j) ms) @ ''}'' @ r) = Some (ms, r)"
    proof (rule parse_members_print)
      show "ms \<noteq> []" using Cons by simp
      show "list_all (\<lambda>(k, j). plain_text k \<and> json_plain j) ms" using JObject.prems(1) by simp
      then show "parse_value n' (print_json j @ r') = Some (j, r')"
        if "(k, j) \<in> set ms" "number_ends r'" "2 * length (print_json j @ r') + 2 \<le> n'" for k j r' n'
        using JObject.IH [OF that(1), of j] that by (auto simp: list_all_iff simp del: parse_value.simps)
      show "2 * length (join '','' (map (\<lambda>(k, j). quote k @ '':'' @ print_json j) ms) @ ''}'' @ r) + 3 \<le> m"
        using JObject.prems(3) n by simp
    qed
    ultimately show ?thesis using n by (simp add: is_ws_def)
  qed
qed

lemma parse_json_print:
  "json_plain j \<Longrightarrow> depth j \<le> 10000 \<Longrightarrow> number_ends r \<Longrightarrow> parse_json (print_json j @ r) = Some (j, r)"
  unfolding parse_json_def by (simp only: parse_print order_refl) simp

end
