(* ===== verification/Payloads.thy ===== *)
theory Payloads
  imports Json Product_Catalog Users
begin

text \<open>
  The bodies of requests and responses: how \<open>encoding/json\<close> reads the request structs
  (\<open>order_model.go\<close>, \<open>product_model.go\<close>, \<open>user_model.go\<close>) by their field names, and how it writes the
  response structs by their tags. Parsing and printing a UUID (package \<open>google/uuid\<close>) and the offset of
  the process's time zone are parameters.
\<close>

record text_lib =
  uuid_Parse :: "string \<Rightarrow> uuid option"
  uuid_Text :: "uuid \<Rightarrow> string"
  zone_offset :: "time \<Rightarrow> int"

definition text_laws :: "text_lib \<Rightarrow> bool" where
  "text_laws T \<longleftrightarrow> (\<forall>u. uuid_Parse T (uuid_Text T u) = Some u \<and> plain_text (uuid_Text T u))"

section \<open>Reading structs\<close>

text \<open>
  A reader takes the value a field holds so far: \<open>null\<close> leaves it, and fields that are absent keep it.
  \<open>None\<close> is the error of \<open>Decode\<close>.
\<close>

type_synonym 'a reader = "'a \<Rightarrow> json \<Rightarrow> 'a option"

definition read_string :: "string reader" where
  "read_string old j = (case j of JString s \<Rightarrow> Some s | JNull \<Rightarrow> Some old | _ \<Rightarrow> None)"

definition read_int :: "goint reader" where
  "read_int old j = (case j of JNumber t \<Rightarrow> Atoi t | JNull \<Rightarrow> Some old | _ \<Rightarrow> None)"

definition read_uuid :: "text_lib \<Rightarrow> uuid reader" where
  "read_uuid T old j = (case j of JString s \<Rightarrow> uuid_Parse T s | JNull \<Rightarrow> Some old | _ \<Rightarrow> None)"

definition read_ptr :: "'a \<Rightarrow> 'a reader \<Rightarrow> 'a option reader" where
  "read_ptr zero r old j =
     (if j = JNull then Some None else map_option Some (r (case old of None \<Rightarrow> zero | Some x \<Rightarrow> x) j))"

text \<open>
  A slice with what its array holds beyond its length: a later array in the same text is decoded into
  the elements that are there already.
\<close>

fun read_elems :: "'a \<Rightarrow> 'a reader \<Rightarrow> 'a list \<Rightarrow> json list \<Rightarrow> 'a list option" where
  "read_elems zero r old [] = Some []"
| "read_elems zero r old (j # js) =
     (case (r (case old of [] \<Rightarrow> zero | x # _ \<Rightarrow> x) j, read_elems zero r (tl old) js) of
        (Some x, Some xs) \<Rightarrow> Some (x # xs)
      | _ \<Rightarrow> None)"

definition read_slice :: "'a \<Rightarrow> 'a reader \<Rightarrow> ('a list \<times> 'a list) reader" where
  "read_slice zero r old j =
     (case j of
        JNull \<Rightarrow> Some ([], [])
      | JArray js \<Rightarrow>
          if js = [] then Some ([], [])
          else map_option (\<lambda>xs. (xs, drop (length xs) (fst old @ snd old)))
                 (read_elems zero r (fst old @ snd old) js)
      | _ \<Rightarrow> None)"

text \<open>
  A member sets the field of its exact name, else the one whose name is equal up to case; the runes
  whose simple folding is an ASCII letter are U+017F and U+212A.
\<close>

definition to_upper :: "char \<Rightarrow> char" where
  "to_upper c = (if 97 \<le> byte c \<and> byte c \<le> 122 then char_of (byte c - 32) else c)"

function fold_name :: "string \<Rightarrow> string" where
  "fold_name [] = []"
| "fold_name (c # cs) =
     (if take 2 (c # cs) = bytes [0xC5, 0xBF] then CHR ''S'' # fold_name (drop 1 cs)
      else if take 3 (c # cs) = bytes [0xE2, 0x84, 0xAA] then CHR ''K'' # fold_name (drop 2 cs)
      else to_upper c # fold_name cs)"
  by pat_completeness auto
termination by (relation "measure length") auto

definition find_field :: "(string \<times> 'r) list \<Rightarrow> string \<Rightarrow> 'r option" where
  "find_field fs k =
     (case map_of fs k of Some r \<Rightarrow> Some r | None \<Rightarrow> map_of (map (apfst fold_name) fs) (fold_name k))"

fun read_members :: "(string \<times> 'a reader) list \<Rightarrow> 'a \<Rightarrow> (string \<times> json) list \<Rightarrow> 'a option" where
  "read_members fs a [] = Some a"
| "read_members fs a ((k, j) # ms) =
     (case find_field fs k of
        None \<Rightarrow> read_members fs a ms
      | Some r \<Rightarrow> (case r a j of None \<Rightarrow> None | Some a' \<Rightarrow> read_members fs a' ms))"

definition read_struct :: "(string \<times> 'a reader) list \<Rightarrow> 'a reader" where
  "read_struct fs a j =
     (case j of JNull \<Rightarrow> Some a | JObject ms \<Rightarrow> read_members fs a ms | _ \<Rightarrow> None)"

definition into :: "('a \<Rightarrow> 'f) \<Rightarrow> (('f \<Rightarrow> 'f) \<Rightarrow> 'a \<Rightarrow> 'a) \<Rightarrow> 'f reader \<Rightarrow> 'a reader" where
  "into get upd r a j = map_option (\<lambda>f. upd (\<lambda>_. f) a) (r (get a) j)"

text \<open>
  A body: its bytes, and whether reading it ends in an error instead of its end.
  \<open>json.NewDecoder(body).Decode(&v)\<close> reads one value and ignores what follows; it sees the error only
  when the value is not complete without what would come next.
\<close>

record body =
  bd_bytes :: string
  bd_fails :: bool

definition closed_value :: "json \<Rightarrow> bool" where
  "closed_value j \<longleftrightarrow> (case j of JArray _ \<Rightarrow> True | JObject _ \<Rightarrow> True | _ \<Rightarrow> False)"

definition Decode :: "'a reader \<Rightarrow> 'a \<Rightarrow> body \<Rightarrow> 'a option" where
  "Decode r zero b =
     (case parse_json (bd_bytes b) of
        None \<Rightarrow> None
      | Some (j, rest) \<Rightarrow> if bd_fails b \<and> rest = [] \<and> \<not> closed_value j then None else r zero j)"

section \<open>The requests\<close>

definition read_CreateOrderItemRequest :: "text_lib \<Rightarrow> CreateOrderItemRequest reader" where
  "read_CreateOrderItemRequest T = read_struct
     [(''product_id'', into req_ProductID req_ProductID_update (read_uuid T)),
      (''quantity'', into req_Quantity req_Quantity_update read_int)]"

definition no_item :: CreateOrderItemRequest where
  "no_item = \<lparr>req_ProductID = 0, req_Quantity = 0\<rparr>"

text \<open>\<open>CreateOrderRequest\<close> has the field \<open>Items\<close> only, and is modelled by it.\<close>

definition decode_CreateOrderRequest :: "text_lib \<Rightarrow> body \<Rightarrow> CreateOrderItemRequest list option" where
  "decode_CreateOrderRequest T b =
     map_option fst (Decode (read_struct [(''items'', read_slice no_item (read_CreateOrderItemRequest T))]) ([], []) b)"

definition decode_CreateProductRequest :: "body \<Rightarrow> CreateProductRequest option" where
  "decode_CreateProductRequest = Decode (read_struct
     [(''name'', into cp_Name cp_Name_update read_string),
      (''description'', into cp_Description cp_Description_update read_string),
      (''price'', into cp_Price cp_Price_update read_int),
      (''stock'', into cp_Stock cp_Stock_update read_int)])
     \<lparr>cp_Name = [], cp_Description = [], cp_Price = 0, cp_Stock = 0\<rparr>"

definition decode_UpdateProductRequest :: "body \<Rightarrow> UpdateProductRequest option" where
  "decode_UpdateProductRequest = Decode (read_struct
     [(''name'', into up_Name up_Name_update (read_ptr [] read_string)),
      (''description'', into up_Description up_Description_update (read_ptr [] read_string)),
      (''price'', into up_Price up_Price_update (read_ptr 0 read_int)),
      (''stock'', into up_Stock up_Stock_update (read_ptr 0 read_int))])
     \<lparr>up_Name = None, up_Description = None, up_Price = None, up_Stock = None\<rparr>"

definition decode_RegisterRequest :: "body \<Rightarrow> RegisterRequest option" where
  "decode_RegisterRequest = Decode (read_struct
     [(''email'', into rr_Email rr_Email_update read_string),
      (''password'', into rr_Password rr_Password_update read_string)])
     \<lparr>rr_Email = [], rr_Password = []\<rparr>"

definition decode_LoginRequest :: "body \<Rightarrow> LoginRequest option" where
  "decode_LoginRequest = Decode (read_struct
     [(''email'', into lr_Email lr_Email_update read_string),
      (''password'', into lr_Password lr_Password_update read_string)])
     \<lparr>lr_Email = [], lr_Password = []\<rparr>"

section \<open>Times\<close>

text \<open>The civil date of a day counted from 1970-01-01.\<close>

definition civil :: "int \<Rightarrow> int \<times> int \<times> int" where
  "civil day =
     (let z = day + 719468; era = z div 146097; doe = z mod 146097;
          yoe = (doe - doe div 1460 + doe div 36524 - doe div 146096) div 365;
          doy = doe - (365 * yoe + yoe div 4 - yoe div 100);
          mp = (5 * doy + 2) div 153;
          d = doy - (153 * mp + 2) div 5 + 1;
          m = (if mp < 10 then mp + 3 else mp - 9)
      in (yoe + era * 400 + (if m \<le> 2 then 1 else 0), m, d))"

definition pad :: "nat \<Rightarrow> int \<Rightarrow> string" where
  "pad w n = (let s = dec (nat n) in replicate (w - length s) CHR ''0'' @ s)"

definition fraction :: "int \<Rightarrow> string" where
  "fraction us = (if us = 0 then [] else CHR ''.'' # rev (dropWhile (\<lambda>c. c = CHR ''0'') (rev (pad 6 us))))"

definition zone_text :: "int \<Rightarrow> string" where
  "zone_text off =
     (if off = 0 then ''Z''
      else let minutes = \<bar>off\<bar> div 60 in
        (if off \<le> - 60 then ''-'' else ''+'') @ pad 2 (minutes div 60) @ '':'' @ pad 2 (minutes mod 60))"

text \<open>\<open>Time.MarshalJSON\<close>: RFC 3339 in the local zone, an error for years and offsets it cannot write.\<close>

definition time_text :: "text_lib \<Rightarrow> time \<Rightarrow> string option" where
  "time_text T t =
     (let off = zone_offset T t; l = t + off * 1000000; us = l mod 86400000000;
          (y, m, d) = civil (l div 86400000000) in
      if y < 0 \<or> 9999 < y \<or> 24 * 3600 \<le> \<bar>off\<bar> then None
      else Some (pad 4 y @ ''-'' @ pad 2 m @ ''-'' @ pad 2 d @ ''T'' @
        pad 2 (us div 3600000000) @ '':'' @ pad 2 (us div 60000000 mod 60) @ '':'' @
        pad 2 (us div 1000000 mod 60) @ fraction (us mod 1000000) @ zone_text off))"

section \<open>Writing structs\<close>

text \<open>\<open>None\<close> is an error of \<open>Marshal\<close>.\<close>

fun write_fields :: "(string \<times> json option) list \<Rightarrow> (string \<times> json) list option" where
  "write_fields [] = Some []"
| "write_fields ((k, v) # fs) =
     (case (v, write_fields fs) of (Some j, Some ms) \<Rightarrow> Some ((k, j) # ms) | _ \<Rightarrow> None)"

definition write_struct :: "(string \<times> json option) list \<Rightarrow> json option" where
  "write_struct fs = map_option JObject (write_fields fs)"

definition write_list :: "('a \<Rightarrow> json option) \<Rightarrow> 'a list \<Rightarrow> json option" where
  "write_list f xs = map_option JArray (those (map f xs))"

definition write_string :: "string \<Rightarrow> json option" where
  "write_string s = Some (JString s)"

definition write_int :: "goint \<Rightarrow> json option" where
  "write_int n = Some (JNumber (Itoa n))"

definition write_uuid :: "text_lib \<Rightarrow> uuid \<Rightarrow> json option" where
  "write_uuid T u = Some (JString (uuid_Text T u))"

definition write_time :: "text_lib \<Rightarrow> time \<Rightarrow> json option" where
  "write_time T t = map_option JString (time_text T t)"

definition write_Order :: "text_lib \<Rightarrow> Order \<Rightarrow> json option" where
  "write_Order T x = write_struct
     [(''id'', write_uuid T (Order_ID x)), (''user_id'', write_uuid T (Order_UserID x)),
      (''status'', write_string (Order_Status x)), (''total_amount'', write_int (Order_TotalAmount x)),
      (''created_at'', write_time T (Order_CreatedAt x)), (''updated_at'', write_time T (Order_UpdatedAt x))]"

definition write_OrderItem :: "text_lib \<Rightarrow> OrderItem \<Rightarrow> json option" where
  "write_OrderItem T x = write_struct
     [(''id'', write_uuid T (OrderItem_ID x)), (''order_id'', write_uuid T (OrderItem_OrderID x)),
      (''product_id'', write_uuid T (OrderItem_ProductID x)), (''quantity'', write_int (OrderItem_Quantity x)),
      (''price'', write_int (OrderItem_Price x)), (''subtotal'', write_int (OrderItem_SubTotal x)),
      (''created_at'', write_time T (OrderItem_CreatedAt x)), (''updated_at'', write_time T (OrderItem_UpdatedAt x))]"

text \<open>\<open>transaction_id,omitempty\<close> on a pointer: left out when nil.\<close>

definition write_Payment :: "text_lib \<Rightarrow> Payment \<Rightarrow> json option" where
  "write_Payment T x = write_struct
     ([(''id'', write_uuid T (Payment_ID x)), (''order_id'', write_uuid T (Payment_OrderID x)),
       (''amount'', write_int (Payment_Amount x)), (''status'', write_string (Payment_Status x))] @
      (case Payment_TransactionID x of None \<Rightarrow> [] | Some s \<Rightarrow> [(''transaction_id'', write_string s)]) @
      [(''provider'', write_string (Payment_Provider x)),
       (''created_at'', write_time T (Payment_CreatedAt x)), (''updated_at'', write_time T (Payment_UpdatedAt x))])"

definition write_Product :: "text_lib \<Rightarrow> Product \<Rightarrow> json option" where
  "write_Product T x = write_struct
     [(''id'', write_uuid T (Product_ID x)), (''name'', write_string (Product_Name x)),
      (''description'', write_string (Product_Description x)), (''price'', write_int (Product_Price x)),
      (''stock'', write_int (Product_Stock x)),
      (''created_at'', write_time T (Product_CreatedAt x)), (''updated_at'', write_time T (Product_UpdatedAt x))]"

text \<open>The password hash has the tag \<open>json:"-"\<close> and is never written.\<close>

definition write_User :: "text_lib \<Rightarrow> User \<Rightarrow> json option" where
  "write_User T x = write_struct
     [(''id'', write_uuid T (User_ID x)), (''email'', write_string (User_Email x)),
      (''created_at'', write_time T (User_CreatedAt x)), (''updated_at'', write_time T (User_UpdatedAt x))]"

definition write_CreateOrderResponse :: "text_lib \<Rightarrow> Order \<times> OrderItem list \<times> Payment \<Rightarrow> json option" where
  "write_CreateOrderResponse T = (\<lambda>(order, items, payment). write_struct
     [(''order'', write_Order T order), (''items'', write_list (write_OrderItem T) items),
      (''payment'', write_Payment T payment)])"

definition write_PayResponse :: "text_lib \<Rightarrow> Payment \<times> Order \<Rightarrow> json option" where
  "write_PayResponse T = (\<lambda>(payment, order). write_struct
     [(''payment'', write_Payment T payment), (''order'', write_Order T order)])"

section \<open>What clients send is what the handlers read\<close>

definition item_json :: "text_lib \<Rightarrow> CreateOrderItemRequest \<Rightarrow> json" where
  "item_json T it = JObject [(''product_id'', JString (uuid_Text T (req_ProductID it))),
     (''quantity'', JNumber (Itoa (req_Quantity it)))]"

definition order_json :: "text_lib \<Rightarrow> CreateOrderItemRequest list \<Rightarrow> json" where
  "order_json T items = JObject [(''items'', JArray (map (item_json T) items))]"

lemma Atoi_Itoa_id: "Atoi (Itoa n) = Some n"
proof -
  have "in_range (sint n) = Some n" using sint_range_size [of n] by (simp add: in_range_def word_size)
  then show ?thesis by (simp add: Itoa_def Atoi_dec Atoi_minus_dec)
qed

lemma plain_names:
  "plain_text ''items''" "plain_text ''product_id''" "plain_text ''quantity''"
  by code_simp+

lemma order_json_plain: "text_laws T \<Longrightarrow> json_plain (order_json T items) \<and> depth (order_json T items) \<le> 3"
proof -
  assume T: "text_laws T"
  have "foldr max (map (\<lambda>it. depth (item_json T it)) items) 0 \<le> 1"
    by (induction items) (simp_all add: item_json_def)
  with T show ?thesis
    by (simp add: order_json_def plain_names text_laws_def list_all_iff comp_def)
      (simp add: item_json_def plain_names Atoi_Itoa_id)
qed

lemma read_item: "text_laws T \<Longrightarrow> read_CreateOrderItemRequest T old (item_json T it) = Some it"
  by (simp add: read_CreateOrderItemRequest_def item_json_def read_struct_def find_field_def into_def
      read_uuid_def read_int_def text_laws_def Atoi_Itoa_id)

lemma read_items: "text_laws T \<Longrightarrow>
  read_elems no_item (read_CreateOrderItemRequest T) old (map (item_json T) items) = Some items"
  by (induction items arbitrary: old) (simp_all add: read_item)

lemma decode_order_json:
  assumes "text_laws T" and "number_ends rest"
  shows "decode_CreateOrderRequest T \<lparr>bd_bytes = print_json (order_json T items) @ rest, bd_fails = f\<rparr> = Some items"
proof -
  note plain = order_json_plain [OF assms(1), of items]
  have "parse_json (print_json (order_json T items) @ rest) = Some (order_json T items, rest)"
    by (rule parse_json_print) (use plain assms(2) in auto)
  then show ?thesis
    using read_items [OF assms(1), of "[]" items]
    by (simp add: decode_CreateOrderRequest_def Decode_def closed_value_def)
      (simp add: order_json_def closed_value_def read_struct_def find_field_def read_slice_def)
qed

section \<open>A sample library\<close>

text \<open>Identifiers in decimal, in the zone of UTC.\<close>

definition sample_text :: text_lib where
  "sample_text = \<lparr>uuid_Parse = (\<lambda>s. map_option word_of_nat (parse_decimal s)), uuid_Text = (\<lambda>u. dec (unat u)),
     zone_offset = (\<lambda>t. 0)\<rparr>"

lemma dec_chars: "c \<in> set (dec n) \<Longrightarrow> \<exists>d<10. c = digit d"
proof (induction n rule: dec.induct)
  case (1 n)
  have "n mod 10 < 10" by simp
  with 1 show ?case by (cases "n < 10") (auto simp: dec.simps [of n] simp del: mod_less_divisor)
qed

lemma digit_plain_text: "d < 10 \<Longrightarrow> plain_text [digit d]"
proof -
  assume d: "d < 10"
  have "list_all (\<lambda>d. plain_text [digit d]) [0, 1, 2, 3, 4, 5, 6, 7, 8, 9]" by code_simp
  moreover from d have "d \<in> set [0, 1, 2, 3, 4, 5, 6, 7, 8, 9]" by auto
  ultimately show ?thesis unfolding list_all_iff by blast
qed

lemma sample_text_laws: "text_laws sample_text"
proof -
  have "plain_text (dec n)" for n
    using dec_chars [of _ n] digit_plain_text by (fastforce simp: plain_text_def)
  then show ?thesis by (simp add: text_laws_def sample_text_def)
qed

section \<open>Properties\<close>

text \<open>
  C37. The JSON text of an order request is read as that request, item by item and in order, however
  the request ends: nothing of a quantity or a product id is lost or changed on the way.
\<close>

theorem decode_order_request:
  assumes "text_laws T" and "number_ends rest"
  shows "decode_CreateOrderRequest T \<lparr>bd_bytes = print_json (order_json T items) @ rest, bd_fails = f\<rparr> = Some items"
  using assms by (rule decode_order_json)

theorem decode_order_request_witness:
  "decode_CreateOrderRequest sample_text
     \<lparr>bd_bytes = print_json (order_json sample_text [\<lparr>req_ProductID = 20, req_Quantity = -1\<rparr>]), bd_fails = True\<rparr> =
   Some [\<lparr>req_ProductID = 20, req_Quantity = -1\<rparr>]"
  using decode_order_request [OF sample_text_laws, of "[]" "[\<lparr>req_ProductID = 20, req_Quantity = -1\<rparr>]" True]
  by (simp add: number_ends_def)

end
