(* ===== verification/Sha256.thy ===== *)
theory Sha256
  imports Text
begin

text \<open>
  \<open>crypto/sha256\<close> (FIPS 180-4) and \<open>hex.EncodeToString\<close>, with which the idempotency middleware
  fingerprints the body of a request.
\<close>

unbundle bit_operations_syntax

type_synonym w32 = "32 word"

text \<open>
  The constants are the first 32 bits of the fractional parts of the cube roots of the first 64 primes,
  and of the square roots of the first 8. \<open>root_bits k n b r\<close> is the integer \<open>k\<close>-th root of \<open>n\<close>,
  found bit by bit from the bits \<open>r\<close> known so far.
\<close>

fun root_bits :: "nat \<Rightarrow> nat \<Rightarrow> nat \<Rightarrow> nat \<Rightarrow> nat" where
  "root_bits k n 0 r = r"
| "root_bits k n (Suc b) r = root_bits k n b (if (r + 2 ^ b) ^ k \<le> n then r + 2 ^ b else r)"

definition root_fraction :: "nat \<Rightarrow> nat \<Rightarrow> w32" where
  "root_fraction k p = word_of_nat (root_bits k (p * 2 ^ (32 * k)) 37 0)"

fun next_prime :: "nat \<Rightarrow> nat \<Rightarrow> nat" where
  "next_prime 0 p = p"
| "next_prime (Suc fuel) p = (if list_ex (\<lambda>d. p mod d = 0) [2..<p] then next_prime fuel (p + 1) else p)"

text \<open>Between two of these primes there are at most 14.\<close>

fun primes_from :: "nat \<Rightarrow> nat \<Rightarrow> nat list" where
  "primes_from p 0 = []"
| "primes_from p (Suc n) = next_prime 14 p # primes_from (next_prime 14 p + 1) n"

definition round_constants :: "w32 list" where
  "round_constants = map (root_fraction 3) (primes_from 2 64)"

definition initial_hash :: "w32 list" where
  "initial_hash = map (root_fraction 2) (primes_from 2 8)"

text \<open>The message is padded to blocks of 64 bytes that end with its length in bits.\<close>

definition be_bytes :: "nat \<Rightarrow> nat \<Rightarrow> nat list" where
  "be_bytes k n = map (\<lambda>i. n div 256 ^ (k - 1 - i) mod 256) [0..<k]"

definition pad_message :: "nat list \<Rightarrow> nat list" where
  "pad_message bs = bs @ 0x80 # replicate ((119 - length bs mod 64) mod 64) 0 @ be_bytes 8 (8 * length bs)"

fun be_words :: "nat list \<Rightarrow> w32 list" where
  "be_words (a # b # c # d # r) = word_of_nat (((a * 256 + b) * 256 + c) * 256 + d) # be_words r"
| "be_words _ = []"

fun blocks :: "w32 list \<Rightarrow> nat \<Rightarrow> w32 list list" where
  "blocks ws 0 = []"
| "blocks ws (Suc n) = take 16 ws # blocks (drop 16 ws) n"

text \<open>The message schedule, newest word first.\<close>

definition schedule_next :: "w32 list \<Rightarrow> w32" where
  "schedule_next ws =
     (let a = ws ! 1; b = ws ! 14;
          s1 = word_rotr 17 a XOR word_rotr 19 a XOR drop_bit 10 a;
          s0 = word_rotr 7 b XOR word_rotr 18 b XOR drop_bit 3 b
      in s1 + ws ! 6 + s0 + ws ! 15)"

definition schedule :: "w32 list \<Rightarrow> w32 list" where
  "schedule block = rev (((\<lambda>ws. schedule_next ws # ws) ^^ 48) (rev block))"

fun sha_round :: "w32 \<times> w32 \<Rightarrow> w32 list \<Rightarrow> w32 list" where
  "sha_round (k, w) [a, b, c, d, e, f, g, h] =
     (let s1 = word_rotr 6 e XOR word_rotr 11 e XOR word_rotr 25 e;
          ch = (e AND f) XOR (NOT e AND g);
          t1 = h + s1 + ch + k + w;
          s0 = word_rotr 2 a XOR word_rotr 13 a XOR word_rotr 22 a;
          maj = (a AND b) XOR (a AND c) XOR (b AND c)
      in [t1 + s0 + maj, a, b, c, d + t1, e, f, g])"
| "sha_round _ hs = hs"

definition sha_block :: "w32 list \<Rightarrow> w32 list \<Rightarrow> w32 list" where
  "sha_block block hs = map2 (+) hs (fold sha_round (zip round_constants (schedule block)) hs)"

definition Sum256 :: "string \<Rightarrow> nat list" where
  "Sum256 s =
     (let m = pad_message (map of_char s) in
      concat (map (\<lambda>w. be_bytes 4 (unat w)) (fold sha_block (blocks (be_words m) (length m div 64)) initial_hash)))"

definition EncodeToString :: "nat list \<Rightarrow> string" where
  "EncodeToString bs = concat (map (\<lambda>b. map (\<lambda>d. char_of (if d < 10 then 48 + d else 87 + d)) [b div 16, b mod 16]) bs)"

section \<open>Its shape\<close>

lemma length_sha_round [simp]: "length (sha_round kw hs) = length hs"
  by (induction kw hs rule: sha_round.induct) (simp_all add: Let_def)

lemma length_sha_rounds: "length (fold sha_round kws hs) = length hs"
  by (induction kws arbitrary: hs) simp_all

lemma length_sha_blocks: "length (fold sha_block bs hs) = length hs"
  by (induction bs arbitrary: hs) (simp_all add: sha_block_def length_sha_rounds)

lemma length_primes_from [simp]: "length (primes_from p n) = n"
  by (induction n arbitrary: p) simp_all

lemma length_EncodeToString: "length (EncodeToString bs) = 2 * length bs"
  by (induction bs) (simp_all add: EncodeToString_def)

lemma length_Sum256: "length (Sum256 s) = 32"
proof -
  have "length (concat (map (\<lambda>w. be_bytes 4 (unat w)) ws)) = 4 * length ws" for ws :: "w32 list"
    by (induction ws) (simp_all add: be_bytes_def)
  then show ?thesis by (simp add: Sum256_def Let_def length_sha_blocks initial_hash_def)
qed

end
