(* ===== verification/Rate_Limiter.thy ===== *)
theory Rate_Limiter
  imports Database
begin

text \<open>
  The login rate limiter (\<open>ratelimit/rate_limiter.go\<close>): a counter of failed logins per client in
  Redis. The limiter is written against the commands it calls, a record of operations whose contract
  is the locale \<open>counter_store\<close>; the documented behaviour of these commands of Redis is the model
  that provides them.
\<close>

section \<open>The limiter\<close>

datatype redis_error = RedisNil | RedisError string

type_synonym ('s, 'a) redis_op = "('s, redis_error, 'a) op"

text \<open>\<open>Get(..).Int64()\<close>, \<open>SetArgs\<close> with \<open>NX\<close> and a time to live, \<open>Incr\<close> and \<open>Del\<close>.\<close>

record 's redis_client =
  rdb_Get :: "string \<Rightarrow> ('s, int64) redis_op"
  rdb_SetNX :: "string \<Rightarrow> int64 \<Rightarrow> time \<Rightarrow> ('s, unit) redis_op"
  rdb_Incr :: "string \<Rightarrow> ('s, int64) redis_op"
  rdb_Del :: "string \<Rightarrow> ('s, int64) redis_op"

record 's RateLimiter =
  rl_rdb :: "'s redis_client"
  rl_limit :: goint
  rl_window :: time

definition keyPrefix :: string where
  "keyPrefix = ''rate_limit:''"

definition LoginKey :: "string \<Rightarrow> string" where
  "LoginKey ip = ''login:ip:'' @ ip"

definition Allow :: "'s RateLimiter \<Rightarrow> string \<Rightarrow> ('s, bool) redis_op" where
  "Allow rl key s =
     (case rdb_Get (rl_rdb rl) (keyPrefix @ key) s of
        (Inl RedisNil, s1) \<Rightarrow> (Inr True, s1)
      | (Inl (RedisError e), s1) \<Rightarrow> (Inl (RedisError e), s1)
      | (Inr n, s1) \<Rightarrow> (Inr (n <s rl_limit rl), s1))"

definition RecordFailure :: "'s RateLimiter \<Rightarrow> string \<Rightarrow> ('s, int64) redis_op" where
  "RecordFailure rl key s =
     (let fullKey = keyPrefix @ key in
      case rdb_SetNX (rl_rdb rl) fullKey 0 (rl_window rl) s of
        (Inl (RedisError e), s1) \<Rightarrow> (Inl (RedisError e), s1)
      | (_, s1) \<Rightarrow> rdb_Incr (rl_rdb rl) fullKey s1)"

definition Reset :: "'s RateLimiter \<Rightarrow> string \<Rightarrow> ('s, unit) redis_op" where
  "Reset rl key = map_ok (\<lambda>_. ()) (rdb_Del (rl_rdb rl) (keyPrefix @ key))"

section \<open>The contract\<close>

text \<open>
  A counter with the time it expires at, if any. \<open>view s\<close> is the store, \<open>now s\<close> the time of the next
  command; an expired entry is as good as absent.
\<close>

record counter =
  cn_value :: int64
  cn_expires :: "time option"

definition alive :: "time \<Rightarrow> counter \<Rightarrow> bool" where
  "alive t c \<longleftrightarrow> (case cn_expires c of None \<Rightarrow> True | Some e \<Rightarrow> t < e)"

definition at_time :: "time \<Rightarrow> (string \<Rightarrow> counter option) \<Rightarrow> string \<Rightarrow> counter option" where
  "at_time t m k = (case m k of None \<Rightarrow> None | Some c \<Rightarrow> if alive t c then Some c else None)"

definition set_nx :: "time \<Rightarrow> int64 \<Rightarrow> time \<Rightarrow> counter option \<Rightarrow> counter" where
  "set_nx t v ttl c =
     (case c of None \<Rightarrow> \<lparr>cn_value = v, cn_expires = if 0 < ttl then Some (t + ttl) else None\<rparr> | Some c \<Rightarrow> c)"

text \<open>\<open>INCR\<close> of an absent key makes one that never expires.\<close>

definition incr :: "counter option \<Rightarrow> counter" where
  "incr c = (case c of None \<Rightarrow> \<lparr>cn_value = 1, cn_expires = None\<rparr> | Some c \<Rightarrow> c\<lparr>cn_value := cn_value c + 1\<rparr>)"

definition at_max :: "counter option \<Rightarrow> bool" where
  "at_max c \<longleftrightarrow> (case c of None \<Rightarrow> False | Some c \<Rightarrow> sint (cn_value c) = 2 ^ 63 - 1)"

locale counter_store =
  fixes rc :: "'s redis_client"
    and view :: "'s \<Rightarrow> string \<Rightarrow> counter option"
    and now :: "'s \<Rightarrow> time"
    and up :: "'s \<Rightarrow> bool"
  assumes get: "up s \<Longrightarrow> rdb_Get rc k s = (r, s') \<Longrightarrow> up s' \<and> now s \<le> now s' \<and> view s' = view s \<and>
      r = (case at_time (now s) (view s) k of None \<Rightarrow> Inl RedisNil | Some c \<Rightarrow> Inr (cn_value c))"
    and setnx: "up s \<Longrightarrow> rdb_SetNX rc k v ttl s = (q, s') \<Longrightarrow> up s' \<and> now s \<le> now s' \<and>
      view s' = (view s)(k \<mapsto> set_nx (now s) v ttl (at_time (now s) (view s) k)) \<and>
      q = (if at_time (now s) (view s) k = None then Inr () else Inl RedisNil)"
    and incr_law: "up s \<Longrightarrow> rdb_Incr rc k s = (r, s') \<Longrightarrow> up s' \<and> now s \<le> now s' \<and>
      (if at_max (at_time (now s) (view s) k)
       then (\<exists>e. r = Inl (RedisError e)) \<and> view s' = view s
       else r = Inr (cn_value (incr (at_time (now s) (view s) k))) \<and>
            view s' = (view s)(k \<mapsto> incr (at_time (now s) (view s) k)))"
    and del: "up s \<Longrightarrow> rdb_Del rc k s = (r, s') \<Longrightarrow> up s' \<and> now s \<le> now s' \<and>
      \<not> isl r \<and> view s' = (view s)(k := None)"
begin

lemma allow:
  assumes "up s" "rl_rdb rl = rc" "Allow rl key s = (r, s')"
  shows "up s' \<and> now s \<le> now s' \<and> view s' = view s \<and>
    r = Inr (case at_time (now s) (view s) (keyPrefix @ key) of
               None \<Rightarrow> True | Some c \<Rightarrow> cn_value c <s rl_limit rl)"
proof -
  obtain g s1 where g: "rdb_Get rc (keyPrefix @ key) s = (g, s1)" by fastforce
  from get [OF assms(1) g] assms(2,3) g show ?thesis
    by (auto simp: Allow_def split: option.splits)
qed

lemma record_failure:
  assumes "up s" "rl_rdb rl = rc" "RecordFailure rl key s = (r, s')"
  defines "k \<equiv> keyPrefix @ key"
  shows "up s' \<and> (\<exists>t. now s \<le> t \<and> t \<le> now s' \<and>
    (let c = set_nx (now s) 0 (rl_window rl) (at_time (now s) (view s) k);
         c' = (if alive t c then Some c else None) in
     if at_max c' then isl r
     else r = Inr (cn_value (incr c')) \<and> view s' = (view s)(k \<mapsto> incr c')))"
proof -
  obtain q s1 where q: "rdb_SetNX rc k 0 (rl_window rl) s = (q, s1)" by fastforce
  note set = setnx [OF assms(1) q]
  have "rdb_Incr rc k s1 = (r, s')"
    using set assms(2,3) q by (auto simp: RecordFailure_def k_def Let_def split: if_splits)
  from incr_law [OF _ this] set have inc: "up s'" "now s1 \<le> now s'"
    "if at_max (at_time (now s1) (view s1) k) then (\<exists>e. r = Inl (RedisError e)) \<and> view s' = view s1
       else r = Inr (cn_value (incr (at_time (now s1) (view s1) k))) \<and>
            view s' = (view s1)(k \<mapsto> incr (at_time (now s1) (view s1) k))"
    by auto
  let ?c = "set_nx (now s) 0 (rl_window rl) (at_time (now s) (view s) k)"
  have "at_time (now s1) (view s1) k = (if alive (now s1) ?c then Some ?c else None)"
    using set by (simp add: at_time_def)
  with inc set show ?thesis
    by (intro conjI exI [of _ "now s1"]) (auto simp: Let_def split: if_splits)
qed

lemma reset:
  assumes "up s" "rl_rdb rl = rc" "Reset rl key s = (r, s')"
  shows "up s' \<and> now s \<le> now s' \<and> r = Inr () \<and> view s' = (view s)(keyPrefix @ key := None)"
proof -
  obtain d s1 where d: "rdb_Del rc (keyPrefix @ key) s = (d, s1)" by fastforce
  from del [OF assms(1) d] assms(2,3) d show ?thesis
    by (cases d) (auto simp: Reset_def map_ok_def and_then_def ret_def)
qed

text \<open>The counter \<open>RecordFailure\<close> increments, and what it is after \<open>k\<close> failures in its window.\<close>

definition pending_counter :: "'s RateLimiter \<Rightarrow> string \<Rightarrow> 's \<Rightarrow> counter" where
  "pending_counter rl key s = set_nx (now s) 0 (rl_window rl) (at_time (now s) (view s) (keyPrefix @ key))"

lemma record_once:
  assumes "up s" "rl_rdb rl = rc" "pending_counter rl key s = \<lparr>cn_value = v, cn_expires = Some e\<rparr>"
    and "sint v < 2 ^ 63 - 1" and "now (snd (RecordFailure rl key s)) < e"
  shows "let s' = snd (RecordFailure rl key s) in up s' \<and> now s \<le> now s' \<and>
    at_time (now s') (view s') (keyPrefix @ key) = Some \<lparr>cn_value = v + 1, cn_expires = Some e\<rparr> \<and>
    pending_counter rl key s' = \<lparr>cn_value = v + 1, cn_expires = Some e\<rparr>"
proof -
  note run = prod.collapse [symmetric, of "RecordFailure rl key s"]
  from record_failure [OF assms(1,2) run] obtain t where
    t: "up (snd (RecordFailure rl key s))" "now s \<le> t" "t \<le> now (snd (RecordFailure rl key s))"
    and c: "let c' = (if alive t (pending_counter rl key s) then Some (pending_counter rl key s) else None) in
      if at_max c' then isl (fst (RecordFailure rl key s))
      else fst (RecordFailure rl key s) = Inr (cn_value (incr c')) \<and>
        view (snd (RecordFailure rl key s)) = (view s)(keyPrefix @ key \<mapsto> incr c')"
    by (auto simp: pending_counter_def Let_def)
  have "alive t (pending_counter rl key s)" using t assms(3,5) by (simp add: alive_def)
  with c assms(3,4) have "view (snd (RecordFailure rl key s)) =
      (view s)(keyPrefix @ key \<mapsto> \<lparr>cn_value = v + 1, cn_expires = Some e\<rparr>)"
    by (simp add: at_max_def incr_def)
  then have "at_time (now (snd (RecordFailure rl key s))) (view (snd (RecordFailure rl key s))) (keyPrefix @ key) =
      Some \<lparr>cn_value = v + 1, cn_expires = Some e\<rparr>"
    using assms(5) by (simp add: at_time_def alive_def)
  with t show ?thesis by (simp add: Let_def pending_counter_def set_nx_def)
qed

end

section \<open>Redis\<close>

text \<open>
  The server: its store, the number of commands so far, the time and the fault of each command. As
  with statements, a command may fail before or after its effect.
\<close>

record redis =
  rd_store :: "string \<Rightarrow> counter option"
  rd_no :: nat
  rd_clock :: "nat \<Rightarrow> time"
  rd_fault :: "nat \<Rightarrow> fault"

definition command ::
  "(time \<Rightarrow> (string \<Rightarrow> counter option) \<Rightarrow> (redis_error + 'a) \<times> (string \<Rightarrow> counter option)) \<Rightarrow> (redis, 'a) redis_op" where
  "command f s =
     (let (r, m) = f (rd_clock s (rd_no s)) (rd_store s); s1 = s\<lparr>rd_no := Suc (rd_no s)\<rparr> in
      case rd_fault s (rd_no s) of
        Works \<Rightarrow> (r, s1\<lparr>rd_store := m\<rparr>)
      | Fails \<Rightarrow> (Inl (RedisError ''connection''), s1)
      | AckLost \<Rightarrow> (Inl (RedisError ''connection''), s1\<lparr>rd_store := m\<rparr>))"

definition redis_Get :: "string \<Rightarrow> (redis, int64) redis_op" where
  "redis_Get k = command (\<lambda>t m.
     (case at_time t m k of None \<Rightarrow> Inl RedisNil | Some c \<Rightarrow> Inr (cn_value c), m))"

definition redis_SetNX :: "string \<Rightarrow> int64 \<Rightarrow> time \<Rightarrow> (redis, unit) redis_op" where
  "redis_SetNX k v ttl = command (\<lambda>t m.
     (if at_time t m k = None then Inr () else Inl RedisNil, m(k \<mapsto> set_nx t v ttl (at_time t m k))))"

definition redis_Incr :: "string \<Rightarrow> (redis, int64) redis_op" where
  "redis_Incr k = command (\<lambda>t m.
     if at_max (at_time t m k) then (Inl (RedisError ''overflow''), m)
     else (Inr (cn_value (incr (at_time t m k))), m(k \<mapsto> incr (at_time t m k))))"

definition redis_Del :: "string \<Rightarrow> (redis, int64) redis_op" where
  "redis_Del k = command (\<lambda>t m. (Inr (if at_time t m k = None then 0 else 1), m(k := None)))"

definition redis_server :: "redis redis_client" where
  "redis_server = \<lparr>rdb_Get = redis_Get, rdb_SetNX = redis_SetNX, rdb_Incr = redis_Incr, rdb_Del = redis_Del\<rparr>"

text \<open>Nothing fails, and time does not go backwards.\<close>

definition redis_up :: "redis \<Rightarrow> bool" where
  "redis_up s \<longleftrightarrow> (\<forall>n. rd_fault s n = Works) \<and> (\<forall>n. rd_clock s n \<le> rd_clock s (Suc n))"

definition redis_now :: "redis \<Rightarrow> time" where
  "redis_now s = rd_clock s (rd_no s)"

lemma command_up:
  "redis_up s \<Longrightarrow> command f s = (r, s') \<Longrightarrow>
   redis_up s' \<and> redis_now s \<le> redis_now s' \<and> rd_clock s' = rd_clock s \<and> rd_no s' = Suc (rd_no s) \<and>
   f (redis_now s) (rd_store s) = (r, rd_store s')"
  by (auto simp: command_def redis_up_def redis_now_def Let_def split: prod.splits)

interpretation redis: counter_store redis_server rd_store redis_now redis_up
  by unfold_locales
    (simp_all add: redis_server_def redis_Get_def redis_SetNX_def redis_Incr_def redis_Del_def,
     (drule (1) command_up, auto split: if_splits)+)

section \<open>Failed logins in a row\<close>

fun record_failures :: "redis RateLimiter \<Rightarrow> string \<Rightarrow> nat \<Rightarrow> redis \<Rightarrow> redis" where
  "record_failures rl key 0 s = s"
| "record_failures rl key (Suc k) s = record_failures rl key k (snd (RecordFailure rl key s))"

lemma redis_now_mono:
  assumes "redis_up s" "rl_rdb rl = redis_server"
  shows "redis_up (record_failures rl key k s) \<and> redis_now s \<le> redis_now (record_failures rl key k s)"
  using assms
proof (induction k arbitrary: s)
  case (Suc k)
  from redis.record_failure [OF Suc.prems(1,2) prod.collapse [symmetric], of key]
  have "redis_up (snd (RecordFailure rl key s))" "redis_now s \<le> redis_now (snd (RecordFailure rl key s))" by auto
  with Suc.IH [of "snd (RecordFailure rl key s)"] Suc.prems(2) show ?case by auto
qed simp

lemma record_failures_count:
  assumes "redis_up s" "rl_rdb rl = redis_server"
    and "redis.pending_counter rl key s = \<lparr>cn_value = v, cn_expires = Some e\<rparr>"
    and "0 \<le> sint v" "sint v + int k < 2 ^ 63" "redis_now (record_failures rl key k s) < e"
    and "k \<noteq> 0 \<or> at_time (redis_now s) (rd_store s) (keyPrefix @ key) = Some \<lparr>cn_value = v, cn_expires = Some e\<rparr>"
  shows "\<exists>v'. at_time (redis_now (record_failures rl key k s)) (rd_store (record_failures rl key k s)) (keyPrefix @ key) =
      Some \<lparr>cn_value = v', cn_expires = Some e\<rparr> \<and> sint v' = sint v + int k"
  using assms
proof (induction k arbitrary: s v)
  case 0
  then show ?case by simp
next
  case (Suc k)
  let ?s' = "snd (RecordFailure rl key s)"
  have "sint (v + 1) = sint v + 1"
    using Suc.prems(4,5) by (simp add: sint_word_ariths(1) signed_take_bit_int_eq_self)
  moreover from redis.record_failure [OF Suc.prems(1,2) prod.collapse [symmetric], of key]
  have "redis_up ?s'" by auto
  from redis_now_mono [OF this Suc.prems(2), of key k] Suc.prems(6) have "redis_now ?s' < e" by simp
  with redis.record_once [OF Suc.prems(1,2,3)] Suc.prems(4,5) have
    "redis.pending_counter rl key ?s' = \<lparr>cn_value = v + 1, cn_expires = Some e\<rparr>"
    "at_time (redis_now ?s') (rd_store ?s') (keyPrefix @ key) = Some \<lparr>cn_value = v + 1, cn_expires = Some e\<rparr>"
    by (simp_all add: Let_def)
  ultimately show ?case
    using Suc.IH [of ?s' "v + 1"] Suc.prems \<open>redis_up ?s'\<close> by (simp add: add.assoc)
qed

lemma record_failure_other:
  assumes "redis_up s" "rl_rdb rl = redis_server" "other \<noteq> keyPrefix @ key"
  shows "rd_store (snd (RecordFailure rl key s)) other = rd_store s other"
proof -
  obtain q s1 where q: "rdb_SetNX redis_server (keyPrefix @ key) 0 (rl_window rl) s = (q, s1)" by fastforce
  obtain r s2 where r: "rdb_Incr redis_server (keyPrefix @ key) s1 = (r, s2)" by fastforce
  from redis.setnx [OF assms(1) q] redis.incr_law [OF _ r] q r assms(2,3) show ?thesis
    by (auto simp: RecordFailure_def Let_def split: if_splits)
qed

section \<open>Samples\<close>

definition sample_redis :: "(nat \<Rightarrow> time) \<Rightarrow> (string \<Rightarrow> counter option) \<Rightarrow> redis" where
  "sample_redis clock m = \<lparr>rd_store = m, rd_no = 0, rd_clock = clock, rd_fault = (\<lambda>n. Works)\<rparr>"

definition sample_limiter :: "redis RateLimiter" where
  "sample_limiter = \<lparr>rl_rdb = redis_server, rl_limit = 3, rl_window = 900\<rparr>"

lemma sample_redis_up: "(\<And>n. clock n \<le> clock (Suc n)) \<Longrightarrow> redis_up (sample_redis clock m)"
  by (simp add: redis_up_def sample_redis_def)

lemma sample_redis_simps [simp]:
  "rl_rdb sample_limiter = redis_server" "rl_limit sample_limiter = 3" "rl_window sample_limiter = 900"
  "rd_store (sample_redis clock m) = m" "redis_now (sample_redis clock m) = clock 0"
  by (simp_all add: sample_limiter_def sample_redis_def redis_now_def)

section \<open>Properties\<close>

text \<open>
  C33. A client is blocked exactly from the limit on: after \<open>k\<close> failed logins within one window that
  started with the first, the limiter allows another attempt if and only if \<open>k\<close> is below the limit.
\<close>

theorem Allow_after_failures:
  assumes "redis_up s" and "rl_rdb rl = redis_server"
    and "at_time (redis_now s) (rd_store s) (keyPrefix @ key) = None"
    and "0 < rl_window rl" and "0 < k" "int k < 2 ^ 63"
    and "redis_now (record_failures rl key k s) < redis_now s + rl_window rl"
  shows "fst (Allow rl key (record_failures rl key k s)) = Inr (int k < sint (rl_limit rl))"
proof -
  let ?s' = "record_failures rl key k s"
  have "redis.pending_counter rl key s = \<lparr>cn_value = 0, cn_expires = Some (redis_now s + rl_window rl)\<rparr>"
    using assms(3,4) by (simp add: redis.pending_counter_def set_nx_def)
  from record_failures_count [OF assms(1,2) this, of k] assms(5-7) obtain v' where
    "at_time (redis_now ?s') (rd_store ?s') (keyPrefix @ key) =
       Some \<lparr>cn_value = v', cn_expires = Some (redis_now s + rl_window rl)\<rparr>" "sint v' = int k" by auto
  with redis.allow [OF conjunct1 [OF redis_now_mono [OF assms(1,2)]] assms(2) prod.collapse [symmetric]]
  show ?thesis by (simp add: word_sless_alt)
qed

theorem Allow_after_failures_witness:
  "fst (Allow sample_limiter ''k'' (record_failures sample_limiter ''k'' 2 (sample_redis int Map.empty))) = Inr True \<and>
   fst (Allow sample_limiter ''k'' (record_failures sample_limiter ''k'' 3 (sample_redis int Map.empty))) = Inr False"
proof -
  have "redis_now (record_failures sample_limiter ''k'' 2 (sample_redis int Map.empty)) = 4"
    "redis_now (record_failures sample_limiter ''k'' 3 (sample_redis int Map.empty)) = 6" by code_simp+
  moreover have "redis_up (sample_redis int Map.empty)" by (rule sample_redis_up) simp
  ultimately show ?thesis
    using Allow_after_failures [of "sample_redis int Map.empty" sample_limiter "''k''" 2]
      Allow_after_failures [of "sample_redis int Map.empty" sample_limiter "''k''" 3]
    by (simp add: at_time_def)
qed

text \<open>
  A blocked client is let in again: after a \<open>Reset\<close> (a successful login) at once, and without one
  as soon as the time of its counter is over. Recording a failure touches the counter of that client
  only.
\<close>

theorem Allow_recovers:
  assumes "redis_up s" and "rl_rdb rl = redis_server"
  shows "fst (Allow rl key (snd (Reset rl key s))) = Inr True \<and>
    (\<forall>v e. rd_store s (keyPrefix @ key) = Some \<lparr>cn_value = v, cn_expires = Some e\<rparr> \<and> e \<le> redis_now s \<longrightarrow>
       fst (Allow rl key s) = Inr True) \<and>
    (\<forall>other. other \<noteq> keyPrefix @ key \<longrightarrow> rd_store (snd (RecordFailure rl key s)) other = rd_store s other)"
proof -
  note reset = redis.reset [OF assms prod.collapse [symmetric], of key]
  from redis.allow [OF conjunct1 [OF reset] assms(2) prod.collapse [symmetric], of key] reset
  have "fst (Allow rl key (snd (Reset rl key s))) = Inr True" by (simp add: at_time_def)
  moreover have "fst (Allow rl key s) = Inr True"
    if "rd_store s (keyPrefix @ key) = Some \<lparr>cn_value = v, cn_expires = Some e\<rparr>" "e \<le> redis_now s" for v e
    using redis.allow [OF assms prod.collapse [symmetric], of key] that by (simp add: at_time_def alive_def)
  moreover have "rd_store (snd (RecordFailure rl key s)) other = rd_store s other"
    if "other \<noteq> keyPrefix @ key" for other
    using record_failure_other [OF assms that] .
  ultimately show ?thesis by blast
qed

theorem Allow_recovers_witness:
  "fst (Allow sample_limiter ''k'' (snd (Reset sample_limiter ''k''
     (record_failures sample_limiter ''k'' 3 (sample_redis int Map.empty))))) = Inr True"
proof -
  have "redis_up (sample_redis int Map.empty)" by (rule sample_redis_up) simp
  then have "redis_up (record_failures sample_limiter ''k'' 3 (sample_redis int Map.empty))"
    using redis_now_mono by simp
  from Allow_recovers [OF this, of sample_limiter] show ?thesis by simp
qed

section \<open>A counter that never expires\<close>

text \<open>
  \<open>SET NX\<close> and \<open>INCR\<close> are two commands. When the counter expires between them, \<open>INCR\<close> makes a new one
  without a time to live, and later \<open>SET NX\<close>s find it and do not give it one either: from the limit on
  the client stays blocked until a successful login, which the block prevents.
\<close>

lemma counter_without_expiry:
  assumes "rd_store s (keyPrefix @ key) = Some \<lparr>cn_value = v, cn_expires = None\<rparr>"
    and "redis_up s" "rl_rdb rl = redis_server" "rl_limit rl \<le>s v"
  shows "fst (Allow rl key s) = Inr False"
  using redis.allow [OF assms(2,3) prod.collapse [symmetric], of key] assms(1,4)
  by (simp add: at_time_def alive_def word_sless_alt word_sle_eq not_less)

lemma expiry_lost_between_commands:
  "(let s = record_failures sample_limiter ''k'' 3
       (sample_redis (\<lambda>n. if n = 0 then 9 else 11 + 100000 * int n)
          [''rate_limit:k'' \<mapsto> \<lparr>cn_value = 1, cn_expires = Some 10\<rparr>]) in
    rd_store s ''rate_limit:k'' = Some \<lparr>cn_value = 3, cn_expires = None\<rparr> \<and>
    fst (Allow sample_limiter ''k'' s) = Inr False)"
  by code_simp

end
