(* ===== verification/Http.thy ===== *)
theory Http
  imports Order_System Payloads Sha256 Rate_Limiter
begin

text \<open>
  HTTP as the handlers see it: requests with what middleware has put in their context, responses
  (\<open>httpx/response.go\<close>), query parameters, the validator, the state of the server, and the middleware
  for authentication and the login limit (\<open>middleware/auth.go\<close>) and for idempotency keys
  (\<open>middleware/idempotency.go\<close>).
\<close>

section \<open>Requests and responses\<close>

text \<open>
  \<open>rq_Header h\<close> is \<open>r.Header.Get(h)\<close>, \<open>rq_Params p\<close> the URL parameter \<open>chi.URLParam(r, p)\<close>; the last two
  fields are the context values the middleware sets.
\<close>

record http_request =
  rq_Header :: "string \<Rightarrow> string"
  rq_RawQuery :: string
  rq_Body :: body
  rq_RemoteAddr :: string
  rq_Params :: "string \<Rightarrow> string"
  rq_userID :: "uuid option"
  rq_idempotencyHeader :: "string option"

text \<open>A handler that panics gets no response out: the server closes the connection.\<close>

datatype response = Response (rs_status: nat) (rs_headers: "(string \<times> string) list") (rs_body: string) | Panicked

definition content_json :: "string \<times> string" where
  "content_json = (''Content-Type'', ''application/json'')"

text \<open>\<open>ResponseJson\<close>: \<open>data\<close> and \<open>error\<close> are left out when empty.\<close>

definition ResponseJson :: "bool \<Rightarrow> json option \<Rightarrow> string \<Rightarrow> json" where
  "ResponseJson success data err =
     JObject ([(''success'', JBool success)] @
       (case data of None \<Rightarrow> [] | Some d \<Rightarrow> [(''data'', d)]) @
       (if err = [] then [] else [(''error'', JString err)]))"

text \<open>\<open>Encode\<close> ends the text with a newline, and writes nothing when the value cannot be marshalled.\<close>

definition WriteJSON :: "nat \<Rightarrow> json option \<Rightarrow> response" where
  "WriteJSON status data = Response status [content_json]
     (case data of None \<Rightarrow> [] | Some d \<Rightarrow> print_json (ResponseJson True (Some d) []) @ [CHR 0x0A])"

definition WriteErrorJSON :: "nat \<Rightarrow> string \<Rightarrow> response" where
  "WriteErrorJSON status err = Response status [content_json] (print_json (ResponseJson False None err) @ [CHR 0x0A])"

section \<open>Query parameters\<close>

text \<open>\<open>url.QueryUnescape\<close>, and the first value of a key in \<open>r.URL.Query()\<close>.\<close>

fun unescape :: "string \<Rightarrow> string option" where
  "unescape [] = Some []"
| "unescape (c # cs) =
     (if c = CHR ''%'' then
        (case cs of
           a # b # r \<Rightarrow>
             (case (hex_val a, hex_val b, unescape r) of
                (Some i, Some j, Some s) \<Rightarrow> Some (char_of (i * 16 + j) # s)
              | _ \<Rightarrow> None)
         | _ \<Rightarrow> None)
      else map_option (Cons (if c = CHR ''+'' then CHR '' '' else c)) (unescape cs))"

function split_at :: "char \<Rightarrow> string \<Rightarrow> string list" where
  "split_at c s = (case cut_at c s of None \<Rightarrow> [s] | Some (a, b) \<Rightarrow> a # split_at c b)"
  by pat_completeness auto
termination by (relation "measure (\<lambda>(c, s). length s)") (auto dest: cut_at_SomeD)

declare split_at.simps [simp del]

definition query_pair :: "string \<Rightarrow> (string \<times> string) option" where
  "query_pair p =
     (if p = [] \<or> CHR '';'' \<in> set p then None
      else let (k, v) = (case cut_at CHR ''='' p of None \<Rightarrow> (p, []) | Some kv \<Rightarrow> kv) in
        case (unescape k, unescape v) of (Some k', Some v') \<Rightarrow> Some (k', v') | _ \<Rightarrow> None)"

definition Query_Get :: "string \<Rightarrow> string \<Rightarrow> string" where
  "Query_Get query key =
     (case map_of (List.map_filter query_pair (split_at CHR ''&'' query)) key of None \<Rightarrow> [] | Some v \<Rightarrow> v)"

section \<open>The validator\<close>

text \<open>
  \<open>validator.Struct\<close> checks the fields of a struct by their tags; elements of a slice are not visited
  without the tag \<open>dive\<close>. What a tag accepts is the library's.
\<close>

datatype field = FString string | FInt goint | FIntPtr "goint option" | FSlice nat

type_synonym validator = "string \<Rightarrow> field \<Rightarrow> bool"

definition Struct :: "validator \<Rightarrow> (string \<times> field) list \<Rightarrow> bool" where
  "Struct V fs = list_all (\<lambda>(tag, f). V tag f) fs"

definition valid_CreateOrderRequest :: "validator \<Rightarrow> CreateOrderItemRequest list \<Rightarrow> bool" where
  "valid_CreateOrderRequest V items = Struct V [(''required,min=1'', FSlice (length items))]"

definition valid_CreateProductRequest :: "validator \<Rightarrow> CreateProductRequest \<Rightarrow> bool" where
  "valid_CreateProductRequest V req = Struct V
     [(''required'', FString (cp_Name req)), (''required'', FString (cp_Description req)),
      (''required,gt=0'', FInt (cp_Price req)), (''required,gt=0'', FInt (cp_Stock req))]"

definition valid_UpdateProductRequest :: "validator \<Rightarrow> UpdateProductRequest \<Rightarrow> bool" where
  "valid_UpdateProductRequest V req = Struct V
     [(''omitempty,gt=0'', FIntPtr (up_Price req)), (''omitempty,gt=0'', FIntPtr (up_Stock req))]"

definition valid_RegisterRequest :: "validator \<Rightarrow> RegisterRequest \<Rightarrow> bool" where
  "valid_RegisterRequest V req = Struct V
     [(''required,email'', FString (rr_Email req)), (''required,min=8'', FString (rr_Password req))]"

definition valid_LoginRequest :: "validator \<Rightarrow> LoginRequest \<Rightarrow> bool" where
  "valid_LoginRequest V req = Struct V
     [(''required,email'', FString (lr_Email req)), (''required'', FString (lr_Password req))]"

text \<open>What the tags of numbers and lengths mean.\<close>

definition validator_laws :: "validator \<Rightarrow> bool" where
  "validator_laws V \<longleftrightarrow>
     (\<forall>n. V ''required,min=1'' (FSlice n) \<longleftrightarrow> 1 \<le> n) \<and>
     (\<forall>n. V ''required,gt=0'' (FInt n) \<longleftrightarrow> 0 < sint n) \<and>
     (\<forall>p. V ''omitempty,gt=0'' (FIntPtr p) \<longleftrightarrow> (case p of None \<Rightarrow> True | Some n \<Rightarrow> 0 < sint n)) \<and>
     (\<forall>s. V ''required'' (FString s) \<longleftrightarrow> s \<noteq> [])"

section \<open>The server\<close>

text \<open>The limiter the handlers use: the interfaces \<open>LoginAllower\<close> and \<open>LoginLimiter\<close>.\<close>

record login_limiter =
  ll_Allow :: "string \<Rightarrow> (redis, bool) redis_op"
  ll_RecordFailure :: "string \<Rightarrow> (redis, int64) redis_op"
  ll_Reset :: "string \<Rightarrow> (redis, unit) redis_op"

definition limiter_of :: "redis RateLimiter \<Rightarrow> login_limiter" where
  "limiter_of rl = \<lparr>ll_Allow = Allow rl, ll_RecordFailure = RecordFailure rl, ll_Reset = Reset rl\<rparr>"

text \<open>What the handlers hold, and the texts of the driver's errors.\<close>

record api =
  ap_libs :: libs
  ap_text :: text_lib
  ap_valid :: validator
  ap_limiter :: login_limiter
  ap_driver_text :: "go_error \<Rightarrow> string"

record server =
  sv_db :: world
  sv_redis :: redis

type_synonym handler = "http_request \<Rightarrow> server \<Rightarrow> response \<times> server"

definition on_db :: "'a db_op \<Rightarrow> server \<Rightarrow> (go_error + 'a) \<times> server" where
  "on_db f s = (let (r, w) = f (sv_db s) in (r, s\<lparr>sv_db := w\<rparr>))"

definition on_redis :: "(redis, 'a) redis_op \<Rightarrow> server \<Rightarrow> (redis_error + 'a) \<times> server" where
  "on_redis f s = (let (r, m) = f (sv_redis s) in (r, s\<lparr>sv_redis := m\<rparr>))"

text \<open>The texts of the errors the packages declare, and of wrapped ones.\<close>

fun Error :: "(go_error \<Rightarrow> string) \<Rightarrow> go_error \<Rightarrow> string" where
  "Error T (ProductErr ErrNoProduct) = ''no products available''"
| "Error T (ProductErr ErrExistingProductName) = bytes
     [112, 114, 111, 100, 117, 99, 116, 39, 115] @ '' name cannot be same with the exists one''"
| "Error T (ProductErr ErrProductNotFound) = ''product not found''"
| "Error T (ProductErr ErrInsufficientStock) = ''insufficient stock''"
| "Error T (OrderErr ErrOrderNotFound) = ''order not found''"
| "Error T (OrderErr ErrOrderItemsUnvailable) = ''no order items is available''"
| "Error T (OrderErr ErrOrderNotPending) = ''status order is not pending''"
| "Error T (PaymentErr ErrNoPaymentFound) = ''payment not found''"
| "Error T (PaymentErr ErrNoOrderFound) = ''order not found''"
| "Error T (PaymentErr ErrOrderNotPayable) = ''order cannot be paid''"
| "Error T (IdempotencyErr ErrNoIdempotencyFound) = ''idempotency key not found''"
| "Error T (IdempotencyErr ErrIdempotencyKeyExists) = ''idempotency key exists''"
| "Error T (UserErr ErrEmailRegistered) = ''email is already registered''"
| "Error T (UserErr ErrLoginGeneric) = ''invalid email or password''"
| "Error T (OtherErr s) = s"
| "Error T (Wrapped msg e) = msg @ '': '' @ Error T e"
| "Error T e = T e"

definition something_wrong :: response where
  "something_wrong = WriteErrorJSON 500 ''something went wrong''"

section \<open>Middleware\<close>

definition app_now :: "server \<Rightarrow> time" where
  "app_now s = env_app_clock (env (sv_db s)) (stmt_no (sv_db s))"

definition AuthMiddleware :: "api \<Rightarrow> handler \<Rightarrow> handler" where
  "AuthMiddleware A next rq s =
     (case Auth (lib_jwt (ap_libs A)) (lib_manager (ap_libs A)) (app_now s) (rq_Header rq ''Authorization'') of
        Unauthorized \<Rightarrow>
          (Response 401 [(''WWW-Authenticate'', ''Bearer realm='' @ quote ''api''), content_json]
             (print_json (ResponseJson False None ''invalid or expired token'') @ [CHR 0x0A]), s)
      | NilDereference \<Rightarrow> (Panicked, s)
      | Authenticated u \<Rightarrow> next (rq\<lparr>rq_userID := Some u\<rparr>) s)"

definition GetUserIDClaims :: "http_request \<Rightarrow> uuid option" where
  "GetUserIDClaims rq = rq_userID rq"

text \<open>When the limiter cannot be asked, the request is let through.\<close>

definition LoginRateLimiter :: "api \<Rightarrow> handler \<Rightarrow> handler" where
  "LoginRateLimiter A next rq s =
     (case on_redis (ll_Allow (ap_limiter A) (LoginKey (ClientIP (rq_RemoteAddr rq)))) s of
        (Inl err, s1) \<Rightarrow> next rq s1
      | (Inr allowed, s1) \<Rightarrow>
          if \<not> allowed then (WriteErrorJSON 429 ''too many login attempts, please try again later'', s1)
          else next rq s1)"

definition requestHash :: "string \<Rightarrow> string" where
  "requestHash bodyBytes = EncodeToString (Sum256 bodyBytes)"

text \<open>
  The body is read to its end and replaced by what was read; a response that is replayed is written
  as it is stored.
\<close>

definition IdempotencyMiddleware :: "handler \<Rightarrow> handler" where
  "IdempotencyMiddleware next rq s =
     (case GetUserIDClaims rq of
        None \<Rightarrow> (WriteErrorJSON 401 ''unauthorized'', s)
      | Some userID \<Rightarrow>
          let valueStr = rq_Header rq ''Idempotency-Key'' in
          if valueStr = [] then (WriteErrorJSON 400 ''idempotency-key header is required'', s)
          else if bd_fails (rq_Body rq) then (WriteErrorJSON 400 ''invalid request body payload'', s)
          else
            (case on_db (CheckAndClaim valueStr (requestHash (bd_bytes (rq_Body rq))) userID) s of
               (Inl err, s1) \<Rightarrow> (something_wrong, s1)
             | (Inr idempotencyResult, s1) \<Rightarrow>
                 (case Result_Status idempotencyResult of
                    Replayed \<Rightarrow>
                      (Response 201 [content_json]
                         (case Result_Response idempotencyResult of None \<Rightarrow> [] | Some x \<Rightarrow> x), s1)
                  | Mismatch \<Rightarrow>
                      (WriteErrorJSON 409 ''idempotency key already used with a different request body'', s1)
                  | InProgress \<Rightarrow>
                      (WriteErrorJSON 409 ''a request with this idempotency key is still being processed'', s1)
                  | New \<Rightarrow> next (rq\<lparr>rq_idempotencyHeader := Some valueStr\<rparr>) s1)))"

definition GetIdempotencyValueFromContext :: "http_request \<Rightarrow> string option" where
  "GetIdempotencyValueFromContext rq = rq_idempotencyHeader rq"

end
