(* ===== verification/Handlers.thy ===== *)
theory Handlers
  imports Http
begin

text \<open>
  The HTTP handlers: orders (\<open>order_handler.go\<close>), payments (\<open>payment_handler.go\<close>), the catalog
  (\<open>product_handler.go\<close>) and users (\<open>user_handler.go\<close>). Each decodes and validates its request, calls
  its service and turns the result into a response; logging has no effect here.
\<close>

section \<open>Errors as responses\<close>

text \<open>
  The chain of \<open>if errors.Is(err, target) { WriteErrorJSON(status, err.Error()) }\<close> every handler ends
  with; what no target matches is a server error whose text is not shown.
\<close>

fun error_response :: "(go_error \<Rightarrow> string) \<Rightarrow> (go_error \<times> nat) list \<Rightarrow> go_error \<Rightarrow> response" where
  "error_response T [] err = something_wrong"
| "error_response T ((target, status) # es) err =
     (if errors_Is err target then WriteErrorJSON status (Error T err) else error_response T es err)"

definition unauthorized :: response where
  "unauthorized = WriteErrorJSON 401 ''unauthorized''"

section \<open>Orders\<close>

definition create_order_errors :: "(go_error \<times> nat) list" where
  "create_order_errors =
     [(ProductErr ErrProductNotFound, 404), (ProductErr ErrInsufficientStock, 409), (OrderErr ErrOrderNotFound, 404)]"

text \<open>
  The response is stored under the key before it is written; that storing it failed is only logged.
\<close>

definition h_CreateOrder :: "api \<Rightarrow> handler" where
  "h_CreateOrder A rq s =
     (case decode_CreateOrderRequest (ap_text A) (rq_Body rq) of
        None \<Rightarrow> (WriteErrorJSON 400 ''invalid json payload'', s)
      | Some items \<Rightarrow>
     if \<not> valid_CreateOrderRequest (ap_valid A) items then (WriteErrorJSON 400 ''invalid request'', s)
     else case GetUserIDClaims rq of
        None \<Rightarrow> (unauthorized, s)
      | Some userID \<Rightarrow>
     case GetIdempotencyValueFromContext rq of
        None \<Rightarrow> (something_wrong, s)
      | Some idempotencyVal \<Rightarrow>
     case on_db (CreateOrder userID items) s of
        (Inl err, s1) \<Rightarrow> (error_response (ap_driver_text A) create_order_errors err, s1)
      | (Inr created, s1) \<Rightarrow>
          let resp = write_CreateOrderResponse (ap_text A) created;
              s2 = (case resp of
                      None \<Rightarrow> s1
                    | Some d \<Rightarrow> snd (on_db (SaveResponse idempotencyVal userID
                                  (print_json (ResponseJson True (Some d) []))) s1))
          in (WriteJSON 201 resp, s2))"

definition h_GetOrders :: "api \<Rightarrow> handler" where
  "h_GetOrders A rq s =
     (case GetUserIDClaims rq of
        None \<Rightarrow> (unauthorized, s)
      | Some userID \<Rightarrow>
     case on_db (svc_GetOrders order_repository userID) s of
        (Inl err, s1) \<Rightarrow> (something_wrong, s1)
      | (Inr orders, s1) \<Rightarrow> (WriteJSON 200 (write_list (write_Order (ap_text A)) orders), s1))"

definition h_GetOrderByID :: "api \<Rightarrow> handler" where
  "h_GetOrderByID A rq s =
     (case uuid_Parse (ap_text A) (rq_Params rq ''id'') of
        None \<Rightarrow> (WriteErrorJSON 400 ''invalid id format'', s)
      | Some orderID \<Rightarrow>
     case GetUserIDClaims rq of
        None \<Rightarrow> (unauthorized, s)
      | Some userID \<Rightarrow>
     case on_db (svc_GetOrderByID order_repository userID orderID) s of
        (Inl err, s1) \<Rightarrow> (error_response (ap_driver_text A) [(OrderErr ErrOrderNotFound, 404)] err, s1)
      | (Inr order, s1) \<Rightarrow> (WriteJSON 200 (write_Order (ap_text A) order), s1))"

definition cancel_order_errors :: "(go_error \<times> nat) list" where
  "cancel_order_errors =
     [(OrderErr ErrOrderNotFound, 404), (OrderErr ErrOrderNotPending, 409),
      (OrderErr ErrOrderItemsUnvailable, 404), (ProductErr ErrProductNotFound, 404)]"

definition h_CancelOrder :: "api \<Rightarrow> handler" where
  "h_CancelOrder A rq s =
     (case uuid_Parse (ap_text A) (rq_Params rq ''id'') of
        None \<Rightarrow> (WriteErrorJSON 400 ''invalid id format'', s)
      | Some orderID \<Rightarrow>
     case GetUserIDClaims rq of
        None \<Rightarrow> (unauthorized, s)
      | Some userID \<Rightarrow>
     case on_db (CancelOrder userID orderID) s of
        (Inl err, s1) \<Rightarrow> (error_response (ap_driver_text A) cancel_order_errors err, s1)
      | (Inr cancelledOrder, s1) \<Rightarrow> (WriteJSON 200 (write_Order (ap_text A) cancelledOrder), s1))"

section \<open>Payments\<close>

definition pay_errors :: "(go_error \<times> nat) list" where
  "pay_errors =
     [(PaymentErr ErrNoOrderFound, 404), (PaymentErr ErrNoPaymentFound, 404), (PaymentErr ErrOrderNotPayable, 409)]"

definition h_Pay :: "api \<Rightarrow> handler" where
  "h_Pay A rq s =
     (case GetUserIDClaims rq of
        None \<Rightarrow> (unauthorized, s)
      | Some userID \<Rightarrow>
     case uuid_Parse (ap_text A) (rq_Params rq ''id'') of
        None \<Rightarrow> (WriteErrorJSON 400 ''id format is invalid'', s)
      | Some orderID \<Rightarrow>
     case on_db (Pay userID orderID) s of
        (Inl err, s1) \<Rightarrow> (error_response (ap_driver_text A) pay_errors err, s1)
      | (Inr paid, s1) \<Rightarrow> (WriteJSON 200 (write_PayResponse (ap_text A) paid), s1))"

definition h_GetPaymentByOrderID :: "api \<Rightarrow> handler" where
  "h_GetPaymentByOrderID A rq s =
     (case GetUserIDClaims rq of
        None \<Rightarrow> (unauthorized, s)
      | Some userID \<Rightarrow>
     case uuid_Parse (ap_text A) (rq_Params rq ''id'') of
        None \<Rightarrow> (WriteErrorJSON 400 ''id format is invalid'', s)
      | Some orderID \<Rightarrow>
     case on_db (GetPaymentByOrderID userID orderID) s of
        (Inl err, s1) \<Rightarrow> (error_response (ap_driver_text A) [(PaymentErr ErrNoPaymentFound, 404)] err, s1)
      | (Inr payment, s1) \<Rightarrow> (WriteJSON 200 (write_Payment (ap_text A) payment), s1))"

section \<open>The catalog\<close>

definition parseProductID :: "api \<Rightarrow> http_request \<Rightarrow> uuid option" where
  "parseProductID A rq = uuid_Parse (ap_text A) (rq_Params rq ''id'')"

definition int_param :: "string \<Rightarrow> goint \<Rightarrow> goint option" where
  "int_param str fallback = (if str = [] then Some fallback else Atoi str)"

definition h_ListProducts :: "api \<Rightarrow> handler" where
  "h_ListProducts A rq s =
     (case int_param (Query_Get (rq_RawQuery rq) ''page'') 1 of
        None \<Rightarrow> (WriteErrorJSON 400 ''invalid page format'', s)
      | Some page \<Rightarrow>
     case int_param (Query_Get (rq_RawQuery rq) ''limit'') 10 of
        None \<Rightarrow> (WriteErrorJSON 400 ''invalid limit format'', s)
      | Some limit \<Rightarrow>
     case on_db (ListProducts page limit) s of
        (Inl err, s1) \<Rightarrow>
          if errors_Is err (ProductErr ErrNoProduct) then (WriteJSON 200 (Some (JArray [])), s1)
          else (something_wrong, s1)
      | (Inr productsList, s1) \<Rightarrow> (WriteJSON 200 (write_list (write_Product (ap_text A)) productsList), s1))"

definition h_GetProductByID :: "api \<Rightarrow> handler" where
  "h_GetProductByID A rq s =
     (case parseProductID A rq of
        None \<Rightarrow> (WriteErrorJSON 400 ''invalid id format'', s)
      | Some productID \<Rightarrow>
     case on_db (GetProductByID productID) s of
        (Inl err, s1) \<Rightarrow> (error_response (ap_driver_text A) [(ProductErr ErrProductNotFound, 404)] err, s1)
      | (Inr existingProduct, s1) \<Rightarrow> (WriteJSON 200 (write_Product (ap_text A) existingProduct), s1))"

definition h_CreateProduct :: "api \<Rightarrow> handler" where
  "h_CreateProduct A rq s =
     (case decode_CreateProductRequest (rq_Body rq) of
        None \<Rightarrow> (WriteErrorJSON 400 ''invalid json payload'', s)
      | Some req \<Rightarrow>
     if \<not> valid_CreateProductRequest (ap_valid A) req then (WriteErrorJSON 400 ''invalid product payload'', s)
     else case on_db (CreateProduct req) s of
        (Inl err, s1) \<Rightarrow> (error_response (ap_driver_text A) [(ProductErr ErrExistingProductName, 409)] err, s1)
      | (Inr createdProduct, s1) \<Rightarrow> (WriteJSON 201 (write_Product (ap_text A) createdProduct), s1))"

definition h_UpdateProduct :: "api \<Rightarrow> handler" where
  "h_UpdateProduct A rq s =
     (case parseProductID A rq of
        None \<Rightarrow> (WriteErrorJSON 400 ''invalid id format'', s)
      | Some productID \<Rightarrow>
     case decode_UpdateProductRequest (rq_Body rq) of
        None \<Rightarrow> (WriteErrorJSON 400 ''invalid json payload'', s)
      | Some req \<Rightarrow>
     if \<not> valid_UpdateProductRequest (ap_valid A) req then (WriteErrorJSON 400 ''invalid product payload'', s)
     else case on_db (UpdateProduct productID req) s of
        (Inl err, s1) \<Rightarrow> (error_response (ap_driver_text A)
            [(ProductErr ErrProductNotFound, 404), (ProductErr ErrExistingProductName, 409)] err, s1)
      | (Inr updatedProduct, s1) \<Rightarrow> (WriteJSON 200 (write_Product (ap_text A) updatedProduct), s1))"

definition h_DeleteProduct :: "api \<Rightarrow> handler" where
  "h_DeleteProduct A rq s =
     (case parseProductID A rq of
        None \<Rightarrow> (WriteErrorJSON 400 ''invalid id format'', s)
      | Some productID \<Rightarrow>
     case on_db (DeleteProduct productID) s of
        (Inl err, s1) \<Rightarrow> (error_response (ap_driver_text A) [(ProductErr ErrProductNotFound, 404)] err, s1)
      | (Inr _, s1) \<Rightarrow> (Response 204 [] [], s1))"

section \<open>Users\<close>

definition h_Register :: "api \<Rightarrow> handler" where
  "h_Register A rq s =
     (case decode_RegisterRequest (rq_Body rq) of
        None \<Rightarrow> (WriteErrorJSON 400 ''invalid json payload'', s)
      | Some req \<Rightarrow>
     if \<not> valid_RegisterRequest (ap_valid A) req
     then (WriteErrorJSON 400 ''invalid email or password format'', s)
     else case on_db (Register (lib_bcrypt (ap_libs A)) req) s of
        (Inl err, s1) \<Rightarrow>
          if errors_Is err (UserErr ErrEmailRegistered)
          then (WriteErrorJSON 409 (Error (ap_driver_text A) (UserErr ErrEmailRegistered)), s1)
          else (something_wrong, s1)
      | (Inr createdUser, s1) \<Rightarrow> (WriteJSON 201 (write_User (ap_text A) createdUser), s1))"

text \<open>Neither an error of counting the failure nor one of the reset reaches the client.\<close>

definition recordLoginFailure :: "api \<Rightarrow> string \<Rightarrow> server \<Rightarrow> server" where
  "recordLoginFailure A key s = snd (on_redis (ll_RecordFailure (ap_limiter A) key) s)"

definition h_Login :: "api \<Rightarrow> handler" where
  "h_Login A rq s =
     (case decode_LoginRequest (rq_Body rq) of
        None \<Rightarrow> (WriteErrorJSON 400 ''invalid json payload'', s)
      | Some req \<Rightarrow>
     if \<not> valid_LoginRequest (ap_valid A) req then (WriteErrorJSON 400 ''invalid email or password'', s)
     else
       let rlKey = LoginKey (ClientIP (rq_RemoteAddr rq)); L = ap_libs A in
       case on_db (Login (lib_bcrypt L) (lib_jwt L) (lib_manager L) req) s of
         (Inl err, s1) \<Rightarrow>
           if errors_Is err (UserErr ErrLoginGeneric)
           then (WriteErrorJSON 401 (Error (ap_driver_text A) err), recordLoginFailure A rlKey s1)
           else (something_wrong, s1)
       | (Inr signedToken, s1) \<Rightarrow>
           (WriteJSON 200 (Some (JObject [(''token'', JString signedToken)])),
            snd (on_redis (ll_Reset (ap_limiter A) rlKey) s1)))"

text \<open>\<open>fmt.Fprintln(w, userID)\<close>: no content type is set, the status is the implicit 200.\<close>

definition h_Me :: "api \<Rightarrow> handler" where
  "h_Me A rq s =
     (case GetUserIDClaims rq of
        None \<Rightarrow> (something_wrong, s)
      | Some userID \<Rightarrow> (Response 200 [] (uuid_Text (ap_text A) userID @ [CHR 0x0A]), s))"

end
