(* ===== verification/Router.thy ===== *)
theory Router
  imports Handlers
begin

text \<open>
  The router (\<open>server/router.go\<close> and every \<open>RegisterRoutes\<close>), the health checks (\<open>health/handler.go\<close>)
  and the metrics middleware (\<open>metrics/middleware.go\<close>) around it. How chi matches a request against the
  table of routes is a parameter; tracing has no effect on a response.
\<close>

section \<open>Health\<close>

text \<open>\<open>ping_db\<close> and \<open>ping_redis\<close>: whether the database and Redis answer a ping.\<close>

definition LiveZ :: handler where
  "LiveZ rq s = (Response 200 [content_json] (''OK'' @ [CHR 0x0A]), s)"

definition ReadyZ :: "(server \<Rightarrow> bool) \<Rightarrow> (server \<Rightarrow> bool) \<Rightarrow> handler" where
  "ReadyZ ping_db ping_redis rq s =
     (if \<not> ping_db s then (WriteErrorJSON 503 ''DB is not ready'', s)
      else
        let redisStatus = (if ping_redis s then ''up'' else ''down'') in
        (WriteJSON 200 (Some (JObject [(''db'', JString ''up''), (''redis'', JString redisStatus)])), s))"

section \<open>Routes\<close>

text \<open>A route: its method, its pattern, and the handler behind the middleware of its group.\<close>

record route =
  rt_method :: string
  rt_pattern :: string
  rt_handler :: handler

definition at :: "string \<Rightarrow> string \<Rightarrow> handler \<Rightarrow> route" where
  "at m p h = \<lparr>rt_method = m, rt_pattern = p, rt_handler = h\<rparr>"

definition under :: "string \<Rightarrow> route list \<Rightarrow> route list" where
  "under prefix rs = map (\<lambda>r. r\<lparr>rt_pattern := prefix @ rt_pattern r\<rparr>) rs"

text \<open>\<open>r.Use(mw)\<close> in a group: the middleware wraps the handler of every route of the group.\<close>

definition use_in :: "(handler \<Rightarrow> handler) \<Rightarrow> route list \<Rightarrow> route list" where
  "use_in mw rs = map (\<lambda>r. r\<lparr>rt_handler := mw (rt_handler r)\<rparr>) rs"

definition order_routes :: "api \<Rightarrow> route list" where
  "order_routes A = use_in (AuthMiddleware A)
     [at ''GET'' ''/'' (h_GetOrders A),
      at ''GET'' ''/{id}'' (h_GetOrderByID A),
      at ''POST'' ''/{id}/cancel'' (h_CancelOrder A),
      at ''POST'' ''/'' (IdempotencyMiddleware (h_CreateOrder A))]"

definition payment_routes :: "api \<Rightarrow> route list" where
  "payment_routes A = use_in (AuthMiddleware A)
     [at ''POST'' ''/{id}/pay'' (h_Pay A),
      at ''GET'' ''/{id}/payment'' (h_GetPaymentByOrderID A)]"

definition product_routes :: "api \<Rightarrow> route list" where
  "product_routes A = under ''/products''
     [at ''GET'' ''/'' (h_ListProducts A),
      at ''POST'' ''/'' (h_CreateProduct A),
      at ''GET'' ''/{id}'' (h_GetProductByID A),
      at ''PATCH'' ''/{id}'' (h_UpdateProduct A),
      at ''DELETE'' ''/{id}'' (h_DeleteProduct A)]"

definition user_routes :: "api \<Rightarrow> route list" where
  "user_routes A = under ''/users''
     ([at ''POST'' ''/register'' (h_Register A),
       at ''POST'' ''/login'' (LoginRateLimiter A (h_Login A))] @
      use_in (AuthMiddleware A) [at ''GET'' ''/me'' (h_Me A)])"

definition health_routes :: "(server \<Rightarrow> bool) \<Rightarrow> (server \<Rightarrow> bool) \<Rightarrow> route list" where
  "health_routes ping_db ping_redis =
     [at ''GET'' ''/livez'' LiveZ, at ''GET'' ''/readyz'' (ReadyZ ping_db ping_redis)]"

text \<open>
  chi: which route, if any, serves a method and a path, with the URL parameters and the pattern it
  reports; and its answer when none does.
\<close>

record chi_match =
  cm_route :: "nat option"
  cm_pattern :: string
  cm_params :: "string \<Rightarrow> string"

record chi =
  chi_match :: "(string \<times> string) list \<Rightarrow> string \<Rightarrow> string \<Rightarrow> chi_match"
  chi_unmatched :: "string \<Rightarrow> string \<Rightarrow> response"
  chi_ping_db :: "server \<Rightarrow> bool"
  chi_ping_redis :: "server \<Rightarrow> bool"

definition NewRouter :: "api \<Rightarrow> chi \<Rightarrow> route list" where
  "NewRouter A C = health_routes (chi_ping_db C) (chi_ping_redis C) @
     under ''/api'' (user_routes A @ product_routes A @ under ''/orders'' (order_routes A @ payment_routes A))"

definition matched :: "api \<Rightarrow> chi \<Rightarrow> string \<Rightarrow> string \<Rightarrow> chi_match" where
  "matched A C method path = chi_match C (map (\<lambda>r. (rt_method r, rt_pattern r)) (NewRouter A C)) method path"

definition ServeHTTP :: "api \<Rightarrow> chi \<Rightarrow> string \<Rightarrow> string \<Rightarrow> handler" where
  "ServeHTTP A C method path rq s =
     (let m = matched A C method path in
      case cm_route m of
        Some i \<Rightarrow>
          if i < length (NewRouter A C) then rt_handler (NewRouter A C ! i) (rq\<lparr>rq_Params := cm_params m\<rparr>) s
          else (chi_unmatched C method path, s)
      | None \<Rightarrow> (chi_unmatched C method path, s))"

section \<open>Metrics\<close>

text \<open>The counters by their labels, the observed latencies, and the gauge.\<close>

record metrics =
  requestsTotal :: "string \<times> string \<times> string \<Rightarrow> nat"
  requestDuration :: "string \<times> string \<Rightarrow> time list"
  errorsTotal :: "string \<times> string \<times> string \<Rightarrow> nat"
  inFlight :: int

definition routeUnmatched :: string where
  "routeUnmatched = ''unmatched''"

definition routePattern :: "string \<Rightarrow> string" where
  "routePattern pattern = (if pattern = [] then routeUnmatched else pattern)"

definition isProbe :: "string \<Rightarrow> bool" where
  "isProbe path \<longleftrightarrow> path = ''/livez'' \<or> path = ''/readyz''"

definition Inc :: "'l \<Rightarrow> ('l \<Rightarrow> nat) \<Rightarrow> 'l \<Rightarrow> nat" where
  "Inc l f = f(l := Suc (f l))"

text \<open>A panic leaves through the deferred \<open>Dec\<close> and is not counted; a status never written is 200.\<close>

definition MetricsMiddleware ::
  "string \<Rightarrow> string \<Rightarrow> string \<Rightarrow> handler \<Rightarrow> http_request \<Rightarrow> server \<Rightarrow> metrics \<Rightarrow> response \<times> server \<times> metrics" where
  "MetricsMiddleware pattern method path next rq s m =
     (if isProbe path then (let (r, s') = next rq s in (r, s', m))
      else
        let m1 = m\<lparr>inFlight := inFlight m + 1\<rparr>; (r, s') = next rq s in
        case r of
          Panicked \<Rightarrow> (r, s', m1\<lparr>inFlight := inFlight m1 - 1\<rparr>)
        | Response written hs b \<Rightarrow>
            let elapsed = app_now s' - app_now s;
                route = routePattern pattern;
                status = (if written = 0 then 200 else written);
                m2 = m1\<lparr>requestsTotal := Inc (route, method, Itoa (word_of_nat status)) (requestsTotal m1),
                        requestDuration := (requestDuration m1)
                          ((route, method) := requestDuration m1 (route, method) @ [elapsed])\<rparr>;
                m3 = (if 500 \<le> status then m2\<lparr>errorsTotal := Inc (route, method, ''server'') (errorsTotal m2)\<rparr>
                      else if 400 \<le> status then m2\<lparr>errorsTotal := Inc (route, method, ''client'') (errorsTotal m2)\<rparr>
                      else m2)
            in (r, s', m3\<lparr>inFlight := inFlight m3 - 1\<rparr>))"

definition HandleRequest ::
  "api \<Rightarrow> chi \<Rightarrow> string \<Rightarrow> string \<Rightarrow> http_request \<Rightarrow> server \<Rightarrow> metrics \<Rightarrow> response \<times> server \<times> metrics" where
  "HandleRequest A C method path =
     MetricsMiddleware (cm_pattern (matched A C method path)) method path (ServeHTTP A C method path)"

end
