(* ===== verification/Server.thy ===== *)
theory Server
  imports Router
begin

text \<open>
  The server as a whole: what a request over HTTP does to the database is what the services of
  \<^theory_text>\<open>Order_System\<close> do, who may do it, and what the client is told.
\<close>

section \<open>Requests are service steps\<close>

text \<open>
  \<open>acts_for who r\<close>: the service request \<open>r\<close> touches orders on behalf of \<open>who\<close> only.
  \<open>steps A who s s'\<close>: the database of \<open>s'\<close> is reached from that of \<open>s\<close> by such requests.
\<close>

fun acts_for :: "uuid option \<Rightarrow> request \<Rightarrow> bool" where
  "acts_for who (PlaceOrder u items) \<longleftrightarrow> who = Some u"
| "acts_for who (CancelOrderOf u oid) \<longleftrightarrow> who = Some u"
| "acts_for who (PayOrder u oid) \<longleftrightarrow> who = Some u"
| "acts_for who r \<longleftrightarrow> True"

definition steps :: "api \<Rightarrow> uuid option \<Rightarrow> server \<Rightarrow> server \<Rightarrow> bool" where
  "steps A who s s' \<longleftrightarrow> reachable (ap_libs A) (acts_for who) (sv_db s) (sv_db s')"

lemma reachable_trans: "reachable L P w1 w2 \<Longrightarrow> reachable L P w0 w1 \<Longrightarrow> reachable L P w0 w2"
  by (induction rule: reachable.induct) (auto intro: reachable.serve)

lemma reachable_mono: "reachable L P w0 w \<Longrightarrow> (\<And>r. P r \<Longrightarrow> Q r) \<Longrightarrow> reachable L Q w0 w"
  by (induction rule: reachable.induct) (auto intro: reachable.intros)

lemma steps_refl [simp]: "steps A who s s"
  by (simp add: steps_def reachable.start)

lemma steps_trans: "steps A who s s1 \<Longrightarrow> steps A who s1 s2 \<Longrightarrow> steps A who s s2"
  unfolding steps_def by (rule reachable_trans)

lemma acts_for_nobody: "acts_for None r \<Longrightarrow> acts_for who r"
  by (cases r) simp_all

lemma steps_nobody: "steps A None s s' \<Longrightarrow> steps A who s s'"
  unfolding steps_def by (erule reachable_mono) (rule acts_for_nobody)

lemma steps_db:
  "on_db f s = (r, s1) \<Longrightarrow> snd (f (sv_db s)) = serve (ap_libs A) req (sv_db s) \<Longrightarrow> acts_for who req \<Longrightarrow>
   steps A who s s1"
proof -
  assume "on_db f s = (r, s1)" and f: "snd (f (sv_db s)) = serve (ap_libs A) req (sv_db s)" and who: "acts_for who req"
  then have "sv_db s1 = serve (ap_libs A) req (sv_db s)" by (auto simp: on_db_def split: prod.splits)
  then show ?thesis using reachable.serve [OF reachable.start, where P = "acts_for who" and r = req] who
    by (simp add: steps_def)
qed

lemma steps_orders:
  "on_db (CreateOrder u items) s = (r1, s1) \<Longrightarrow> steps A (Some u) s s1"
  "on_db (CancelOrder u oid) s = (r2, s1) \<Longrightarrow> steps A (Some u) s s1"
  "on_db (Pay u oid) s = (r3, s1) \<Longrightarrow> steps A (Some u) s s1"
  by (rule steps_db, assumption, rule serve.simps [symmetric], simp)+

lemma steps_service:
  "on_db (svc_GetOrders order_repository u) s = (r4, s1) \<Longrightarrow> steps A who s s1"
  "on_db (svc_GetOrderByID order_repository u oid) s = (r5, s1) \<Longrightarrow> steps A who s s1"
  "on_db (GetPaymentByOrderID u oid) s = (r6, s1) \<Longrightarrow> steps A who s s1"
  "on_db (CheckAndClaim k h u) s = (r7, s1) \<Longrightarrow> steps A who s s1"
  "on_db (SaveResponse k u resp) s = (r8, s1) \<Longrightarrow> steps A who s s1"
  "on_db (ListProducts p l) s = (r9, s1) \<Longrightarrow> steps A who s s1"
  "on_db (GetProductByID pid) s = (r10, s1) \<Longrightarrow> steps A who s s1"
  "on_db (CreateProduct creq) s = (r11, s1) \<Longrightarrow> steps A who s s1"
  "on_db (UpdateProduct pid ureq) s = (r12, s1) \<Longrightarrow> steps A who s s1"
  "on_db (DeleteProduct pid) s = (r13, s1) \<Longrightarrow> steps A who s s1"
  "on_db (Register (lib_bcrypt (ap_libs A)) rreq) s = (r14, s1) \<Longrightarrow> steps A who s s1"
  "on_db (Login (lib_bcrypt (ap_libs A)) (lib_jwt (ap_libs A)) (lib_manager (ap_libs A)) lreq) s = (r15, s1) \<Longrightarrow>
     steps A who s s1"
  by (rule steps_db, assumption, rule serve.simps [symmetric], simp)+

lemma steps_redis: "on_redis f s = (r, s1) \<Longrightarrow> steps A who s s1"
  by (auto simp: on_redis_def steps_def reachable.start split: prod.splits)

lemma steps_then:
  "steps A who s s1 \<Longrightarrow> steps A who s (snd (on_db (SaveResponse k u resp) s1))"
  "steps A who s s1 \<Longrightarrow> steps A who s (snd (on_redis f s1))"
  by (erule steps_trans, rule steps_service(5) steps_redis, rule prod.collapse [symmetric])+

text \<open>
  A handler whose effect on the database is made of service operations, on orders only for the user
  middleware has put in the context.
\<close>

definition serves :: "api \<Rightarrow> handler \<Rightarrow> bool" where
  "serves A h \<longleftrightarrow> (\<forall>rq s. steps A (rq_userID rq) s (snd (h rq s)))"

lemma serves_CreateOrder: "serves A (h_CreateOrder A)"
  unfolding serves_def h_CreateOrder_def
  by (auto simp: Let_def GetUserIDClaims_def intro: steps_orders(1) steps_then split: option.split prod.split sum.split)

lemma serves_reads:
  "serves A (h_GetOrders A)" "serves A (h_GetOrderByID A)" "serves A (h_GetPaymentByOrderID A)"
  "serves A (h_ListProducts A)" "serves A (h_GetProductByID A)" "serves A (h_Me A)"
  unfolding serves_def h_GetOrders_def h_GetOrderByID_def h_GetPaymentByOrderID_def h_ListProducts_def
    h_GetProductByID_def h_Me_def
  by (auto intro: steps_service split: option.split prod.split sum.split)

lemma serves_writes:
  "serves A (h_CancelOrder A)" "serves A (h_Pay A)" "serves A (h_CreateProduct A)"
  "serves A (h_UpdateProduct A)" "serves A (h_DeleteProduct A)" "serves A (h_Register A)"
  unfolding serves_def h_CancelOrder_def h_Pay_def h_CreateProduct_def h_UpdateProduct_def
    h_DeleteProduct_def h_Register_def
  by (auto simp: GetUserIDClaims_def intro: steps_service steps_orders split: option.split prod.split sum.split)

lemma serves_Login: "serves A (h_Login A)"
  unfolding serves_def h_Login_def recordLoginFailure_def
  by (auto simp: Let_def intro: steps_service(12) steps_then split: option.split prod.split sum.split)

lemma serves_middleware:
  "serves A h \<Longrightarrow> serves A (LoginRateLimiter A h)"
  "serves A h \<Longrightarrow> serves A (IdempotencyMiddleware h)"
proof -
  assume h: "serves A h"
  have "steps A (rq_userID rq) s (snd (h rq s1))" if "on_redis f s = (r, s1)"
    for s s1 rq r and f :: "(redis, 'b) redis_op"
    using steps_trans [OF steps_redis [OF that]] h by (simp add: serves_def)
  then show "serves A (LoginRateLimiter A h)"
    by (auto simp: serves_def LoginRateLimiter_def intro: steps_redis split: prod.split sum.split)
  have "steps A (rq_userID rq) s (snd (h (rq\<lparr>rq_idempotencyHeader := i\<rparr>) s1))"
    if "on_db (CheckAndClaim k x u) s = (r, s1)" for s s1 rq r k x u i
    using steps_trans [OF steps_service(4) [OF that]]
      h [unfolded serves_def, rule_format, of "rq\<lparr>rq_idempotencyHeader := i\<rparr>" s1] by simp
  then show "serves A (IdempotencyMiddleware h)"
    by (auto simp: serves_def IdempotencyMiddleware_def Let_def intro: steps_service(4)
        split: prod.split sum.split option.split IdempotencyKeyStatus.split)
qed

text \<open>The user a request authenticates as, and what a route may do for it.\<close>

definition caller :: "api \<Rightarrow> http_request \<Rightarrow> server \<Rightarrow> uuid option" where
  "caller A rq s =
     (case Auth (lib_jwt (ap_libs A)) (lib_manager (ap_libs A)) (app_now s) (rq_Header rq ''Authorization'') of
        Authenticated u \<Rightarrow> Some u | _ \<Rightarrow> None)"

lemma caller_params [simp]: "caller A (rq\<lparr>rq_Params := ps\<rparr>) s = caller A rq s"
  by (simp add: caller_def)

definition serves_caller :: "api \<Rightarrow> handler \<Rightarrow> bool" where
  "serves_caller A h \<longleftrightarrow> (\<forall>rq s. steps A (caller A rq s) s (snd (h rq s)) \<or> steps A (rq_userID rq) s (snd (h rq s)))"

lemma serves_caller_Auth: "serves A h \<Longrightarrow> serves_caller A (AuthMiddleware A h)"
  unfolding serves_caller_def
proof (intro allI)
  fix rq s
  assume h: "serves A h"
  have "steps A (Some u) s (snd (h (rq\<lparr>rq_userID := Some u\<rparr>) s))" for u
    using h [unfolded serves_def, rule_format, of "rq\<lparr>rq_userID := Some u\<rparr>"] by simp
  then show "steps A (caller A rq s) s (snd (AuthMiddleware A h rq s)) \<or>
      steps A (rq_userID rq) s (snd (AuthMiddleware A h rq s))"
    by (auto simp: AuthMiddleware_def caller_def split: auth_result.split)
qed

lemma serves_caller_open: "serves A h \<Longrightarrow> serves_caller A h"
  by (simp add: serves_caller_def serves_def)

lemma serves_health: "serves A LiveZ" "serves A (ReadyZ pd pr)"
  by (simp_all add: serves_def LiveZ_def ReadyZ_def Let_def)

lemmas route_defs = NewRouter_def health_routes_def user_routes_def product_routes_def order_routes_def
  payment_routes_def under_def use_in_def at_def

lemma serves_route: "r \<in> set (NewRouter A C) \<Longrightarrow> serves_caller A (rt_handler r)"
  by (auto simp: route_defs serves_health serves_middleware serves_CreateOrder serves_reads serves_writes serves_Login
      serves_caller_Auth serves_caller_open)

lemma ServeHTTP_cases:
  obtains "ServeHTTP A C verb path rq s = (chi_unmatched C verb path, s)"
  | r ps where "r \<in> set (NewRouter A C)" "ServeHTTP A C verb path rq s = rt_handler r (rq\<lparr>rq_Params := ps\<rparr>) s"
    "\<exists>i. cm_route (matched A C verb path) = Some i \<and> i < length (NewRouter A C) \<and> r = NewRouter A C ! i"
proof (cases "cm_route (matched A C verb path)")
  case None
  then show thesis by (intro that(1)) (simp add: ServeHTTP_def Let_def)
next
  case (Some i)
  show thesis
  proof (cases "i < length (NewRouter A C)")
    case True
    with Some show thesis
      by (intro that(2) [of "NewRouter A C ! i" "cm_params (matched A C verb path)"])
        (auto simp: ServeHTTP_def Let_def)
  qed (use Some that(1) in \<open>simp add: ServeHTTP_def Let_def\<close>)
qed

lemma ServeHTTP_steps:
  "steps A (caller A rq s) s (snd (ServeHTTP A C verb path rq s)) \<or>
   steps A (rq_userID rq) s (snd (ServeHTTP A C verb path rq s))"
proof (cases rule: ServeHTTP_cases [of A C verb path rq s])
  case (2 r ps)
  from serves_route [OF 2(1)] have "steps A (caller A (rq\<lparr>rq_Params := ps\<rparr>) s) s (snd (rt_handler r (rq\<lparr>rq_Params := ps\<rparr>) s)) \<or>
      steps A (rq_userID (rq\<lparr>rq_Params := ps\<rparr>)) s (snd (rt_handler r (rq\<lparr>rq_Params := ps\<rparr>) s))"
    unfolding serves_caller_def by blast
  with 2(2) show ?thesis by simp
qed simp

end
