(* ===== verification/Answers.thy ===== *)
theory Answers
  imports Server
begin

text \<open>
  The type of what the API answers: \<open>ResponseJson\<close> of \<open>httpx/response.go\<close> with its two shapes, and the
  routes that write something else. Every handler and every middleware answers within it.
\<close>

section \<open>The shapes of an answer\<close>

text \<open>
  A success carries data and no error, a failure an error text and no data, under a status that says the
  same. Data that cannot be marshalled leaves the body empty. The response of an order that was placed
  before is a stored one, as it is in \<open>idempotency_keys\<close>. A deletion has no body, \<open>/me\<close> and \<open>/livez\<close>
  answer a line of text.
\<close>

inductive answer :: "text_lib \<Rightarrow> tables \<Rightarrow> response \<Rightarrow> bool" for L t where
  success: "status \<in> {200, 201} \<Longrightarrow>
    answer L t (Response status [content_json] (print_json (ResponseJson True (Some d) []) @ [CHR 0x0A]))"
| unmarshalled: "status \<in> {200, 201} \<Longrightarrow> answer L t (Response status [content_json] [])"
| failure: "status \<in> {400, 401, 404, 409, 429, 500, 503} \<Longrightarrow> err \<noteq> [] \<Longrightarrow> content_json \<in> set hs \<Longrightarrow>
    answer L t (Response status hs (print_json (ResponseJson False None err) @ [CHR 0x0A]))"
| replayed: "row \<in> set (t_keys t) \<Longrightarrow> k_response row = Some b \<Longrightarrow> answer L t (Response 201 [content_json] b)"
| deleted: "answer L t (Response 204 [] [])"
| me: "answer L t (Response 200 [] (uuid_Text L u @ [CHR 0x0A]))"
| live: "answer L t (Response 200 [content_json] (''OK'' @ [CHR 0x0A]))"

inductive_simps answer_Panicked [simp]: "answer L t Panicked"

text \<open>A handler that answers within the type, whatever the request and the state.\<close>

definition typed :: "text_lib \<Rightarrow> handler \<Rightarrow> bool" where
  "typed L h \<longleftrightarrow> (\<forall>rq s. answer L (tables (sv_db (snd (h rq s)))) (fst (h rq s)))"

lemma answer_WriteJSON [intro]: "status \<in> {200, 201} \<Longrightarrow> answer L t (WriteJSON status d)"
  by (cases d) (auto simp: WriteJSON_def intro: answer.intros)

lemma answer_WriteErrorJSON [intro]:
  "status \<in> {400, 401, 404, 409, 429, 500, 503} \<Longrightarrow> err \<noteq> [] \<Longrightarrow> answer L t (WriteErrorJSON status err)"
  unfolding WriteErrorJSON_def by (rule answer.failure) simp_all

lemma answer_fixed [simp, intro]: "answer L t something_wrong" "answer L t unauthorized"
  unfolding something_wrong_def unauthorized_def by (rule answer_WriteErrorJSON; simp)+

section \<open>The texts of errors\<close>

text \<open>An error that is one of the packages' own has a text, wrapped or not.\<close>

fun own_error :: "go_error \<Rightarrow> bool" where
  "own_error (ProductErr e) \<longleftrightarrow> True"
| "own_error (OrderErr e) \<longleftrightarrow> True"
| "own_error (PaymentErr e) \<longleftrightarrow> True"
| "own_error (IdempotencyErr e) \<longleftrightarrow> True"
| "own_error (UserErr e) \<longleftrightarrow> True"
| "own_error e \<longleftrightarrow> False"

lemma error_texts [simp]:
  "Error T (ProductErr e1) \<noteq> []" "Error T (OrderErr e2) \<noteq> []" "Error T (PaymentErr e3) \<noteq> []"
  "Error T (IdempotencyErr e4) \<noteq> []" "Error T (UserErr e5) \<noteq> []"
  by ((cases e1; simp), (cases e2; simp), (cases e3; simp), (cases e4; simp), (cases e5; simp))

lemma own_error_text: "own_error e \<Longrightarrow> Error T e \<noteq> []"
  by (cases e) simp_all

lemma errors_Is_text: "errors_Is err target \<Longrightarrow> own_error target \<Longrightarrow> Error T err \<noteq> []"
  by (induction err target rule: errors_Is.induct) (auto dest: own_error_text)

lemma answer_error_response [simp]:
  "\<forall>(target, status) \<in> set es. own_error target \<and> status \<in> {400, 401, 404, 409, 429, 500, 503} \<Longrightarrow>
   answer L t (error_response T es err)"
proof (induction es)
  case (Cons e es)
  then show ?case
    by (cases e) (auto intro!: answer_WriteErrorJSON dest: errors_Is_text)
qed simp

declare error_response.simps [simp del]

section \<open>The handlers\<close>

lemmas error_tables = create_order_errors_def cancel_order_errors_def pay_errors_def

lemma typed_orders:
  "typed L (h_CreateOrder A)" "typed L (h_GetOrders A)" "typed L (h_GetOrderByID A)" "typed L (h_CancelOrder A)"
  unfolding typed_def h_CreateOrder_def h_GetOrders_def h_GetOrderByID_def h_CancelOrder_def error_tables
  by (auto simp: Let_def split: option.split prod.split sum.split)

lemma typed_payments: "typed L (h_Pay A)" "typed L (h_GetPaymentByOrderID A)"
  unfolding typed_def h_Pay_def h_GetPaymentByOrderID_def error_tables
  by (auto split: option.split prod.split sum.split)

lemma typed_products:
  "typed L (h_ListProducts A)" "typed L (h_GetProductByID A)" "typed L (h_CreateProduct A)"
  "typed L (h_UpdateProduct A)" "typed L (h_DeleteProduct A)"
  unfolding typed_def h_ListProducts_def h_GetProductByID_def h_CreateProduct_def h_UpdateProduct_def h_DeleteProduct_def
  by (auto intro: answer.deleted split: option.split prod.split sum.split)

lemma typed_users:
  "typed L (h_Register A)" "typed L (h_Login A)" "typed (ap_text A) (h_Me A)"
  unfolding typed_def h_Register_def h_Login_def h_Me_def
  by (auto simp: Let_def intro: answer.me dest: errors_Is_text [where target = "UserErr ErrLoginGeneric"]
      split: option.split prod.split sum.split)

lemma typed_health: "typed L LiveZ" "typed L (ReadyZ pd pr)"
  unfolding typed_def LiveZ_def ReadyZ_def by (auto simp: Let_def intro: answer.live [simplified])

section \<open>The middleware\<close>

lemma typed_LoginRateLimiter: "typed L h \<Longrightarrow> typed L (LoginRateLimiter A h)"
  unfolding typed_def LoginRateLimiter_def by (auto split: prod.split sum.split)

text \<open>A response that is replayed is one the table of keys holds.\<close>

lemma replayed_stored:
  assumes "CheckAndClaim key hash uid w = (Inr res, w')" and "Result_Status res = Replayed"
  shows "\<exists>row b. row \<in> set (t_keys (tables w')) \<and> k_response row = Some b \<and> Result_Response res = Some b"
proof -
  from assms obtain w1 k where get: "repo_GetIdempotencyByUserID key uid w1 = (Inr k, w')"
    and k: "Key_Response k \<noteq> None" "Result_Response res = Key_Response k"
    by (auto simp: CheckAndClaim_def svc_CheckAndClaim_def idempotency_repository_def and_then_def ret_def
        split: prod.splits sum.splits if_splits)
  then obtain rs row where rs: "mset rs = mset (getIdempotencyByUserID key uid (tables w1))" "one_row rs = Inr row"
    "tables w' = tables w1" and row: "Key_Response k = k_response row"
    by (auto simp: repo_GetIdempotencyByUserID_def sql_GetIdempotencyByUserID_def op_simps keyFromSqlc_def
        dest!: query_rows_Inr)
  from rs(2) have "row \<in> set rs" by (auto simp: one_row_def split: list.splits)
  with mset_eq_setD [OF rs(1)] rs(3) have "row \<in> set (t_keys (tables w'))" by (simp add: getIdempotencyByUserID_def)
  with k row show ?thesis by auto
qed

lemma typed_IdempotencyMiddleware: "typed L h \<Longrightarrow> typed L (IdempotencyMiddleware h)"
  unfolding typed_def IdempotencyMiddleware_def
  by (auto simp: Let_def on_db_def intro: answer.replayed dest!: replayed_stored
      split: prod.split sum.split option.split IdempotencyKeyStatus.split)

definition typed_unless_nil :: "api \<Rightarrow> handler \<Rightarrow> bool" where
  "typed_unless_nil A h \<longleftrightarrow> (\<forall>rq s.
     answer (ap_text A) (tables (sv_db (snd (h rq s)))) (fst (h rq s)) \<or>
     fst (h rq s) = Panicked \<and>
     Auth (lib_jwt (ap_libs A)) (lib_manager (ap_libs A)) (app_now s) (rq_Header rq ''Authorization'') = NilDereference)"

lemma typed_open: "typed (ap_text A) h \<Longrightarrow> typed_unless_nil A h"
  by (simp add: typed_def typed_unless_nil_def)

lemma typed_AuthMiddleware: "typed (ap_text A) h \<Longrightarrow> typed_unless_nil A (AuthMiddleware A h)"
  unfolding typed_def typed_unless_nil_def AuthMiddleware_def
  by (auto intro: answer.failure [simplified append.simps] split: auth_result.split)

lemma typed_route: "r \<in> set (NewRouter A C) \<Longrightarrow> typed_unless_nil A (rt_handler r)"
  by (auto simp: route_defs typed_health typed_orders typed_payments typed_products typed_users
      typed_LoginRateLimiter typed_IdempotencyMiddleware typed_AuthMiddleware typed_open)

section \<open>Properties\<close>

text \<open>
  C26. Every answer of the API has a type: JSON data under 200 or 201 with \<open>success\<close> true, a JSON error text
  under a status from 400 on with \<open>success\<close> false, a stored response replayed, or one of the three answers
  that are no JSON documents of that kind (\<open>/livez\<close>, \<open>/me\<close>, a deletion). Only a request no route matches
  is answered otherwise, by chi; and only a token the JWT library calls invalid without an error makes
  a handler panic, which its laws exclude.
\<close>

theorem answers_typed:
  "(let (r, s') = ServeHTTP A C verb path rq s in
      r = chi_unmatched C verb path \<or> answer (ap_text A) (tables (sv_db s')) r \<or>
      r = Panicked \<and>
      Auth (lib_jwt (ap_libs A)) (lib_manager (ap_libs A)) (app_now s) (rq_Header rq ''Authorization'') = NilDereference)"
proof (cases rule: ServeHTTP_cases [of A C verb path rq s])
  case (2 r ps)
  from typed_route [OF 2(1), unfolded typed_unless_nil_def, rule_format, of "rq\<lparr>rq_Params := ps\<rparr>" s]
  show ?thesis by (simp add: 2(2) case_prod_beta)
qed simp

end
