(* ===== verification/Sample_Http.thy ===== *)
theory Sample_Http
  imports Router
begin

text \<open>
  A small server, at which the properties of requests are evaluated: the database of \<^theory_text>\<open>Sample\<close>,
  a Redis server that works, a router that serves paths equal to a pattern, and requests to it.
\<close>

definition sample_valid :: validator where
  "sample_valid tag f =
     (case f of
        FString s \<Rightarrow> (if tag = ''required,min=8'' then 8 \<le> length s else s \<noteq> [])
      | FInt n \<Rightarrow> 0 < sint n
      | FIntPtr p \<Rightarrow> (case p of None \<Rightarrow> True | Some n \<Rightarrow> 0 < sint n)
      | FSlice n \<Rightarrow> 1 \<le> n)"

definition sample_api :: api where
  "sample_api = \<lparr>ap_libs = sample_libs, ap_text = sample_text, ap_valid = sample_valid,
     ap_limiter = limiter_of sample_limiter, ap_driver_text = (\<lambda>e. ''driver'')\<rparr>"

definition sample_chi :: chi where
  "sample_chi = \<lparr>
     chi_match = (\<lambda>table method path.
       (case find (\<lambda>i. table ! i = (method, path)) [0..<length table] of
          None \<Rightarrow> \<lparr>cm_route = None, cm_pattern = [], cm_params = (\<lambda>p. [])\<rparr>
        | Some i \<Rightarrow> \<lparr>cm_route = Some i, cm_pattern = path, cm_params = (\<lambda>p. ''100'')\<rparr>)),
     chi_unmatched = (\<lambda>method path. Response 404 [] ''404 page not found''),
     chi_ping_db = (\<lambda>s. True), chi_ping_redis = (\<lambda>s. True)\<rparr>"

definition sample_server :: server where
  "sample_server = \<lparr>sv_db = sample_world all_works 0 sample_tables, sv_redis = sample_redis (\<lambda>n. int n) Map.empty\<rparr>"

text \<open>A request of user 1, whose token is valid until 9, with a key; it orders \<open>items\<close>.\<close>

definition sample_post :: "CreateOrderItemRequest list \<Rightarrow> http_request" where
  "sample_post items = \<lparr>
     rq_Header = (\<lambda>h. if h = ''Authorization'' then ''Bearer 1.0.9.key''
       else if h = ''Idempotency-Key'' then ''k'' else []),
     rq_RawQuery = [], rq_Body = \<lparr>bd_bytes = print_json (order_json sample_text items), bd_fails = False\<rparr>,
     rq_RemoteAddr = ''10.0.0.1:99'', rq_Params = (\<lambda>p. []), rq_userID = None, rq_idempotencyHeader = None\<rparr>"

lemma sample_api_simps [simp]:
  "ap_libs sample_api = sample_libs" "ap_text sample_api = sample_text" "ap_valid sample_api = sample_valid"
  "ap_limiter sample_api = limiter_of sample_limiter" "lib_jwt sample_libs = sample_jwt"
  "lib_bcrypt sample_libs = sample_bcrypt" "lib_manager sample_libs = sample_manager"
  by (simp_all add: sample_api_def sample_libs_def)

lemma sample_server_simps [simp]:
  "sv_db sample_server = sample_world all_works 0 sample_tables"
  "sv_redis sample_server = sample_redis (\<lambda>n. int n) Map.empty"
  by (simp_all add: sample_server_def)

lemma sample_post_simps [simp]:
  "rq_Header (sample_post items) ''Authorization'' = ''Bearer 1.0.9.key''"
  "rq_Header (sample_post items) ''Idempotency-Key'' = ''k''"
  "bd_fails (rq_Body (sample_post items)) = False"
  by (simp_all add: sample_post_def)

lemma sample_valid_laws: "validator_laws sample_valid"
  by (simp add: validator_laws_def sample_valid_def)

lemma sample_post_decoded: "decode_CreateOrderRequest sample_text (rq_Body (sample_post items)) = Some items"
  using decode_order_json [OF sample_text_laws, of "[]" items False]
  by (simp add: sample_post_def number_ends_def)

lemma sample_authenticated:
  assumes "0 \<le> t" "t < 9"
  shows "Auth sample_jwt sample_manager t ''Bearer 1.0.9.key'' = Authenticated 1"
proof -
  have "TrimSpace (TrimPrefix ''Bearer 1.0.9.key'' ''Bearer'') = ''1.0.9.key''"
    using bearer_token [of "''1.0.9.key''"] by (simp add: plain_def)
  moreover have "carried_claims sample_jwt ''1.0.9.key'' =
      Some \<lparr>uc_UserID = 1, uc_Subject = [], uc_IssuedAt = 0, uc_ExpiresAt = Some 9\<rparr>"
    "carried_alg sample_jwt ''1.0.9.key'' = Some HS256" "signature_ok sample_jwt HS256 ''key'' ''1.0.9.key''"
    by code_simp+
  ultimately show ?thesis
    using assms unfolding Auth_acceptable [OF sample_jwt_laws]
    by (simp add: acceptable_def key_for_def sample_manager_def)
qed

text \<open>A claim of the free key is new, whatever the hash.\<close>

lemma sample_claim:
  "fst (CheckAndClaim ''k'' h 1 (sample_world all_works 0 sample_tables)) = Inr claim_new"
  by code_simp

section \<open>Its answer\<close>

lemma write_time_soon: "0 \<le> t \<Longrightarrow> t < 86400000000 \<Longrightarrow> write_time sample_text t \<noteq> None"
proof -
  assume "0 \<le> t" "t < 86400000000"
  then have "t div 86400000000 = 0" by simp
  moreover have "civil 0 = (1970, 1, 1)" by code_simp
  ultimately show ?thesis by (simp add: write_time_def time_text_def sample_text_def Let_def)
qed

lemma write_fields_Some: "\<forall>f \<in> set fs. snd f \<noteq> None \<Longrightarrow> \<exists>ms. write_fields fs = Some ms"
proof (induction fs)
  case (Cons f fs)
  moreover obtain k v where "f = (k, v)" by (cases f)
  ultimately show ?case by auto
qed simp

lemma write_struct_Some: "\<forall>f \<in> set fs. snd f \<noteq> None \<Longrightarrow> write_struct fs \<noteq> None"
  using write_fields_Some [of fs] by (auto simp: write_struct_def)

lemma those_None: "those xs = None \<longleftrightarrow> None \<in> set xs"
  by (induction xs) (auto split: option.splits)

definition soon :: "time list \<Rightarrow> bool" where
  "soon ts = list_all (\<lambda>t. 0 \<le> t \<and> t < 86400000000) ts"

lemma soon_Cons [simp]: "soon (t # ts) \<longleftrightarrow> (0 \<le> t \<and> t < 86400000000) \<and> soon ts" "soon []"
  by (simp_all add: soon_def)

lemma write_CreateOrderResponse_soon:
  assumes "soon [Order_CreatedAt ord, Order_UpdatedAt ord]" "soon [Payment_CreatedAt pay, Payment_UpdatedAt pay]"
    and "\<forall>it \<in> set its. soon [OrderItem_CreatedAt it, OrderItem_UpdatedAt it]"
  shows "write_CreateOrderResponse sample_text (ord, its, pay) \<noteq> None"
proof -
  note writes = write_string_def write_int_def write_uuid_def
  have times: "write_time sample_text (Order_CreatedAt ord) \<noteq> None" "write_time sample_text (Order_UpdatedAt ord) \<noteq> None"
    "write_time sample_text (Payment_CreatedAt pay) \<noteq> None" "write_time sample_text (Payment_UpdatedAt pay) \<noteq> None"
    using assms(1,2) by (simp_all add: write_time_soon del: not_None_eq)
  then have "write_Order sample_text ord \<noteq> None"
    unfolding write_Order_def by (intro write_struct_Some) (simp add: writes)
  moreover from times have "write_Payment sample_text pay \<noteq> None"
    unfolding write_Payment_def by (intro write_struct_Some) (auto simp: writes split: option.splits)
  moreover have "write_OrderItem sample_text it \<noteq> None" if "it \<in> set its" for it
    unfolding write_OrderItem_def
    by (rule write_struct_Some) (use bspec [OF assms(3) that] write_time_soon in \<open>auto simp: writes\<close>)
  then have "None \<notin> write_OrderItem sample_text ` set its" by (metis imageE)
  then have "write_list (write_OrderItem sample_text) its \<noteq> None" by (simp add: write_list_def those_None)
  ultimately show ?thesis
    unfolding write_CreateOrderResponse_def prod.case by (intro write_struct_Some) simp
qed

text \<open>Claiming the free key and placing the order succeed, whatever the hash of the body.\<close>

lemma sample_created:
  obtains res w where
    "CreateOrder 1 sample_items (snd (CheckAndClaim ''k'' h 1 (sample_world all_works 0 sample_tables))) = (Inr res, w)"
    "write_CreateOrderResponse sample_text res \<noteq> None"
proof -
  let ?w = "snd (CheckAndClaim ''k'' h 1 (sample_world all_works 0 sample_tables))"
  have ok: "case fst (CreateOrder 1 sample_items ?w) of Inl e \<Rightarrow> False
    | Inr (ord, its, pay) \<Rightarrow> soon [Order_CreatedAt ord, Order_UpdatedAt ord] \<and>
        soon [Payment_CreatedAt pay, Payment_UpdatedAt pay] \<and>
        list_all (\<lambda>it. soon [OrderItem_CreatedAt it, OrderItem_UpdatedAt it]) its"
    by code_simp
  obtain r w where run: "CreateOrder 1 sample_items ?w = (r, w)" by fastforce
  with ok obtain ord its pay where r: "r = Inr (ord, its, pay)" by (auto split: sum.splits)
  from ok have "soon [Order_CreatedAt ord, Order_UpdatedAt ord] \<and> soon [Payment_CreatedAt pay, Payment_UpdatedAt pay] \<and>
      (\<forall>it \<in> set its. soon [OrderItem_CreatedAt it, OrderItem_UpdatedAt it])"
    unfolding run r fst_conv sum.case prod.case list_all_iff by blast
  then have "write_CreateOrderResponse sample_text (ord, its, pay) \<noteq> None"
    by (elim conjE) (rule write_CreateOrderResponse_soon)
  with run r that show thesis by blast
qed

end
