(* ===== verification/Order_Once.thy ===== *)
theory Order_Once
  imports Server Sample_Http
begin

text \<open>
  \<open>POST /api/orders\<close> from the request to the response: authentication, the idempotency key, the order,
  the stored response. What each status tells the client about the orders, and that a request that is
  sent again does not order again.
\<close>

definition post_order :: "api \<Rightarrow> handler" where
  "post_order A = AuthMiddleware A (IdempotencyMiddleware (h_CreateOrder A))"

lemma post_order_route: "\<exists>r \<in> set (NewRouter A C). rt_method r = ''POST'' \<and> rt_pattern r = ''/api/orders/'' \<and>
    rt_handler r = post_order A"
  by (auto simp: route_defs post_order_def)

section \<open>Errors of transactions and of storing\<close>

text \<open>A transaction that reports an error has had no effect, unless it was its commit that was lost.\<close>

lemma WithinTx_error:
  assumes "idle w" and "stays fn" and r: "WithinTx fn w = (Inl e, w')"
  shows "tables w' = tables w \<or> e = ErrConn"
proof (cases "BeginTx w")
  case (Pair b w0)
  show ?thesis
  proof (cases b)
    case (Inl d)
    with Pair r BeginTx_Inl [of w d w0] show ?thesis by (auto simp: WithinTx_def and_then_def)
  next
    case (Inr x)
    with Pair have b: "BeginTx w = (Inr (), w0)" by simp
    from live_begin [OF b assms(1)] have w0: "tx w0 = Some (tables w)" by simp
    obtain q w1 where f: "fn w0 = (q, w1)" by (cases "fn w0")
    with staysD [OF assms(2)] w0 have t1: "tx w1 = Some (tables w)" by (auto simp: same_tx_def)
    show ?thesis
    proof (cases q)
      case (Inl d)
      with b f r t1 show ?thesis by (auto simp: WithinTx_def and_then_def RollbackTx_simps)
    next
      case (Inr a)
      with b f r have "fst (CommitTx w1) = Inl e"
        by (auto simp: WithinTx_def and_then_def split: sum.splits prod.splits)
      then show ?thesis by (auto simp: CommitTx_def Let_def split: fault.splits)
    qed
  qed
qed

lemma CreateOrder_error:
  assumes "idle w" and "CreateOrder uid items w = (Inl e, w')"
  shows "tables w' = tables w \<or>
    e = ErrConn \<and> (\<exists>now res. placed uid items now res (tables w) (tables w'))"
  using CreateOrder_cases [OF assms] WithinTx_error [OF assms(1) stays_bodies(1) assms(2) [unfolded CreateOrder_run]]
  by auto

lemma SaveResponse_faultless:
  assumes "idle w" "faultless w" and row: "key_look (tables w) key = Some row" "k_user_id row = uid"
    and json: "env_jsonb (env w) resp = Some json" and r: "SaveResponse key uid resp w = (r, w')"
  shows "\<exists>now. key_look (tables w') = (key_look (tables w))(key \<mapsto> row\<lparr>k_response := Some json, k_updated_at := now\<rparr>)"
proof -
  have "\<not> isl r"
  proof
    assume "isl r"
    with r have "isl (fst (sql_UpdateIdempotency resp key uid w))"
      by (auto simp: SaveResponse_def svc_SaveResponse_def idempotency_repository_def and_then_def ret_def
          repo_UpdateIdempotency_def map_ok_def map_err_def split: prod.splits sum.splits)
    then obtain e w1 where "exec_sql (updateIdempotency (Some json) key uid) w = (Inl e, w1)"
      unfolding sql_UpdateIdempotency_def json by (metis isl_def prod.collapse)
    from faultless_exec_Inl [OF assms(2) this]
    have "update_keys (\<lambda>r. k_key r = key \<and> k_user_id r = uid)
        (\<lambda>now r. r\<lparr>k_response := Some json, k_updated_at := now\<rparr>) (db_now w1) (tables w) = Inl e"
      by (simp add: updateIdempotency_def)
    with assms(1) update_keys_Inl row show False by (fastforce simp: idle_def)
  qed
  with SaveResponse_cases [OF assms(1) r] row json show ?thesis by auto
qed

section \<open>The parts of the request\<close>

definition same_orders :: "tables \<Rightarrow> tables \<Rightarrow> bool" where
  "same_orders t t' \<longleftrightarrow> order_part True t' = order_part True t"

lemma same_orders_refl [simp]: "same_orders t t"
  by (simp add: same_orders_def)

lemma keys_apart:
  assumes "idle w"
  shows "CheckAndClaim k h u w = (r, w') \<Longrightarrow> idle w' \<and> env w' = env w \<and> same_orders (tables w) (tables w')"
    and "SaveResponse k u x w = (q, w') \<Longrightarrow> idle w' \<and> env w' = env w \<and> same_orders (tables w) (tables w')"
  using keepsD [OF apart_idempotency(1) apart_refl [OF assms, of True], of k h u r w']
    keepsD [OF apart_idempotency(2) apart_refl [OF assms, of True], of k u x q w']
  by (simp_all add: apart_def same_orders_def)

text \<open>The four ways \<open>CreateOrder\<close> ends, behind its middleware.\<close>

lemma create_handler:
  assumes "idle (sv_db s)" and h: "h_CreateOrder A rq s = (resp, s')"
    and ctx: "rq_userID rq = Some uid" "rq_idempotencyHeader rq = Some k"
  obtains
    (refused) status msg where "resp = WriteErrorJSON status msg" "status \<in> {400, 404, 409, 500}"
      "tables (sv_db s') = tables (sv_db s)"
  | (lost) items now res where "resp = something_wrong"
      "decode_CreateOrderRequest (ap_text A) (rq_Body rq) = Some items"
      "placed uid items now res (tables (sv_db s)) (tables (sv_db s'))"
  | (created) items now res w where
      "decode_CreateOrderRequest (ap_text A) (rq_Body rq) = Some items"
      "CreateOrder uid items (sv_db s) = (Inr res, w)"
      "placed uid items now res (tables (sv_db s)) (tables w)"
      "resp = WriteJSON 201 (write_CreateOrderResponse (ap_text A) res)"
      "case write_CreateOrderResponse (ap_text A) res of
         None \<Rightarrow> sv_db s' = w
       | Some d \<Rightarrow> \<exists>q. SaveResponse k uid (print_json (ResponseJson True (Some d) [])) w = (q, sv_db s')"
proof -
  note case_refused = refused and case_lost = lost and case_created = created
  have errors: "\<exists>status msg. error_response T create_order_errors e = WriteErrorJSON status msg \<and> status \<in> {404, 409, 500}"
    for T e
    by (auto simp: create_order_errors_def something_wrong_def)
  show thesis
  proof (cases "decode_CreateOrderRequest (ap_text A) (rq_Body rq)")
    case None
    with h show thesis by (intro case_refused) (auto simp: h_CreateOrder_def)
  next
    case (Some items)
    show thesis
    proof (cases "valid_CreateOrderRequest (ap_valid A) items")
      case False
      with h Some show thesis by (intro case_refused) (auto simp: h_CreateOrder_def)
    next
      case True
      obtain r w where run: "CreateOrder uid items (sv_db s) = (r, w)" by fastforce
      show thesis
      proof (cases r)
        case (Inl e)
        with run h Some True ctx have resp: "resp = error_response (ap_driver_text A) create_order_errors e"
          and s': "s' = s\<lparr>sv_db := w\<rparr>"
          by (auto simp: h_CreateOrder_def GetUserIDClaims_def GetIdempotencyValueFromContext_def on_db_def)
        from CreateOrder_error [OF assms(1) run [unfolded Inl]] show thesis
        proof (elim disjE conjE exE)
          assume "tables w = tables (sv_db s)"
          with errors [of "ap_driver_text A" e] resp s' run show thesis
            by (elim exE conjE, intro case_refused) (auto simp: on_db_def)
        next
          fix now res
          assume "e = ErrConn" "placed uid items now res (tables (sv_db s)) (tables w)"
          with resp s' Some show thesis by (intro case_lost) (auto simp: create_order_errors_def)
        qed
      next
        case (Inr res)
        from CreateOrder_cases [OF assms(1) run] Inr obtain now where
          "placed uid items now res (tables (sv_db s)) (tables w)" by auto
        with run h Some True ctx Inr show thesis
          by (intro case_created)
            (auto simp: h_CreateOrder_def GetUserIDClaims_def GetIdempotencyValueFromContext_def on_db_def Let_def
              split: option.splits prod.splits)
      qed
    qed
  qed
qed

text \<open>What the two middlewares do in front of it.\<close>

lemma CheckAndClaim_New:
  assumes "idle w" "CheckAndClaim k h u w = (Inr x, w')" "Result_Status x = New"
  shows "x = claim_new"
  using CheckAndClaim_cases [OF assms(1,2)] assms(3) by (auto split: option.splits if_splits)

lemma post_order_cases:
  assumes "idle (sv_db s)" "jwt_laws (lib_jwt (ap_libs A))" and p: "post_order A rq s = (resp, s')"
  defines "k \<equiv> rq_Header rq ''Idempotency-Key''" and "h \<equiv> requestHash (bd_bytes (rq_Body rq))"
  obtains
    (unauthorized) "s' = s" "rs_status resp = 401"
      "\<And>u. Auth (lib_jwt (ap_libs A)) (lib_manager (ap_libs A)) (app_now s) (rq_Header rq ''Authorization'') \<noteq> Authenticated u"
  | (invalid) "s' = s" "rs_status resp = 400" "k = [] \<or> bd_fails (rq_Body rq)"
  | (claimed) uid r w where
      "Auth (lib_jwt (ap_libs A)) (lib_manager (ap_libs A)) (app_now s) (rq_Header rq ''Authorization'') = Authenticated uid"
      "k \<noteq> []" "\<not> bd_fails (rq_Body rq)" "CheckAndClaim k h uid (sv_db s) = (r, w)" "r \<noteq> Inr claim_new"
      "sv_db s' = w"
      "resp = (case r of Inl _ \<Rightarrow> something_wrong
        | Inr x \<Rightarrow> if Result_Status x = Replayed
                  then Response 201 [content_json] (case Result_Response x of None \<Rightarrow> [] | Some b \<Rightarrow> b)
                  else resp)"
      "\<forall>x. r = Inr x \<longrightarrow> Result_Status x \<noteq> Replayed \<longrightarrow> (\<exists>msg. resp = WriteErrorJSON 409 msg)"
  | (ordered) uid w where
      "Auth (lib_jwt (ap_libs A)) (lib_manager (ap_libs A)) (app_now s) (rq_Header rq ''Authorization'') = Authenticated uid"
      "k \<noteq> []" "\<not> bd_fails (rq_Body rq)" "CheckAndClaim k h uid (sv_db s) = (Inr claim_new, w)"
      "h_CreateOrder A (rq\<lparr>rq_userID := Some uid, rq_idempotencyHeader := Some k\<rparr>) (s\<lparr>sv_db := w\<rparr>) = (resp, s')"
proof -
  note cases = unauthorized invalid claimed ordered
  let ?auth = "Auth (lib_jwt (ap_libs A)) (lib_manager (ap_libs A)) (app_now s) (rq_Header rq ''Authorization'')"
  have "?auth \<noteq> NilDereference"
    unfolding Auth_acceptable [OF assms(2)] by (simp split: option.split)
  then consider "?auth = Unauthorized" | uid where "?auth = Authenticated uid" by (cases ?auth) auto
  then show thesis
  proof cases
    case 1
    with p show thesis by (intro cases(1)) (auto simp: post_order_def AuthMiddleware_def)
  next
    case (2 uid)
    with p have idem: "IdempotencyMiddleware (h_CreateOrder A) (rq\<lparr>rq_userID := Some uid\<rparr>) s = (resp, s')"
      by (simp add: post_order_def AuthMiddleware_def)
    show thesis
    proof (cases "k = [] \<or> bd_fails (rq_Body rq)")
      case True
      with idem show thesis
        by (intro cases(2)) (auto simp: IdempotencyMiddleware_def GetUserIDClaims_def k_def WriteErrorJSON_def Let_def
          split: if_splits)
    next
      case False
      obtain r w where claim: "CheckAndClaim k h uid (sv_db s) = (r, w)" by fastforce
      have run: "(case r of
          Inl err \<Rightarrow> (something_wrong, s\<lparr>sv_db := w\<rparr>)
        | Inr x \<Rightarrow> (case Result_Status x of
            New \<Rightarrow> h_CreateOrder A (rq\<lparr>rq_userID := Some uid, rq_idempotencyHeader := Some k\<rparr>) (s\<lparr>sv_db := w\<rparr>)
          | Replayed \<Rightarrow> (Response 201 [content_json] (case Result_Response x of None \<Rightarrow> [] | Some b \<Rightarrow> b), s\<lparr>sv_db := w\<rparr>)
          | Mismatch \<Rightarrow> (WriteErrorJSON 409 ''idempotency key already used with a different request body'', s\<lparr>sv_db := w\<rparr>)
          | InProgress \<Rightarrow>
              (WriteErrorJSON 409 ''a request with this idempotency key is still being processed'', s\<lparr>sv_db := w\<rparr>))) = (resp, s')"
        using idem False claim unfolding k_def h_def IdempotencyMiddleware_def GetUserIDClaims_def Let_def on_db_def
        by (simp split: sum.splits IdempotencyKeyStatus.splits)
      show thesis
      proof (cases "r = Inr claim_new")
        case True
        with run False claim 2 show thesis
          by (intro cases(4)) (auto simp: claim_new_def)
      next
        case fresh: False
        have answer: "resp = (case r of Inl _ \<Rightarrow> something_wrong
            | Inr x \<Rightarrow> if Result_Status x = Replayed
                      then Response 201 [content_json] (case Result_Response x of None \<Rightarrow> [] | Some b \<Rightarrow> b)
                      else resp) \<and>
          (\<forall>x. r = Inr x \<longrightarrow> Result_Status x \<noteq> Replayed \<longrightarrow> (\<exists>msg. resp = WriteErrorJSON 409 msg)) \<and> sv_db s' = w"
        proof (cases r)
          case (Inl e)
          with run False show ?thesis by auto
        next
          case (Inr x)
          with fresh CheckAndClaim_New [OF assms(1) claim [unfolded Inr]] have "Result_Status x \<noteq> New" by auto
          with run False Inr show ?thesis by (cases "Result_Status x") auto
        qed
        with False claim 2 fresh show thesis by (intro cases(3)) auto
      qed
    qed
  qed
qed

section \<open>Answered keys\<close>

text \<open>A key whose response is stored.\<close>

definition answered_key :: "server \<Rightarrow> string \<Rightarrow> string \<Rightarrow> bool" where
  "answered_key s k json \<longleftrightarrow> json \<noteq> [] \<and>
     (\<exists>row. key_look (tables (sv_db s)) k = Some row \<and> k_response row = Some json)"

lemma answered_key_replays:
  assumes "idle (sv_db s)" "jwt_laws (lib_jwt (ap_libs A))" and p: "post_order A rq s = (resp, s')"
    and a: "answered_key s (rq_Header rq ''Idempotency-Key'') json"
  shows "same_orders (tables (sv_db s)) (tables (sv_db s')) \<and>
    (rs_status resp = 201 \<longrightarrow> resp = Response 201 [content_json] json)"
  using assms(1-3)
proof (cases rule: post_order_cases)
  case unauthorized
  then show ?thesis by simp
next
  case invalid
  then show ?thesis by simp
next
  case (claimed uid r w)
  have same: "same_orders (tables (sv_db s)) (tables (sv_db s'))"
    using keys_apart(1) [OF assms(1) claimed(4)] claimed(6) by simp
  have "resp = Response 201 [content_json] json" if status: "rs_status resp = 201"
  proof -
    from claimed(7,8) status obtain x where x: "r = Inr x" "Result_Status x = Replayed"
      by (cases r) (auto simp: something_wrong_def WriteErrorJSON_def split: if_splits)
    with CheckAndClaim_cases [OF assms(1) claimed(4)] a have "Result_Response x = Some json"
      by (auto simp: answered_key_def split: if_splits)
    with claimed(7) x show ?thesis by simp
  qed
  with same show ?thesis by blast
next
  case (ordered uid w)
  with CheckAndClaim_cases [OF assms(1) ordered(4)] a show ?thesis
    by (auto simp: answered_key_def claim_new_def split: if_splits)
qed

lemma placed_keys: "placed uid items now res t t' \<Longrightarrow> t_keys t' = t_keys t"
  by (auto simp: placed_def Let_def)

definition stores_json :: "world \<Rightarrow> text_lib \<Rightarrow> bool" where
  "stores_json w T \<longleftrightarrow> (\<forall>res d. write_CreateOrderResponse T res = Some d \<longrightarrow>
     (\<exists>json. json \<noteq> [] \<and> env_jsonb (env w) (print_json (ResponseJson True (Some d) [])) = Some json))"

lemma answered_after_201:
  assumes "idle (sv_db s)" "jwt_laws (lib_jwt (ap_libs A))" "faultless (sv_db s)" "stores_json (sv_db s) (ap_text A)"
    and p: "post_order A rq s = (resp, s')" "rs_status resp = 201" "rs_body resp \<noteq> []"
  shows "\<exists>json. answered_key s' (rq_Header rq ''Idempotency-Key'') json"
  using assms(1,2) p(1)
proof (cases rule: post_order_cases)
  case (claimed uid r w)
  from claimed(7,8) p(2) obtain x where x: "r = Inr x" "Result_Status x = Replayed"
    by (cases r) (auto simp: something_wrong_def WriteErrorJSON_def split: if_splits)
  with CheckAndClaim_cases [OF assms(1) claimed(4)] claimed(6) show ?thesis
    by (auto simp: answered_key_def claim_new_def split: option.splits if_splits)
next
  case (ordered uid w)
  let ?k = "rq_Header rq ''Idempotency-Key''"
  note keys = keys_apart(1) [OF assms(1) ordered(4)]
  from CheckAndClaim_cases [OF assms(1) ordered(4)] obtain row where
    row: "key_look (tables w) ?k = Some row" "k_user_id row = uid"
    by (cases "key_look (tables (sv_db s)) ?k") (auto simp: claim_new_def new_key_def split: if_splits)
  have idle: "idle (sv_db (s\<lparr>sv_db := w\<rparr>))" using keys by simp
  have ctx: "rq_userID (rq\<lparr>rq_userID := Some uid, rq_idempotencyHeader := Some k\<rparr>) = Some uid"
    "rq_idempotencyHeader (rq\<lparr>rq_userID := Some uid, rq_idempotencyHeader := Some k\<rparr>) = Some k" for k
    by simp_all
  show ?thesis using idle ordered(5) ctx
  proof (cases rule: create_handler)
    case (created items now res w')
    from created(4) p(3) obtain d where d: "write_CreateOrderResponse (ap_text A) res = Some d"
      by (auto simp: WriteJSON_def split: option.splits)
    from created(2) have run: "CreateOrder uid items w = (Inr res, w')" by simp
    note frame = CreateOrder_frame [OF conjunct1 [OF keys] run]
    have "faultless w'" using assms(3) keys frame by (simp add: faultless_def)
    moreover from created(3) have "key_look (tables w') ?k = Some row"
      using row placed_keys by (simp add: key_look_def)
    moreover from assms(4) d obtain json where json: "json \<noteq> []"
      "env_jsonb (env w') (print_json (ResponseJson True (Some d) [])) = Some json"
      using keys frame unfolding stores_json_def by metis
    moreover from created(5) d obtain q where
      "SaveResponse ?k uid (print_json (ResponseJson True (Some d) [])) w' = (q, sv_db s')" by auto
    ultimately show ?thesis
      using SaveResponse_faultless [OF CreateOrder_idle [OF conjunct1 [OF keys] run]] row
      by (fastforce simp: answered_key_def)
  qed (use p(2) in \<open>auto simp: WriteErrorJSON_def something_wrong_def\<close>)
qed (use p(2) in auto)

text \<open>The answer of a request whose claim is new.\<close>

lemma ordered_answers:
  assumes "idle (sv_db s)" and claim: "CheckAndClaim k h uid (sv_db s) = (Inr claim_new, w)"
    and run: "h_CreateOrder A (rq\<lparr>rq_userID := Some uid, rq_idempotencyHeader := Some k\<rparr>) (s\<lparr>sv_db := w\<rparr>) = (resp, s')"
  shows "same_orders (tables (sv_db s)) (tables (sv_db s')) \<and> rs_status resp \<in> {400, 404, 409, 500} \<or>
    (\<exists>items now res t1 t2. decode_CreateOrderRequest (ap_text A) (rq_Body rq) = Some items \<and>
      same_orders (tables (sv_db s)) t1 \<and> placed uid items now res t1 t2 \<and> same_orders t2 (tables (sv_db s')) \<and>
      (resp = WriteJSON 201 (write_CreateOrderResponse (ap_text A) res) \<or> resp = something_wrong))"
proof -
  note keys = keys_apart(1) [OF assms(1) claim]
  have idle: "idle (sv_db (s\<lparr>sv_db := w\<rparr>))" using keys by simp
  have ctx: "rq_userID (rq\<lparr>rq_userID := Some uid, rq_idempotencyHeader := Some k\<rparr>) = Some uid"
    "rq_idempotencyHeader (rq\<lparr>rq_userID := Some uid, rq_idempotencyHeader := Some k\<rparr>) = Some k" by simp_all
  show ?thesis using idle run ctx
  proof (cases rule: create_handler)
    case (refused status msg)
    with keys show ?thesis by (auto simp: WriteErrorJSON_def same_orders_def)
  next
    case (lost items now res)
    then have "decode_CreateOrderRequest (ap_text A) (rq_Body rq) = Some items"
      "placed uid items now res (tables w) (tables (sv_db s'))" by simp_all
    with lost(1) keys same_orders_refl [of "tables (sv_db s')"] show ?thesis by blast
  next
    case (created items now res w')
    have "idle w'" using CreateOrder_idle [OF conjunct1 [OF keys]] created(2) by simp
    then have "same_orders (tables w') (tables (sv_db s'))"
      using created(5) keys_apart(2) by (fastforce split: option.splits)
    moreover from created have "decode_CreateOrderRequest (ap_text A) (rq_Body rq) = Some items"
      "placed uid items now res (tables w) (tables w')" by simp_all
    ultimately show ?thesis using created(4) keys by blast
  qed
qed

text \<open>The answer of a request whose key is claimed already.\<close>

lemma claimed_answers:
  assumes "idle w" and claim: "CheckAndClaim k h uid w = (r, w')" and "r \<noteq> Inr claim_new"
    and resp: "resp = (case r of Inl _ \<Rightarrow> something_wrong
        | Inr x \<Rightarrow> if Result_Status x = Replayed
                  then Response 201 [content_json] (case Result_Response x of None \<Rightarrow> [] | Some b \<Rightarrow> b)
                  else resp)"
      "\<forall>x. r = Inr x \<longrightarrow> Result_Status x \<noteq> Replayed \<longrightarrow> (\<exists>msg. resp = WriteErrorJSON 409 msg)"
  shows "rs_status resp \<in> {409, 500} \<or>
    (\<exists>row json. key_look (tables w) k = Some row \<and> k_response row = Some json \<and> resp = Response 201 [content_json] json)"
proof -
  consider e where "r = Inl e" | x where "r = Inr x" "Result_Status x \<noteq> Replayed"
    | x where "r = Inr x" "Result_Status x = Replayed" by (cases r) auto
  then show ?thesis
  proof cases
    case 1
    with resp(1) show ?thesis by (simp add: something_wrong_def WriteErrorJSON_def)
  next
    case 2
    with resp(2) show ?thesis by (auto simp: WriteErrorJSON_def)
  next
    case 3
    with CheckAndClaim_cases [OF assms(1) claim] obtain row json where
      "key_look (tables w) k = Some row" "k_response row = Some json" "Result_Response x = Some json"
      by (auto simp: claim_new_def split: option.splits if_splits)
    with resp(1) 3 show ?thesis by auto
  qed
qed

section \<open>A sample request\<close>

lemma sample_placed:
  obtains res w s' where "post_order sample_api (sample_post sample_items) sample_server = (WriteJSON 201 (write_CreateOrderResponse sample_text res), s')"
    "write_CreateOrderResponse sample_text res \<noteq> None"
proof -
  let ?h = "requestHash (bd_bytes (rq_Body (sample_post sample_items)))"
  obtain w1 where claim: "CheckAndClaim ''k'' ?h 1 (sample_world all_works 0 sample_tables) = (Inr claim_new, w1)"
    using sample_claim [of ?h] by (metis prod.collapse)
  from sample_created [of ?h] obtain res w where created: "CreateOrder 1 sample_items w1 = (Inr res, w)"
    and written: "write_CreateOrderResponse sample_text res \<noteq> None" unfolding claim snd_conv by blast
  have clock: "app_now sample_server = 0"
    by (simp add: app_now_def sample_env_def sample_world_def)
  have valid: "valid_CreateOrderRequest sample_valid sample_items"
    by (simp add: valid_CreateOrderRequest_def Struct_def sample_valid_def sample_items_def)
  have "post_order sample_api (sample_post sample_items) sample_server =
      h_CreateOrder sample_api ((sample_post sample_items)\<lparr>rq_userID := Some 1, rq_idempotencyHeader := Some ''k''\<rparr>)
        (sample_server\<lparr>sv_db := w1\<rparr>)"
    unfolding post_order_def AuthMiddleware_def clock
    by (simp add: sample_authenticated IdempotencyMiddleware_def GetUserIDClaims_def on_db_def claim claim_new_def)
  moreover from written obtain d where d: "write_CreateOrderResponse sample_text res = Some d" by blast
  ultimately have "\<exists>s'. post_order sample_api (sample_post sample_items) sample_server =
      (WriteJSON 201 (write_CreateOrderResponse sample_text res), s')"
    by (simp add: h_CreateOrder_def sample_post_decoded valid GetUserIDClaims_def GetIdempotencyValueFromContext_def
        on_db_def created Let_def split: prod.splits)
  with written that show thesis by blast
qed

lemma sample_server_ok:
  "idle (sv_db sample_server)" "jwt_laws (lib_jwt (ap_libs sample_api))" "faultless (sv_db sample_server)"
  "stores_json (sv_db sample_server) (ap_text sample_api)"
proof -
  show "idle (sv_db sample_server)" by (simp add: sample_idle_tables)
  show "jwt_laws (lib_jwt (ap_libs sample_api))" by (simp add: sample_jwt_laws)
  show "faultless (sv_db sample_server)" by (simp add: faultless_def sample_world_def sample_env_def all_works_def)
  have "print_json (JObject ms) \<noteq> []" for ms by (cases ms) simp_all
  then show "stores_json (sv_db sample_server) (ap_text sample_api)"
    by (simp add: stores_json_def sample_env_def ResponseJson_def)
qed

section \<open>Properties\<close>

text \<open>
  C12. What the answer to \<open>POST /api/orders\<close> says about the orders. With 400, 401, 404 or 409 nothing was
  ordered. A 201 is the stored response of an earlier request with the key, and nothing was ordered, or
  the response for the order that was now placed, whole. After a 500 nothing was ordered, or the whole
  order was and only the acknowledgement of its commit was lost.
\<close>

theorem post_order_answers:
  assumes "idle (sv_db s)" and "jwt_laws (lib_jwt (ap_libs A))" and "post_order A rq s = (resp, s')"
  defines "t \<equiv> tables (sv_db s)" and "t' \<equiv> tables (sv_db s')"
  shows "same_orders t t' \<and> rs_status resp \<in> {400, 401, 404, 409, 500} \<or>
    same_orders t t' \<and> (\<exists>row json. key_look t (rq_Header rq ''Idempotency-Key'') = Some row \<and>
      k_response row = Some json \<and> resp = Response 201 [content_json] json) \<or>
    (\<exists>uid items now res t1 t2.
      Auth (lib_jwt (ap_libs A)) (lib_manager (ap_libs A)) (app_now s) (rq_Header rq ''Authorization'') =
        Authenticated uid \<and>
      decode_CreateOrderRequest (ap_text A) (rq_Body rq) = Some items \<and>
      same_orders t t1 \<and> placed uid items now res t1 t2 \<and> same_orders t2 t' \<and>
      (resp = WriteJSON 201 (write_CreateOrderResponse (ap_text A) res) \<or> resp = something_wrong))"
  using assms(1-3)
proof (cases rule: post_order_cases)
  case unauthorized
  then show ?thesis by (simp add: t_def t'_def)
next
  case invalid
  then show ?thesis by (simp add: t_def t'_def)
next
  case (claimed uid r w)
  have "same_orders t t'"
    using keys_apart(1) [OF assms(1) claimed(4)] claimed(6) by (simp add: t_def t'_def)
  with claimed_answers [OF assms(1) claimed(4,5,7,8)] show ?thesis unfolding t_def by blast
next
  case (ordered uid w)
  from ordered_answers [OF assms(1) ordered(4,5)] ordered(1) show ?thesis unfolding t_def t'_def by blast
qed

theorem post_order_answers_witness:
  "\<exists>resp s'. post_order sample_api (sample_post sample_items) sample_server = (resp, s') \<and> rs_status resp = 201 \<and>
     (\<exists>now res t1 t2. placed 1 sample_items now res t1 t2 \<and>
        same_orders (tables (sv_db sample_server)) t1 \<and> same_orders t2 (tables (sv_db s')) \<and>
        resp = WriteJSON 201 (write_CreateOrderResponse sample_text res))"
proof -
  from sample_placed obtain res s' where p: "post_order sample_api (sample_post sample_items) sample_server =
      (WriteJSON 201 (write_CreateOrderResponse sample_text res), s')" by blast
  have "key_look (tables (sv_db sample_server)) ''k'' = None"
    by (simp add: key_look_def sample_tables_def row_by_def)
  moreover have "WriteJSON 201 x \<noteq> something_wrong" for x by (simp add: WriteJSON_def something_wrong_def WriteErrorJSON_def)
  moreover have "app_now sample_server = 0" by (simp add: app_now_def sample_env_def sample_world_def)
  ultimately show ?thesis
    using post_order_answers [OF sample_server_ok(1,2) p] p
    by (simp add: sample_post_decoded sample_authenticated WriteJSON_def) blast
qed



end
