(* ===== verification/Http_Safety.thy ===== *)
theory Http_Safety
  imports Order_Once
begin

text \<open>
  What holds of every request over HTTP, and of every run of requests: the server refines the services,
  keeps their invariants, acts on orders only for the user a request authenticates as, refuses requests
  without a valid token, and shows no internal error to a client.
\<close>

section \<open>Runs\<close>

text \<open>A call: its method, its path, and the request. A run answers its calls one after another.\<close>

type_synonym call = "string \<times> string \<times> http_request"

fun http_run :: "api \<Rightarrow> chi \<Rightarrow> call list \<Rightarrow> server \<Rightarrow> response list \<times> server" where
  "http_run A C [] s = ([], s)"
| "http_run A C ((verb, path, rq) # calls) s =
     (let (resp, s1) = ServeHTTP A C verb path rq s; (resps, s2) = http_run A C calls s1 in (resp # resps, s2))"

lemma reachable_requests: "reachable L P w0 w \<Longrightarrow> \<exists>rs. w = fold (serve L) rs w0"
proof (induction rule: reachable.induct)
  case start
  show ?case by (intro exI [of _ "[]"]) simp
next
  case (serve w r)
  then obtain rs where "w = fold (serve L) rs w0" by blast
  then show ?case by (intro exI [of _ "rs @ [r]"]) simp
qed

lemma ServeHTTP_reachable:
  "reachable (ap_libs A) any_request (sv_db s) (sv_db (snd (ServeHTTP A C verb path rq s)))"
  using ServeHTTP_steps [of A rq s C verb path] unfolding steps_def by (auto elim!: reachable_mono)

lemma http_run_reachable:
  "reachable (ap_libs A) any_request (sv_db s) (sv_db (snd (http_run A C calls s)))"
proof (induction calls arbitrary: s)
  case Nil
  show ?case by (simp add: reachable.start)
next
  case (Cons c calls)
  obtain verb path rq where c: "c = (verb, path, rq)" by (cases c)
  from reachable_trans [OF Cons.IH ServeHTTP_reachable] have
    "reachable (ap_libs A) any_request (sv_db s) (sv_db (snd (http_run A C calls (snd (ServeHTTP A C verb path rq s)))))" .
  with c show ?case by (simp add: Let_def case_prod_beta)
qed

section \<open>Orders of others\<close>

text \<open>All there is of one order: its row, its items, its payment, and its charges.\<close>

definition order_view :: "world \<Rightarrow> uuid \<Rightarrow> order_row option \<times> item_row list \<times> payment_row option \<times> charge list" where
  "order_view w oid = (row_by o_id oid (t_orders (tables w)), items_of (tables w) oid,
     row_by y_order_id oid (t_payments (tables w)), filter (\<lambda>c. c_order c = oid) (charges w))"

lemma serve_others:
  assumes "idle w" "row_by o_id oid (t_orders (tables w)) = Some ord" "acts_for who r" "who \<noteq> Some (o_user_id ord)"
  shows "order_view (serve L r w) oid = order_view w oid"
  using assms(1)
proof (cases rule: serve_cases [where L = L and r = r])
  case same
  then show ?thesis by (simp add: order_view_def order_part_def items_of_def)
next
  case (placed uid items now res)
  have ok: "schema_ok (tables w)" using assms(1) by (simp add: idle_def)
  from ok placed(2) show ?thesis
  proof (cases rule: placed_look)
    case (1 u y rows)
    have "oid \<noteq> u" using 1(1) assms(2) by (auto dest: row_by_SomeD)
    with 1 placed(3) show ?thesis by (simp add: order_view_def)
  qed
next
  case (cancelled uid oid' now res)
  with assms(2-4) have "oid' \<noteq> oid" by (auto simp: cancelled_def)
  moreover from cancelled(2) have "t_orders (tables (serve L r w)) = set_status oid' ''cancelled'' now (t_orders (tables w))"
    "t_items (tables (serve L r w)) = t_items (tables w)" "t_payments (tables (serve L r w)) = t_payments (tables w)"
    by (auto simp: cancelled_def)
  ultimately show ?thesis using assms(2) cancelled(3)
    by (auto simp: order_view_def items_of_def row_by_set_status dest: row_by_SomeD)
next
  case (charged uid oid' ord' pay success txid)
  with assms(2-4) have other: "oid' \<noteq> oid" by (auto simp: found_def)
  from charged(6) have "row_by o_id oid (t_orders (tables (serve L r w))) = row_by o_id oid (t_orders (tables w)) \<and>
      t_items (tables (serve L r w)) = t_items (tables w) \<and>
      row_by y_order_id oid (t_payments (tables (serve L r w))) = row_by y_order_id oid (t_payments (tables w))"
  proof (elim disjE exE)
    fix now res
    assume "settled oid' now success txid ord' pay (tables w) (tables (serve L r w)) res"
    then have "t_orders (tables (serve L r w)) =
        (if success then set_status oid' ''paid'' now (t_orders (tables w)) else t_orders (tables w))"
      "t_items (tables (serve L r w)) = t_items (tables w)"
      "t_payments (tables (serve L r w)) =
        set_payment oid' (if success then ''success'' else ''failed'') (Some txid) now (t_payments (tables w))"
      by (simp_all add: settled_def Let_def)
    then show ?thesis using other assms(2)
      by (auto simp: row_by_set_status row_by_set_payment map_option_case dest: row_by_SomeD split: option.splits)
  qed simp
  with charged(5) other show ?thesis by (simp add: order_view_def items_of_def charge_of_def)
qed

lemma reachable_others:
  assumes "reachable L (acts_for who) w0 w" "idle w0" "row_by o_id oid (t_orders (tables w0)) = Some ord"
    and "who \<noteq> Some (o_user_id ord)"
  shows "order_view w oid = order_view w0 oid"
  using assms
proof (induction rule: reachable.induct)
  case (serve w r)
  then have "order_view w oid = order_view w0 oid" by simp
  moreover from this serve.prems(2) have "row_by o_id oid (t_orders (tables w)) = Some ord"
    by (simp add: order_view_def)
  ultimately show ?case
    using serve_others [OF _ _ serve.hyps(2) serve.prems(3)] reachable_frame [OF serve.hyps(1) serve.prems(1)] by simp
qed simp

section \<open>Routes behind a token\<close>

definition guarded :: "string \<Rightarrow> bool" where
  "guarded pattern \<longleftrightarrow> take 11 pattern = ''/api/orders'' \<or> pattern = ''/api/users/me''"

lemma guarded_route:
  "r \<in> set (NewRouter A C) \<Longrightarrow> guarded (rt_pattern r) \<Longrightarrow> \<exists>h. rt_handler r = AuthMiddleware A h"
  by (auto simp: route_defs guarded_def)

section \<open>Error texts\<close>

text \<open>The errors the packages declare and compare with; their texts do not depend on the driver.\<close>

definition declared :: "go_error \<Rightarrow> bool" where
  "declared e \<longleftrightarrow> (case e of ProductErr _ \<Rightarrow> True | OrderErr _ \<Rightarrow> True | PaymentErr _ \<Rightarrow> True | UserErr _ \<Rightarrow> True | _ \<Rightarrow> False)"

lemma Error_declared: "declared e \<Longrightarrow> Error T e = Error T' e"
  by (induction T e rule: Error.induct) (auto simp: declared_def)

lemma Error_Is: "errors_Is e target \<Longrightarrow> declared target \<Longrightarrow> Error T e = Error T' e"
proof (induction e)
  case (Wrapped msg e)
  then have "errors_Is e target" by (auto simp: declared_def)
  with Wrapped show ?case by simp
qed ((rule Error_declared, simp)+)

lemma error_response_text:
  "\<forall>(target, status) \<in> set es. declared target \<Longrightarrow> error_response T es e = error_response T' es e"
  by (induction es) (auto simp: Error_Is [of e _ T T'])

lemma with_texts:
  "ap_libs (A\<lparr>ap_driver_text := T\<rparr>) = ap_libs A" "ap_text (A\<lparr>ap_driver_text := T\<rparr>) = ap_text A"
  "ap_valid (A\<lparr>ap_driver_text := T\<rparr>) = ap_valid A" "ap_limiter (A\<lparr>ap_driver_text := T\<rparr>) = ap_limiter A"
  "ap_driver_text (A\<lparr>ap_driver_text := T\<rparr>) = T"
  by simp_all

lemma text_free_orders:
  "h_CreateOrder (A\<lparr>ap_driver_text := T\<rparr>) = h_CreateOrder A" "h_GetOrders (A\<lparr>ap_driver_text := T\<rparr>) = h_GetOrders A"
  "h_GetOrderByID (A\<lparr>ap_driver_text := T\<rparr>) = h_GetOrderByID A" "h_CancelOrder (A\<lparr>ap_driver_text := T\<rparr>) = h_CancelOrder A"
  "h_Pay (A\<lparr>ap_driver_text := T\<rparr>) = h_Pay A" "h_GetPaymentByOrderID (A\<lparr>ap_driver_text := T\<rparr>) = h_GetPaymentByOrderID A"
proof -
  note same = error_response_text [of _ T _ "ap_driver_text A"]
  have "error_response T create_order_errors = error_response (ap_driver_text A) create_order_errors"
    "error_response T cancel_order_errors = error_response (ap_driver_text A) cancel_order_errors"
    "error_response T pay_errors = error_response (ap_driver_text A) pay_errors"
    "error_response T [(OrderErr ErrOrderNotFound, 404)] = error_response (ap_driver_text A) [(OrderErr ErrOrderNotFound, 404)]"
    "error_response T [(PaymentErr ErrNoPaymentFound, 404)] =
     error_response (ap_driver_text A) [(PaymentErr ErrNoPaymentFound, 404)]"
    by (intro ext, rule same,
        simp add: create_order_errors_def cancel_order_errors_def pay_errors_def declared_def)+
  note chains = this
  show "h_CreateOrder (A\<lparr>ap_driver_text := T\<rparr>) = h_CreateOrder A" "h_GetOrders (A\<lparr>ap_driver_text := T\<rparr>) = h_GetOrders A"
    "h_GetOrderByID (A\<lparr>ap_driver_text := T\<rparr>) = h_GetOrderByID A" "h_CancelOrder (A\<lparr>ap_driver_text := T\<rparr>) = h_CancelOrder A"
    "h_Pay (A\<lparr>ap_driver_text := T\<rparr>) = h_Pay A" "h_GetPaymentByOrderID (A\<lparr>ap_driver_text := T\<rparr>) = h_GetPaymentByOrderID A"
    unfolding h_CreateOrder_def h_GetOrders_def h_GetOrderByID_def h_CancelOrder_def h_Pay_def
        h_GetPaymentByOrderID_def with_texts chains by (rule refl)+
qed

lemma text_free_products:
  "h_ListProducts (A\<lparr>ap_driver_text := T\<rparr>) = h_ListProducts A"
  "h_GetProductByID (A\<lparr>ap_driver_text := T\<rparr>) = h_GetProductByID A"
  "h_CreateProduct (A\<lparr>ap_driver_text := T\<rparr>) = h_CreateProduct A"
  "h_UpdateProduct (A\<lparr>ap_driver_text := T\<rparr>) = h_UpdateProduct A"
  "h_DeleteProduct (A\<lparr>ap_driver_text := T\<rparr>) = h_DeleteProduct A"
proof -
  note same = error_response_text [of _ T _ "ap_driver_text A"]
  have "error_response T [(ProductErr ErrProductNotFound, 404)] =
      error_response (ap_driver_text A) [(ProductErr ErrProductNotFound, 404)]"
    "error_response T [(ProductErr ErrExistingProductName, 409)] =
      error_response (ap_driver_text A) [(ProductErr ErrExistingProductName, 409)]"
    "error_response T [(ProductErr ErrProductNotFound, 404), (ProductErr ErrExistingProductName, 409)] =
      error_response (ap_driver_text A) [(ProductErr ErrProductNotFound, 404), (ProductErr ErrExistingProductName, 409)]"
    by (intro ext, rule same, simp add: declared_def)+
  note chains = this
  show "h_ListProducts (A\<lparr>ap_driver_text := T\<rparr>) = h_ListProducts A"
    "h_GetProductByID (A\<lparr>ap_driver_text := T\<rparr>) = h_GetProductByID A"
    "h_CreateProduct (A\<lparr>ap_driver_text := T\<rparr>) = h_CreateProduct A"
    "h_UpdateProduct (A\<lparr>ap_driver_text := T\<rparr>) = h_UpdateProduct A"
    "h_DeleteProduct (A\<lparr>ap_driver_text := T\<rparr>) = h_DeleteProduct A"
    unfolding h_ListProducts_def h_GetProductByID_def h_CreateProduct_def h_UpdateProduct_def
        h_DeleteProduct_def parseProductID_def with_texts chains by (rule refl)+
qed

lemma text_free_users:
  "h_Register (A\<lparr>ap_driver_text := T\<rparr>) = h_Register A" "h_Login (A\<lparr>ap_driver_text := T\<rparr>) = h_Login A"
  "h_Me (A\<lparr>ap_driver_text := T\<rparr>) = h_Me A"
proof -
  show "h_Register (A\<lparr>ap_driver_text := T\<rparr>) = h_Register A" "h_Me (A\<lparr>ap_driver_text := T\<rparr>) = h_Me A"
    unfolding h_Register_def h_Me_def with_texts Error.simps by (rule refl)+
  have "Error T e = Error (ap_driver_text A) e" if "errors_Is e (UserErr ErrLoginGeneric)" for e
    by (rule Error_Is [OF that]) (simp add: declared_def)
  then have "(if errors_Is e (UserErr ErrLoginGeneric) then (WriteErrorJSON 401 (Error T e), x) else y) =
      (if errors_Is e (UserErr ErrLoginGeneric) then (WriteErrorJSON 401 (Error (ap_driver_text A) e), x) else y)"
    for e and x y by simp
  note chain = this
  show "h_Login (A\<lparr>ap_driver_text := T\<rparr>) = h_Login A"
    unfolding h_Login_def recordLoginFailure_def with_texts chain by (rule refl)+
qed

lemma text_free_router: "NewRouter (A\<lparr>ap_driver_text := T\<rparr>) C = NewRouter A C"
proof -
  have "AuthMiddleware (A\<lparr>ap_driver_text := T\<rparr>) h = AuthMiddleware A h"
    "LoginRateLimiter (A\<lparr>ap_driver_text := T\<rparr>) h = LoginRateLimiter A h" for h
    unfolding AuthMiddleware_def LoginRateLimiter_def with_texts by (rule refl)+
  then show ?thesis by (simp add: route_defs text_free_orders text_free_products text_free_users)
qed

section \<open>The login limit\<close>

definition failures :: "http_request \<Rightarrow> server \<Rightarrow> counter option" where
  "failures rq s =
     at_time (redis_now (sv_redis s)) (rd_store (sv_redis s)) (keyPrefix @ LoginKey (ClientIP (rq_RemoteAddr rq)))"

text \<open>The answers of \<open>h_Login\<close>, and what it does to the counter.\<close>

lemma login_cases:
  assumes "h_Login A rq s = (resp, s')"
  defines "key \<equiv> LoginKey (ClientIP (rq_RemoteAddr rq))"
  shows "(rs_status resp \<in> {400, 500} \<and> sv_redis s' = sv_redis s) \<or>
    (rs_status resp = 401 \<and> sv_redis s' = snd (ll_RecordFailure (ap_limiter A) key (sv_redis s))) \<or>
    (rs_status resp = 200 \<and> sv_redis s' = snd (ll_Reset (ap_limiter A) key (sv_redis s)))"
  using assms
  by (auto simp: h_Login_def recordLoginFailure_def on_db_def on_redis_def WriteErrorJSON_def WriteJSON_def
      something_wrong_def Let_def case_prod_beta split: option.splits if_splits sum.splits prod.splits)

lemma record_failure_counts:
  assumes "redis_up r" "rl_rdb rl = redis_server" "RecordFailure rl key r = (q, r')"
    and "at_time (redis_now r) (rd_store r) (keyPrefix @ key) = old"
    and "\<forall>c. old = Some c \<longrightarrow> sint (cn_value c) < 2 ^ 63 - 1"
  shows "\<exists>c. rd_store r' (keyPrefix @ key) = Some c \<and>
    (cn_value c = 1 \<or> (\<exists>c0. old = Some c0 \<and> cn_value c = cn_value c0 + 1))"
proof -
  from redis.record_failure [OF assms(1-3)] obtain t where
    "let c = set_nx (redis_now r) 0 (rl_window rl) old; c' = (if alive t c then Some c else None) in
      if at_max c' then isl q
      else q = Inr (cn_value (incr c')) \<and> rd_store r' = (rd_store r)(keyPrefix @ key \<mapsto> incr c')"
    unfolding assms(4) by blast
  with assms(5) show ?thesis
    by (cases old) (auto simp: Let_def set_nx_def at_max_def incr_def split: if_splits option.splits)
qed

text \<open>The limiter asks for the counter, and lets the handler run or answers 429; it changes neither store.\<close>

lemma limiter_asks:
  assumes "redis_up (sv_redis s)" and "ap_limiter A = limiter_of rl" and "rl_rdb rl = redis_server"
    and "LoginRateLimiter A h rq s = (resp, s')"
  obtains s1 where "redis_up (sv_redis s1)" "rd_store (sv_redis s1) = rd_store (sv_redis s)"
    "redis_now (sv_redis s) \<le> redis_now (sv_redis s1)" "sv_db s1 = sv_db s"
    "(if (case failures rq s of None \<Rightarrow> True | Some c \<Rightarrow> cn_value c <s rl_limit rl) then h rq s1
      else (WriteErrorJSON 429 ''too many login attempts, please try again later'', s1)) = (resp, s')"
proof -
  let ?key = "LoginKey (ClientIP (rq_RemoteAddr rq))"
  obtain a m where a: "Allow rl ?key (sv_redis s) = (a, m)" by fastforce
  note allow = redis.allow [OF assms(1,3) a]
  have "(if (case failures rq s of None \<Rightarrow> True | Some c \<Rightarrow> cn_value c <s rl_limit rl) then h rq (s\<lparr>sv_redis := m\<rparr>)
      else (WriteErrorJSON 429 ''too many login attempts, please try again later'', s\<lparr>sv_redis := m\<rparr>)) = (resp, s')"
    using assms(2,4) allow a
    by (auto simp: LoginRateLimiter_def on_redis_def limiter_of_def failures_def split: if_splits)
  with allow that [of "s\<lparr>sv_redis := m\<rparr>"] show thesis by simp
qed

text \<open>What the handler does to the counter of a client that is not blocked.\<close>

lemma login_counts:
  assumes "redis_up (sv_redis s)" and "ap_limiter A = limiter_of rl" and "rl_rdb rl = redis_server"
    and "h_Login A rq s = (resp, s')"
    and "case failures rq s of None \<Rightarrow> True | Some c \<Rightarrow> cn_value c <s rl_limit rl"
  defines "k \<equiv> keyPrefix @ LoginKey (ClientIP (rq_RemoteAddr rq))"
  shows "rs_status resp \<in> {400, 500} \<and> rd_store (sv_redis s') = rd_store (sv_redis s) \<or>
    rs_status resp = 401 \<and> (\<exists>c. rd_store (sv_redis s') k = Some c \<and>
      (cn_value c = 1 \<or> (\<exists>c0. failures rq s = Some c0 \<and> cn_value c = cn_value c0 + 1))) \<or>
    rs_status resp = 200 \<and> rd_store (sv_redis s') k = None"
proof -
  let ?key = "LoginKey (ClientIP (rq_RemoteAddr rq))"
  have small: "\<forall>c. failures rq s = Some c \<longrightarrow> sint (cn_value c) < 2 ^ 63 - 1"
  proof (intro allI impI)
    fix c assume "failures rq s = Some c"
    with assms(5) have "sint (cn_value c) < sint (rl_limit rl)" by (simp add: word_sless_alt)
    moreover have "sint (rl_limit rl) < 2 ^ 63" using sint_lt [of "rl_limit rl"] by simp
    ultimately show "sint (cn_value c) < 2 ^ 63 - 1" by simp
  qed
  obtain q r where fail: "RecordFailure rl ?key (sv_redis s) = (q, r)" by fastforce
  obtain q' r' where clear: "Reset rl ?key (sv_redis s) = (q', r')" by fastforce
  have counted: "\<exists>c. rd_store r k = Some c \<and> (cn_value c = 1 \<or> (\<exists>c0. failures rq s = Some c0 \<and> cn_value c = cn_value c0 + 1))"
    using record_failure_counts [OF assms(1,3) fail refl] small unfolding failures_def k_def by blast
  have "rd_store r' k = None"
    using redis.reset [OF assms(1,3) clear] by (simp add: k_def)
  with counted login_cases [OF assms(4)] fail clear show ?thesis
    unfolding assms(2) limiter_of_def by auto
qed

text \<open>A counter read later is the same, or its window has passed.\<close>

lemma failures_later:
  assumes "rd_store (sv_redis s1) = rd_store (sv_redis s)" "redis_now (sv_redis s) \<le> redis_now (sv_redis s1)"
  shows "failures rq s1 = None \<or> failures rq s1 = failures rq s"
  using assms by (auto simp: failures_def at_time_def alive_def split: option.splits)

section \<open>Metrics\<close>

text \<open>
  A run behind the metrics middleware, with the access log of what it answered: route, method and status
  of every request that is not a probe and did not panic.
\<close>

type_synonym access = "string \<times> string \<times> nat"

definition access :: "api \<Rightarrow> chi \<Rightarrow> string \<Rightarrow> string \<Rightarrow> response \<Rightarrow> access list" where
  "access A C verb path resp =
     (case resp of
        Panicked \<Rightarrow> []
      | Response status hs b \<Rightarrow>
          if isProbe path then []
          else [(routePattern (cm_pattern (matched A C verb path)), verb, if status = 0 then 200 else status)])"

fun metered_run :: "api \<Rightarrow> chi \<Rightarrow> call list \<Rightarrow> server \<Rightarrow> metrics \<Rightarrow> access list \<times> server \<times> metrics" where
  "metered_run A C [] s m = ([], s, m)"
| "metered_run A C ((verb, path, rq) # calls) s m =
     (let (resp, s1, m1) = HandleRequest A C verb path rq s m; (log, s2, m2) = metered_run A C calls s1 m1
      in (access A C verb path resp @ log, s2, m2))"

definition error_class :: "nat \<Rightarrow> string option" where
  "error_class status = (if 500 \<le> status then Some ''server'' else if 400 \<le> status then Some ''client'' else None)"

definition counted :: "metrics \<Rightarrow> access list \<Rightarrow> metrics \<Rightarrow> bool" where
  "counted m log m' \<longleftrightarrow>
     (\<forall>route verb st. requestsTotal m' (route, verb, st) = requestsTotal m (route, verb, st) +
        length (filter (\<lambda>(r, me, status). r = route \<and> me = verb \<and> Itoa (word_of_nat status) = st) log)) \<and>
     (\<forall>route verb cl. errorsTotal m' (route, verb, cl) = errorsTotal m (route, verb, cl) +
        length (filter (\<lambda>(r, me, status). r = route \<and> me = verb \<and> error_class status = Some cl) log)) \<and>
     (\<forall>route verb. length (requestDuration m' (route, verb)) = length (requestDuration m (route, verb)) +
        length (filter (\<lambda>(r, me, status). r = route \<and> me = verb) log)) \<and>
     inFlight m' = inFlight m"

lemma counted_append: "counted m log1 m1 \<Longrightarrow> counted m1 log2 m2 \<Longrightarrow> counted m (log1 @ log2) m2"
  by (simp add: counted_def)

lemma HandleRequest_counted:
  assumes "HandleRequest A C verb path rq s m = (resp, s', m')"
  shows "counted m (access A C verb path resp) m'"
proof (cases "isProbe path")
  case True
  with assms show ?thesis
    by (auto simp: HandleRequest_def MetricsMiddleware_def access_def counted_def split: prod.splits response.splits)
next
  case False
  obtain r s1 where run: "ServeHTTP A C verb path rq s = (r, s1)" by fastforce
  show ?thesis
  proof (cases r)
    case (Response written hs b)
    let ?st = "if written = 0 then 200 else written"
    have "resp = r" using assms run Response False
      by (simp add: HandleRequest_def MetricsMiddleware_def Let_def)
    moreover have "requestsTotal m' = Inc (routePattern (cm_pattern (matched A C verb path)), verb, Itoa (word_of_nat ?st)) (requestsTotal m)"
      "errorsTotal m' = (case error_class ?st of None \<Rightarrow> errorsTotal m
        | Some cl \<Rightarrow> Inc (routePattern (cm_pattern (matched A C verb path)), verb, cl) (errorsTotal m))"
      "requestDuration m' = (requestDuration m)((routePattern (cm_pattern (matched A C verb path)), verb) :=
         requestDuration m (routePattern (cm_pattern (matched A C verb path)), verb) @ [app_now s1 - app_now s])"
      "inFlight m' = inFlight m"
      using assms run Response False
      by (auto simp: HandleRequest_def MetricsMiddleware_def Let_def error_class_def)
    ultimately show ?thesis using False Response
      by (auto simp: counted_def access_def Inc_def split: option.splits)
  next
    case Panicked
    with assms run False show ?thesis
      by (auto simp: HandleRequest_def MetricsMiddleware_def access_def counted_def Let_def)
  qed
qed

section \<open>Samples\<close>

text \<open>An order of user 1 with the id 100, and user 2 who would cancel it.\<close>

definition sample_shop :: server where
  "sample_shop = sample_server\<lparr>sv_db := (sample_run [PlaceOrder 1 sample_items] all_works)\<lparr>stmt_no := 0\<rparr>\<rparr>"

definition sample_stranger :: http_request where
  "sample_stranger = (sample_post [])\<lparr>rq_Header := (\<lambda>h. if h = ''Authorization'' then ''Bearer 2.0.9.key'' else [])\<rparr>"

definition sample_nobody :: http_request where
  "sample_nobody = (sample_post [])\<lparr>rq_Header := (\<lambda>h. [])\<rparr>"

definition sample_blocked :: server where
  "sample_blocked = sample_server\<lparr>sv_redis := sample_redis (\<lambda>n. int n)
     [''rate_limit:login:ip:10.0.0.1'' \<mapsto> \<lparr>cn_value = 3, cn_expires = Some 500\<rparr>]\<rparr>"

lemma sample_shop_ok: "idle (sv_db sample_shop)"
proof -
  have "idle (sample_run [PlaceOrder 1 sample_items] all_works)"
    using reachable_frame [OF sample_reached sample_start_ok(1)] by auto
  then show ?thesis by (simp add: sample_shop_def idle_def)
qed

lemma sample_shop_order:
  obtains ord where "row_by o_id 100 (t_orders (tables (sv_db sample_shop))) = Some ord" "o_user_id ord = 1"
proof -
  have "map_option o_user_id (row_by o_id 100 (t_orders (tables (sample_run [PlaceOrder 1 sample_items] all_works)))) = Some 1"
    by code_simp
  then show thesis using that by (auto simp: sample_shop_def)
qed

lemma sample_callers:
  "caller sample_api sample_stranger sample_shop = Some 2" "caller sample_api sample_nobody s = None"
proof -
  have "TrimSpace (TrimPrefix ''Bearer 2.0.9.key'' ''Bearer'') = ''2.0.9.key''"
    using bearer_token [of "''2.0.9.key''"] by (simp add: plain_def)
  moreover have "carried_claims sample_jwt ''2.0.9.key'' =
      Some \<lparr>uc_UserID = 2, uc_Subject = [], uc_IssuedAt = 0, uc_ExpiresAt = Some 9\<rparr>"
    "carried_alg sample_jwt ''2.0.9.key'' = Some HS256" "signature_ok sample_jwt HS256 ''key'' ''2.0.9.key''"
    by code_simp+
  moreover have "app_now sample_shop = 0"
    using reachable_frame [OF sample_reached sample_start_ok(1), of "[PlaceOrder 1 sample_items]" any_request all_works]
    by (simp add: app_now_def sample_shop_def sample_start_def sample_env_def)
  ultimately show "caller sample_api sample_stranger sample_shop = Some 2"
    unfolding caller_def by (simp add: Auth_acceptable [OF sample_jwt_laws] acceptable_def key_for_def
        sample_manager_def sample_stranger_def)
  have "TrimSpace (TrimPrefix [] ''Bearer'') = []" "carried_claims sample_jwt [] = None" by code_simp+
  then show "caller sample_api sample_nobody s = None"
    by (simp add: caller_def Auth_acceptable [OF sample_jwt_laws] sample_nobody_def)
qed

lemma sample_matched:
  "cm_route (matched sample_api sample_chi ''POST'' ''/api/orders/{id}/cancel'') = Some 12"
  "length (NewRouter sample_api sample_chi) = 16"
  "rt_pattern (NewRouter sample_api sample_chi ! 12) = ''/api/orders/{id}/cancel''"
  by code_simp+

section \<open>Properties\<close>


text \<open>
  C14. The invariants hold over HTTP: from a state without orders, after any run of requests no transaction
  is open, the schema's constraints hold, every order has its items, its payment and the total they add
  up to, every paid order is backed by a successful charge of its total, and every charge is for an order.
\<close>

theorem http_keeps_books:
  assumes "idle (sv_db s)" and "blank (sv_db s)" and "http_run A C calls s = (resps, s')"
  shows "idle (sv_db s') \<and> books_ok (tables (sv_db s')) \<and> charges_ok (sv_db s') \<and> length resps = length calls"
proof -
  have run: "reachable (ap_libs A) any_request (sv_db s) (sv_db s')"
    using http_run_reachable [of A s C calls] assms(3) by simp
  note blank = blank_invariants [OF assms(2)]
  have "http_run A C calls s = (resps, s') \<Longrightarrow> length resps = length calls" for s resps s'
    by (induction calls arbitrary: s resps s') (auto simp: Let_def split: prod.splits)
  with assms(3) reachable_frame [OF run assms(1)] reachable_books [OF run assms(1)] reachable_charges [OF run assms(1)] blank
  show ?thesis by blast
qed

theorem http_keeps_books_witness:
  "\<exists>resps s'. http_run sample_api sample_chi
       [(''POST'', ''/api/orders/'', sample_post sample_items), (''POST'', ''/api/orders/{id}/pay'', sample_post [])]
       sample_server = (resps, s') \<and>
     idle (sv_db s') \<and> books_ok (tables (sv_db s')) \<and> charges_ok (sv_db s')"
proof -
  have "blank (sv_db sample_server)" by (simp add: blank_def sample_tables_def)
  from http_keeps_books [OF sample_server_ok(1) this prod.collapse [symmetric]] show ?thesis
    by (metis prod.collapse)
qed

text \<open>
  C11. Nobody touches the orders of others: a request leaves an order, its items, its payment and its
  charges exactly as they are unless it carries a valid token of the order's owner.
\<close>

theorem others_untouched:
  assumes "rq_userID rq = None" and "idle (sv_db s)" and "ServeHTTP A C verb path rq s = (resp, s')"
    and "row_by o_id oid (t_orders (tables (sv_db s))) = Some ord" and "caller A rq s \<noteq> Some (o_user_id ord)"
  shows "order_view (sv_db s') oid = order_view (sv_db s) oid"
proof -
  from ServeHTTP_steps [of A rq s C verb path] assms(1,3) have "steps A (caller A rq s) s s'"
    using steps_nobody [of A s s' "caller A rq s"] by auto
  with reachable_others [OF _ assms(2,4,5)] show ?thesis by (simp add: steps_def)
qed

theorem others_untouched_witness:
  "\<exists>resp s'. ServeHTTP sample_api sample_chi ''POST'' ''/api/orders/{id}/cancel'' sample_stranger sample_shop = (resp, s') \<and>
     order_view (sv_db s') 100 = order_view (sv_db sample_shop) 100"
proof -
  obtain ord where "row_by o_id 100 (t_orders (tables (sv_db sample_shop))) = Some ord" "o_user_id ord = 1"
    by (rule sample_shop_order)
  moreover from this(2) have "caller sample_api sample_stranger sample_shop \<noteq> Some (o_user_id ord)"
    using sample_callers(1) by simp
  moreover have "rq_userID sample_stranger = None" by (simp add: sample_stranger_def sample_post_def)
  ultimately show ?thesis
    using others_untouched [OF _ sample_shop_ok prod.collapse [symmetric], of sample_stranger 100 ord]
    by (metis prod.collapse)
qed

text \<open>
  C24. Without a valid token, the routes of orders and payments and \<open>/api/users/me\<close> answer 401 and do
  nothing: no statement reaches the database.
\<close>

theorem unauthenticated_refused:
  assumes "jwt_laws (lib_jwt (ap_libs A))" and "caller A rq s = None"
    and "cm_route (matched A C verb path) = Some i" and "i < length (NewRouter A C)"
    and "guarded (rt_pattern (NewRouter A C ! i))"
  shows "ServeHTTP A C verb path rq s =
    (Response 401 [(''WWW-Authenticate'', ''Bearer realm='' @ quote ''api''), content_json]
       (print_json (ResponseJson False None ''invalid or expired token'') @ [CHR 0x0A]), s)"
proof -
  from guarded_route [OF nth_mem [OF assms(4)] assms(5)] obtain h where
    h: "rt_handler (NewRouter A C ! i) = AuthMiddleware A h" ..
  have "Auth (lib_jwt (ap_libs A)) (lib_manager (ap_libs A)) (app_now s) (rq_Header rq ''Authorization'') = Unauthorized"
    using assms(2) by (auto simp: caller_def Auth_acceptable [OF assms(1)] split: option.splits if_splits)
  with h assms(3,4) show ?thesis by (simp add: ServeHTTP_def AuthMiddleware_def Let_def)
qed

theorem unauthenticated_refused_witness:
  "rs_status (fst (ServeHTTP sample_api sample_chi ''POST'' ''/api/orders/{id}/cancel'' sample_nobody sample_shop)) = 401 \<and>
   snd (ServeHTTP sample_api sample_chi ''POST'' ''/api/orders/{id}/cancel'' sample_nobody sample_shop) = sample_shop"
  using unauthenticated_refused [OF sample_server_ok(2) sample_callers(2) sample_matched(1), of sample_shop]
  by (simp add: sample_matched guarded_def)

text \<open>
  C28. Clients never see the text of an internal error: whatever the database driver's errors say, every
  request is answered the same, and leaves the same state.
\<close>

theorem internal_texts_hidden:
  "ServeHTTP (A\<lparr>ap_driver_text := T\<rparr>) C verb path rq s = ServeHTTP A C verb path rq s"
  unfolding ServeHTTP_def matched_def text_free_router ..



text \<open>
  C29. The metrics agree with what was answered: over any run of requests the counters of requests, errors
  and latencies grow by exactly the matching entries of the access log, and none is left in flight.
\<close>

theorem metrics_count_accesses:
  "case metered_run A C calls s m of (log, s', m') \<Rightarrow> counted m log m'"
proof (induction calls arbitrary: s m)
  case Nil
  show ?case by (simp add: counted_def)
next
  case (Cons c calls)
  obtain verb path rq where c: "c = (verb, path, rq)" by (cases c)
  obtain resp s1 m1 where h: "HandleRequest A C verb path rq s m = (resp, s1, m1)" by (cases "HandleRequest A C verb path rq s m")
  obtain log s2 m2 where run: "metered_run A C calls s1 m1 = (log, s2, m2)" by (cases "metered_run A C calls s1 m1")
  from counted_append [OF HandleRequest_counted [OF h]] Cons.IH [where s = s1 and m = m1] c h run show ?case
    by (simp add: Let_def)
qed

end
