(* ===== verification/Config.thy ===== *)
theory Config
  imports Text
begin

text \<open>
  The configuration (\<open>config/config.go\<close>): the environment, \<open>time.ParseDuration\<close>, and \<open>Load\<close>. What
  \<open>godotenv\<close> reads from \<open>.env\<close> is an argument; it sets only variables that are not set. A \<^typ>\<open>'f\<close>
  is a \<open>float64\<close>, read by \<open>strconv.ParseFloat\<close>, which only the sampling ratio of traces uses.
\<close>

section \<open>Durations\<close>

text \<open>A \<open>time.Duration\<close>: nanoseconds in an \<open>int64\<close>.\<close>

type_synonym Duration = "64 word"

text \<open>
  A \<open>float64\<close> is a fraction of two numbers here. \<open>float64 a b\<close> rounds \<open>a / b\<close> to 53 bits, ties to
  even; \<open>a / b\<close> is at least \<open>2 ^ -64\<close> where it is used, and far from the range's end.
\<close>

fun bits :: "nat \<Rightarrow> nat" where
  "bits n = (if n = 0 then 0 else Suc (bits (n div 2)))"

declare bits.simps [simp del]

definition round_even :: "nat \<Rightarrow> nat \<Rightarrow> nat" where
  "round_even a b =
     (let q = a div b; r = a mod b in if 2 * r < b \<or> 2 * r = b \<and> even q then q else q + 1)"

definition float64 :: "nat \<Rightarrow> nat \<Rightarrow> nat \<times> nat" where
  "float64 a b =
     (let n = bits (a * 2 ^ 64 div b) in
      if 53 \<le> n then (round_even (a * 2 ^ 64) (b * 2 ^ (n - 53)) * 2 ^ (n - 53), 2 ^ 64)
      else (round_even (a * 2 ^ (64 + (53 - n))) b, 2 ^ (64 + (53 - n))))"

text \<open>\<open>uint64(float64(f) * (float64(unit) / scale))\<close>.\<close>

definition fraction_of_unit :: "nat \<Rightarrow> nat \<Rightarrow> nat \<Rightarrow> nat" where
  "fraction_of_unit f unit scale =
     (let (a, b) = float64 f 1; (c, d) = float64 unit scale; (p, q) = float64 (a * c) (b * d) in p div q)"

text \<open>The whole part, an error above \<open>2 ^ 63\<close>; the digits after the point that can be taken in.\<close>

fun leadingInt :: "nat \<Rightarrow> string \<Rightarrow> (nat \<times> string) option" where
  "leadingInt x [] = Some (x, [])"
| "leadingInt x (c # s) =
     (case digit_val c of
        None \<Rightarrow> Some (x, c # s)
      | Some d \<Rightarrow>
          if 2 ^ 63 div 10 < x \<or> 2 ^ 63 < x * 10 + d then None else leadingInt (x * 10 + d) s)"

fun leadingFraction :: "nat \<Rightarrow> nat \<Rightarrow> bool \<Rightarrow> string \<Rightarrow> nat \<times> nat \<times> string" where
  "leadingFraction x scale overflow [] = (x, scale, [])"
| "leadingFraction x scale overflow (c # s) =
     (case digit_val c of
        None \<Rightarrow> (x, scale, c # s)
      | Some d \<Rightarrow>
          if overflow \<or> (2 ^ 63 - 1) div 10 < x \<or> 2 ^ 63 < x * 10 + d then leadingFraction x scale True s
          else leadingFraction (x * 10 + d) (scale * 10) False s)"

definition in_unit :: "char \<Rightarrow> bool" where
  "in_unit c \<longleftrightarrow> c \<noteq> CHR ''.'' \<and> digit_val c = None"

definition unitMap :: "string \<Rightarrow> nat option" where
  "unitMap = map_of [(''ns'', 1), (''us'', 10 ^ 3), (bytes [0xC2, 0xB5, 115], 10 ^ 3), (bytes [0xCE, 0xBC, 115], 10 ^ 3),
     (''ms'', 10 ^ 6), (''s'', 10 ^ 9), (''m'', 60 * 10 ^ 9), (''h'', 3600 * 10 ^ 9)]"

text \<open>One number with its unit: its nanoseconds and the rest of the text.\<close>

definition duration_part :: "string \<Rightarrow> (nat \<times> string) option" where
  "duration_part s =
     (case leadingInt 0 s of
        None \<Rightarrow> None
      | Some (v, s1) \<Rightarrow>
          let (f, scale, s2) = (case s1 of CHR ''.'' # r \<Rightarrow> leadingFraction 0 1 False r | _ \<Rightarrow> (0, 1, s1));
              pre = length s1 < length s; post = length s2 + 1 < length s1;
              u = takeWhile in_unit s2
          in if \<not> pre \<and> \<not> post then None
             else case unitMap u of
               None \<Rightarrow> None
             | Some unit \<Rightarrow>
                 if 2 ^ 63 div unit < v then None
                 else let w = v * unit + (if 0 < f then fraction_of_unit f unit scale else 0) in
                   if 2 ^ 63 < w then None else Some (w, drop (length u) s2))"

text \<open>The sum is a \<open>uint64\<close> that is checked after each addition.\<close>

fun duration_parts :: "nat \<Rightarrow> nat \<Rightarrow> string \<Rightarrow> nat option" where
  "duration_parts fuel d [] = Some d"
| "duration_parts 0 d s = None"
| "duration_parts (Suc fuel) d s =
     (case duration_part s of
        None \<Rightarrow> None
      | Some (v, r) \<Rightarrow> let d' = (d + v) mod 2 ^ 64 in if 2 ^ 63 < d' then None else duration_parts fuel d' r)"

definition ParseDuration :: "string \<Rightarrow> Duration option" where
  "ParseDuration str =
     (let (neg, s) = (case str of CHR ''-'' # r \<Rightarrow> (True, r) | CHR ''+'' # r \<Rightarrow> (False, r) | _ \<Rightarrow> (False, str)) in
      if s = ''0'' then Some 0
      else if s = [] then None
      else case duration_parts (length s) 0 s of
        None \<Rightarrow> None
      | Some d \<Rightarrow>
          if neg then Some (- word_of_nat d)
          else if 2 ^ 63 - 1 < d then None
          else Some (word_of_nat d))"

section \<open>The environment\<close>

type_synonym environ = "string \<Rightarrow> string option"

definition Getenv :: "environ \<Rightarrow> string \<Rightarrow> string" where
  "Getenv env key = (case env key of None \<Rightarrow> [] | Some v \<Rightarrow> v)"

definition getEnv :: "environ \<Rightarrow> string \<Rightarrow> string \<Rightarrow> string" where
  "getEnv env key fallback = (case env key of None \<Rightarrow> fallback | Some val \<Rightarrow> val)"

definition getEnvFloat :: "(string \<Rightarrow> 'f option) \<Rightarrow> environ \<Rightarrow> string \<Rightarrow> 'f \<Rightarrow> 'f" where
  "getEnvFloat ParseFloat env key fallback =
     (let valStr = Getenv env key in
      if valStr \<noteq> [] then (case ParseFloat valStr of None \<Rightarrow> fallback | Some val \<Rightarrow> val) else fallback)"

definition getEnvInt :: "environ \<Rightarrow> string \<Rightarrow> 64 word \<Rightarrow> 64 word" where
  "getEnvInt env key fallback = (case Atoi (Getenv env key) of None \<Rightarrow> fallback | Some val \<Rightarrow> val)"

definition getEnvDuration :: "environ \<Rightarrow> string \<Rightarrow> Duration \<Rightarrow> Duration" where
  "getEnvDuration env key fallback = (case ParseDuration (Getenv env key) of None \<Rightarrow> fallback | Some val \<Rightarrow> val)"

definition getEnvTimeDuration :: "environ \<Rightarrow> string \<Rightarrow> Duration option" where
  "getEnvTimeDuration env key = ParseDuration (Getenv env key)"

record 'f Config =
  DatabaseURL :: string
  JwtSecret :: string
  Port :: string
  GoEnv :: string
  RedisHost :: string
  RedisPort :: string
  JwtExpiry :: Duration
  LoginRateLimit :: "64 word"
  LoginRateWindow :: Duration
  OtelExporterEndpoint :: string
  OtelServiceName :: string
  OtelSampleRatio :: 'f
  MetricsPort :: string

text \<open>\<open>one\<close> is the constant \<open>1.0\<close>.\<close>

definition Load :: "(string \<Rightarrow> 'f option) \<Rightarrow> 'f \<Rightarrow> environ \<Rightarrow> environ \<Rightarrow> string + 'f Config" where
  "Load ParseFloat one dotenv process =
     (let env = dotenv ++ process; databaseUrl = Getenv env ''DATABASE_URL''; jwtSecret = Getenv env ''JWT_SECRET'' in
      if databaseUrl = [] then Inl ''missing DATABASE_URL''
      else if jwtSecret = [] then Inl ''missing JWT_SECRET''
      else case getEnvTimeDuration env ''JWT_EXPIRY'' of
        None \<Rightarrow> Inl ''JWT_EXPIRY is invalid format''
      | Some jwtExpiry \<Rightarrow> Inr \<lparr>
          DatabaseURL = databaseUrl,
          JwtSecret = jwtSecret,
          Port = getEnv env ''PORT'' ''8080'',
          GoEnv = getEnv env ''GO_ENV'' ''development'',
          RedisHost = getEnv env ''REDIS_HOST'' ''localhost'',
          RedisPort = getEnv env ''REDIS_PORT'' ''6379'',
          JwtExpiry = jwtExpiry,
          LoginRateLimit = getEnvInt env ''LOGIN_RATE_LIMIT'' 5,
          LoginRateWindow = getEnvDuration env ''LOGIN_RATE_WINDOW'' (15 * 60 * 1000000000),
          OtelExporterEndpoint = getEnv env ''OTEL_EXPORTER_OTLP_ENDPOINT'' ''http://localhost:4318/v1/traces'',
          OtelServiceName = getEnv env ''OTEL_SERVICE_NAME'' ''order-api'',
          OtelSampleRatio = getEnvFloat ParseFloat env ''OTEL_SAMPLE_RATIO'' one,
          MetricsPort = getEnv env ''METRICS_PORT'' ''9100''\<rparr>)"

section \<open>Whole numbers of a unit\<close>

lemma parse_digits_ge: "parse_digits x s = Some n \<Longrightarrow> x \<le> n"
proof (induction s arbitrary: x)
  case (Cons c s)
  then obtain d where "parse_digits (x * 10 + d) s = Some n" by (auto split: option.splits)
  from Cons.IH [OF this] show ?case by simp
qed simp

text \<open>\<open>leadingInt\<close> reads digits up to a unit, and is an error exactly above \<open>2 ^ 63\<close>.\<close>

lemma leadingInt_digits:
  assumes "parse_digits x s = Some n" and "x \<le> 2 ^ 63" and "u \<noteq> []" and "digit_val (hd u) = None"
  shows "leadingInt x (s @ u) = (if n \<le> 2 ^ 63 then Some (n, u) else None)"
  using assms(1,2)
proof (induction s arbitrary: x)
  case Nil
  with assms(3,4) show ?case by (cases u) auto
next
  case (Cons c s)
  then obtain d where d: "digit_val c = Some d" "parse_digits (x * 10 + d) s = Some n" by (auto split: option.splits)
  show ?case
  proof (cases "2 ^ 63 < x * 10 + d")
    case True
    with parse_digits_ge [OF d(2)] d show ?thesis by simp
  next
    case False
    then have "\<not> 2 ^ 63 div 10 < x" by simp
    with False Cons.IH [OF d(2)] d show ?thesis by simp
  qed
qed

lemma unit_text:
  assumes "unitMap u = Some k"
  shows "u \<noteq> []" "digit_val (hd u) = None" "hd u \<noteq> CHR ''.''" "takeWhile in_unit u = u" "0 < k"
proof -
  let ?units = "[''ns'', ''us'', bytes [0xC2, 0xB5, 115], bytes [0xCE, 0xBC, 115], ''ms'', ''s'', ''m'', ''h'']"
  have "u \<in> set ?units" "0 < k" using assms by (auto simp: unitMap_def split: if_splits)
  moreover have "list_all (\<lambda>u. u \<noteq> [] \<and> digit_val (hd u) = None \<and> hd u \<noteq> CHR ''.'' \<and> takeWhile in_unit u = u) ?units"
    by code_simp
  ultimately show "u \<noteq> []" "digit_val (hd u) = None" "hd u \<noteq> CHR ''.''" "takeWhile in_unit u = u" "0 < k"
    unfolding list_all_iff by blast+
qed

lemma duration_part_whole:
  assumes "unitMap u = Some k"
  shows "duration_part (dec n @ u) = (if n * k \<le> 2 ^ 63 then Some (n * k, []) else None)"
proof -
  note u = unit_text [OF assms]
  have lead: "leadingInt 0 (dec n @ u) = (if n \<le> 2 ^ 63 then Some (n, u) else None)"
    using leadingInt_digits [OF parse_digits_dec _ u(1,2)] by simp
  obtain c r where cr: "u = c # r" "c \<noteq> CHR ''.''" using u(1,3) by (cases u) auto
  have plain: "(case u of CHR ''.'' # r \<Rightarrow> leadingFraction 0 1 False r | _ \<Rightarrow> (0, 1, u)) = (0, 1, u)"
    using cr by (simp split: char.splits bool.splits)
  have fits: "2 ^ 63 div k < n \<longleftrightarrow> 2 ^ 63 < n * k"
    using u(5) by (simp add: div_less_iff_less_mult mult.commute)
  have "n \<le> n * k" using u(5) by simp
  then have "\<not> n \<le> 2 ^ 63 \<Longrightarrow> \<not> n * k \<le> 2 ^ 63" by linarith
  then show ?thesis
    using fits u(4) assms unfolding duration_part_def lead
    by (cases "n \<le> 2 ^ 63") (simp_all add: plain Let_def not_less del: takeWhile_eq_all_conv)
qed

lemma ParseDuration_units:
  assumes "unitMap u = Some k"
  shows "ParseDuration (dec n @ u) = (if n * k < 2 ^ 63 then Some (word_of_nat (n * k)) else None)"
    and "ParseDuration (CHR ''-'' # dec n @ u) = (if n * k \<le> 2 ^ 63 then Some (- word_of_nat (n * k)) else None)"
proof -
  note u = unit_text [OF assms]
  let ?s = "dec n @ u"
  obtain c cs where d: "dec n = c # cs" by (cases "dec n") auto
  with dec_hd [of n] have "c \<noteq> CHR ''-''" "c \<noteq> CHR ''+''" by simp_all
  then have sign: "(case ?s of CHR ''-'' # r \<Rightarrow> (True, r) | CHR ''+'' # r \<Rightarrow> (False, r) | _ \<Rightarrow> (False, ?s)) = (False, ?s)"
    unfolding d by (simp split: char.splits bool.splits)
  have nonzero: "?s \<noteq> ''0''" "?s \<noteq> []" using u(1) d by (auto simp: append_eq_Cons_conv)
  have mod: "n * k \<le> 2 ^ 63 \<Longrightarrow> n * k mod 2 ^ 64 = n * k" by simp
  obtain m where "length ?s = Suc m" using d by simp
  then have parts: "duration_parts (length ?s) 0 ?s = (if n * k \<le> 2 ^ 63 then Some (n * k) else None)"
    using nonzero(2) mod duration_part_whole [OF assms, of n] by (cases ?s) (auto simp: Let_def)
  show "ParseDuration ?s = (if n * k < 2 ^ 63 then Some (word_of_nat (n * k)) else None)"
    using nonzero parts unfolding ParseDuration_def sign by auto
  show "ParseDuration (CHR ''-'' # ?s) = (if n * k \<le> 2 ^ 63 then Some (- word_of_nat (n * k)) else None)"
    using nonzero parts by (auto simp: ParseDuration_def)
qed

section \<open>Properties\<close>

text \<open>
  A duration written as a whole number of a unit, as in \<open>JWT_EXPIRY=24h\<close>, is read as exactly that many
  nanoseconds; one that does not fit an \<open>int64\<close> is refused, never wrapped around.
\<close>

theorem ParseDuration_whole:
  assumes "unitMap u = Some k"
  shows "ParseDuration (dec n @ u) = (if n * k < 2 ^ 63 then Some (word_of_nat (n * k)) else None) \<and>
    ParseDuration (CHR ''-'' # dec n @ u) = (if n * k \<le> 2 ^ 63 then Some (- word_of_nat (n * k)) else None)"
  using ParseDuration_units [OF assms] by blast

theorem ParseDuration_whole_witness:
  "ParseDuration (dec 24 @ ''h'') = Some 86400000000000 \<and> ParseDuration (dec 9223372037 @ ''s'') = None"
  using ParseDuration_whole [of "''h''" "3600 * 10 ^ 9" 24] ParseDuration_whole [of "''s''" "10 ^ 9" 9223372037]
  by (simp add: unitMap_def bytes_def)

text \<open>
  What \<open>Load\<close> accepts: the database's address and a secret that are not empty and an expiry that is a
  duration. What is set in the process wins over \<open>.env\<close>; a limit or window that cannot be read falls back
  to 5 failures in 15 minutes.
\<close>

theorem Load_accepts:
  "case Load ParseFloat one dotenv process of
     Inl err \<Rightarrow> Getenv (dotenv ++ process) ''DATABASE_URL'' = [] \<or> Getenv (dotenv ++ process) ''JWT_SECRET'' = [] \<or>
       ParseDuration (Getenv (dotenv ++ process) ''JWT_EXPIRY'') = None
   | Inr cfg \<Rightarrow> DatabaseURL cfg \<noteq> [] \<and> JwtSecret cfg \<noteq> [] \<and>
       ParseDuration (Getenv (dotenv ++ process) ''JWT_EXPIRY'') = Some (JwtExpiry cfg) \<and>
       JwtSecret cfg = (case process ''JWT_SECRET'' of None \<Rightarrow> Getenv dotenv ''JWT_SECRET'' | Some secret \<Rightarrow> secret) \<and>
       (LoginRateLimit cfg = 5 \<or> Atoi (Getenv (dotenv ++ process) ''LOGIN_RATE_LIMIT'') = Some (LoginRateLimit cfg)) \<and>
       (LoginRateWindow cfg = 900000000000 \<or>
        ParseDuration (Getenv (dotenv ++ process) ''LOGIN_RATE_WINDOW'') = Some (LoginRateWindow cfg))"
  by (auto simp: Load_def Let_def getEnvTimeDuration_def getEnvInt_def getEnvDuration_def Getenv_def map_add_def
      split: option.splits)

end
