(* ===== verification/Observability.thy ===== *)
theory Observability
  imports Config Json
begin

text \<open>
  Logs (\<open>logger/logger.go\<close>, \<open>logger/trace_handler.go\<close>), the registration of metrics
  (\<open>metrics/metrics.go\<close>), the statistics of the connection pool (\<open>metrics/pool.go\<close>) and the set-up of
  traces (\<open>tracing/tracing.go\<close>).
\<close>

section \<open>Logs\<close>

text \<open>
  \<open>log/slog\<close>: a record with its attributes, and the JSON handler with the attributes and groups it was
  given by \<open>WithAttrs\<close> and \<open>WithGroup\<close>, in order.
\<close>

type_synonym attr = "string \<times> json"

record log_record =
  lr_Level :: int
  lr_Message :: string
  lr_Attrs :: "attr list"

datatype group_or_attrs = Group string | Attrs "attr list"

datatype log_handler = JSONHandler int "group_or_attrs list" | TraceHandler log_handler

record SpanContext =
  sc_IsValid :: bool
  sc_TraceID :: string
  sc_SpanID :: string

fun nest :: "group_or_attrs list \<Rightarrow> attr list \<Rightarrow> attr list" where
  "nest [] attrs = attrs"
| "nest (Attrs as # gs) attrs = as @ nest gs attrs"
| "nest (Group name # gs) attrs = (let inner = nest gs attrs in if inner = [] then [] else [(name, JObject inner)])"

fun Enabled :: "log_handler \<Rightarrow> int \<Rightarrow> bool" where
  "Enabled (JSONHandler lo gs) level \<longleftrightarrow> lo \<le> level"
| "Enabled (TraceHandler next) level \<longleftrightarrow> Enabled next level"

text \<open>What a handler writes for a record: the members of one line after its time and level.\<close>

fun Handle :: "log_handler \<Rightarrow> SpanContext \<Rightarrow> log_record \<Rightarrow> attr list" where
  "Handle (JSONHandler lo gs) sc record = (''msg'', JString (lr_Message record)) # nest gs (lr_Attrs record)"
| "Handle (TraceHandler next) sc record =
     Handle next sc
       (if sc_IsValid sc
        then record\<lparr>lr_Attrs := lr_Attrs record @
               [(''trace_id'', JString (sc_TraceID sc)), (''span_id'', JString (sc_SpanID sc))]\<rparr>
        else record)"

fun WithAttrs :: "log_handler \<Rightarrow> attr list \<Rightarrow> log_handler" where
  "WithAttrs (JSONHandler lo gs) attrs = (if attrs = [] then JSONHandler lo gs else JSONHandler lo (gs @ [Attrs attrs]))"
| "WithAttrs (TraceHandler next) attrs = TraceHandler (WithAttrs next attrs)"

fun WithGroup :: "log_handler \<Rightarrow> string \<Rightarrow> log_handler" where
  "WithGroup (JSONHandler lo gs) name = (if name = [] then JSONHandler lo gs else JSONHandler lo (gs @ [Group name]))"
| "WithGroup (TraceHandler next) name = TraceHandler (WithGroup next name)"

definition LevelDebug :: int where "LevelDebug = -4"
definition LevelInfo :: int where "LevelInfo = 0"

definition logger_New :: "string \<Rightarrow> log_handler" where
  "logger_New env =
     TraceHandler (if env = ''production'' then JSONHandler LevelInfo [] else JSONHandler LevelDebug [])"

text \<open>\<open>Logger.Log\<close>: nothing is written below the level of the handler.\<close>

definition logged :: "log_handler \<Rightarrow> SpanContext \<Rightarrow> log_record \<Rightarrow> attr list option" where
  "logged h sc r = (if Enabled h (lr_Level r) then Some (Handle h sc r) else None)"

lemma nest_append: "nest (gs @ [Attrs as]) attrs = nest gs (as @ attrs)"
  by (induction gs "as @ attrs" rule: nest.induct) auto

lemma Enabled_With [simp]:
  "Enabled (WithAttrs h as) l = Enabled h l" "Enabled (WithGroup h g) l = Enabled h l"
  by (induction h) auto

text \<open>\<open>WithAttrs\<close> puts attributes in front of those of every record, also through a \<open>TraceHandler\<close>.\<close>

lemma Handle_WithAttrs:
  "Handle (WithAttrs h as) sc r = Handle h sc (r\<lparr>lr_Attrs := as @ lr_Attrs r\<rparr>)"
  by (induction h arbitrary: r) (auto simp: nest_append)

text \<open>
  A line logged while a request is traced ends with the ids of its trace and span, after its own
  attributes and those of the logger; outside of a span it carries no ids. Debug lines are written unless
  the environment is production.
\<close>

theorem logged_trace:
  "logged (WithAttrs (logger_New env) as) sc r =
     (if env = ''production'' \<and> lr_Level r < LevelInfo \<or> lr_Level r < LevelDebug then None
      else Some ((''msg'', JString (lr_Message r)) # as @ lr_Attrs r @
        (if sc_IsValid sc
         then [(''trace_id'', JString (sc_TraceID sc)), (''span_id'', JString (sc_SpanID sc))] else [])))"
  by (auto simp: logged_def logger_New_def Handle_WithAttrs LevelInfo_def LevelDebug_def)

section \<open>Metrics\<close>

text \<open>A registry of \<open>prometheus/client_golang\<close> holds the names of its metrics, each once.\<close>

record Desc =
  ds_fqName :: string
  ds_help :: string

datatype ValueType = GaugeValue | CounterValue

definition desc :: "string \<Rightarrow> string \<Rightarrow> Desc" where
  "desc name help = \<lparr>ds_fqName = name, ds_help = help\<rparr>"

definition registry_Register :: "Desc list \<Rightarrow> Desc list \<Rightarrow> string + Desc list" where
  "registry_Register descs registry =
     (if distinct (map ds_fqName descs) \<and> set (map ds_fqName descs) \<inter> set (map ds_fqName registry) = {}
      then Inr (registry @ descs)
      else Inl ''duplicate metrics collector registration attempted'')"

text \<open>
  \<open>metrics.New\<close>; \<open>runtime\<close> are the metrics of the library's Go and process collectors. \<open>None\<close> is the
  panic of \<open>MustRegister\<close>.
\<close>

definition http_metrics :: "Desc list" where
  "http_metrics =
     [desc ''http_requests_total'' ''Total number of HTTP requests served, by route pattern, method and status code.'',
      desc ''http_request_duration_seconds'' ''HTTP request latency in seconds, by route pattern and method.'',
      desc ''http_request_errors_total''
        ''Total number of HTTP requests that failed, split into client (4xx) and server (5xx) errors.'',
      desc ''http_requests_in_flight'' ''Number of HTTP requests currently being served.'']"

definition metrics_New :: "Desc list \<Rightarrow> Desc list option" where
  "metrics_New runtime = (case registry_Register (http_metrics @ runtime) [] of Inl _ \<Rightarrow> None | Inr reg \<Rightarrow> Some reg)"

text \<open>\<open>pgxpool.Stat\<close>: one snapshot, from which every sample of a scrape is taken.\<close>

record Stat =
  st_AcquiredConns :: int
  st_IdleConns :: int
  st_TotalConns :: int
  st_MaxConns :: int
  st_ConstructingConns :: int
  st_AcquireCount :: int
  st_EmptyAcquireCount :: int

record poolCollector =
  pc_acquired :: Desc
  pc_idle :: Desc
  pc_total :: Desc
  pc_max :: Desc
  pc_constructing :: Desc
  pc_acquireCount :: Desc
  pc_emptyAcquires :: Desc

definition newPoolCollector :: poolCollector where
  "newPoolCollector = \<lparr>
     pc_acquired = desc ''db_pool_acquired_connections'' ''Number of connections currently checked out of the pgx pool.'',
     pc_idle = desc ''db_pool_idle_connections'' ''Number of idle connections in the pgx pool.'',
     pc_total = desc ''db_pool_total_connections'' ''Total number of connections currently held by the pgx pool.'',
     pc_max = desc ''db_pool_max_connections'' ''Configured maximum size of the pgx pool.'',
     pc_constructing = desc ''db_pool_constructing_connections''
       ''Number of connections the pgx pool is currently establishing.'',
     pc_acquireCount = desc ''db_pool_acquire_total''
       ''Cumulative number of successful connection acquisitions from the pgx pool.'',
     pc_emptyAcquires = desc ''db_pool_empty_acquire_total''
       ''Cumulative number of acquisitions that had to wait because the pool was empty.''\<rparr>"

definition Describe :: "poolCollector \<Rightarrow> Desc list" where
  "Describe c = [pc_acquired c, pc_idle c, pc_total c, pc_max c, pc_constructing c, pc_acquireCount c, pc_emptyAcquires c]"

text \<open>\<open>float64(n)\<close> of a whole number.\<close>

definition float64_int :: "int \<Rightarrow> int" where
  "float64_int n = sgn n * (case float64 (nat \<bar>n\<bar>) 1 of (p, q) \<Rightarrow> int (p div q))"

definition Collect :: "poolCollector \<Rightarrow> Stat \<Rightarrow> (Desc \<times> ValueType \<times> int) list" where
  "Collect c stat =
     (let gauge = (\<lambda>d v. (d, GaugeValue, v)); counter = (\<lambda>d v. (d, CounterValue, v)) in
      [gauge (pc_acquired c) (float64_int (st_AcquiredConns stat)),
       gauge (pc_idle c) (float64_int (st_IdleConns stat)),
       gauge (pc_total c) (float64_int (st_TotalConns stat)),
       gauge (pc_max c) (float64_int (st_MaxConns stat)),
       gauge (pc_constructing c) (float64_int (st_ConstructingConns stat)),
       counter (pc_acquireCount c) (float64_int (st_AcquireCount stat)),
       counter (pc_emptyAcquires c) (float64_int (st_EmptyAcquireCount stat))])"

definition RegisterPool :: "Desc list \<Rightarrow> string + Desc list" where
  "RegisterPool registry = registry_Register (Describe newPoolCollector) registry"

text \<open>A scrape reports exactly the described metrics, each once, in the same order.\<close>

lemma Collect_described: "map fst (Collect c stat) = Describe c"
  by (simp add: Collect_def Describe_def Let_def)

text \<open>
  The pool is registered on a new registry unless the library's own metrics use one of its names.
\<close>

lemma RegisterPool_New:
  assumes "metrics_New runtime = Some reg"
    and "set (map ds_fqName runtime) \<inter> set (map ds_fqName (Describe newPoolCollector)) = {}"
  shows "RegisterPool reg = Inr (http_metrics @ runtime @ Describe newPoolCollector)"
proof -
  have "reg = http_metrics @ runtime"
    using assms(1) by (auto simp: metrics_New_def registry_Register_def split: if_splits)
  moreover have "distinct (map ds_fqName (Describe newPoolCollector))"
    "set (map ds_fqName (Describe newPoolCollector)) \<inter> set (map ds_fqName http_metrics) = {}"
    by code_simp+
  ultimately show ?thesis using assms(2) by (auto simp: RegisterPool_def registry_Register_def)
qed

section \<open>Traces\<close>

text \<open>
  The provider is built from an exporter and a resource, of which the OpenTelemetry library can fail to
  make either, and then set globally.
\<close>

record ('x, 'f) TracerProvider =
  tp_exporter :: 'x
  tp_serviceName :: string
  tp_sampleRatio :: 'f

record ('x, 'f) otel_globals =
  ot_provider :: "('x, 'f) TracerProvider option"
  ot_propagators :: "string list"
  ot_errors_logged :: bool

definition tracing_New ::
  "(string \<Rightarrow> string + 'x) \<Rightarrow> (string \<Rightarrow> string option) \<Rightarrow> 'f Config \<Rightarrow> ('x, 'f) otel_globals \<Rightarrow>
   (string + ('x, 'f) TracerProvider) \<times> ('x, 'f) otel_globals" where
  "tracing_New exporter_New resource_New cfg ot =
     (case exporter_New (OtelExporterEndpoint cfg) of
        Inl err \<Rightarrow> (Inl err, ot)
      | Inr exporter \<Rightarrow>
     case resource_New (OtelServiceName cfg) of
        Some err \<Rightarrow> (Inl err, ot)
      | None \<Rightarrow>
          let tp = \<lparr>tp_exporter = exporter, tp_serviceName = OtelServiceName cfg, tp_sampleRatio = OtelSampleRatio cfg\<rparr> in
          (Inr tp, ot\<lparr>ot_provider := Some tp, ot_propagators := [''baggage'', ''tracecontext''], ot_errors_logged := True\<rparr>))"

end
