(* ===== verification/Startup.thy ===== *)
theory Startup
  imports Sample_Http Observability
begin

text \<open>
  From the configuration to a running server and down again: opening the pool
  (\<open>database/database.go\<close>), wiring the application (\<open>server/app.go\<close>) and the process
  (\<open>cmd/api/main.go\<close>).
\<close>

section \<open>Opening the database\<close>

text \<open>
  The process while it starts: how many pings it has sent, how long it has slept in nanoseconds, and
  what it holds open, the latest first.
\<close>

datatype resource = DBPool | RedisClient

record boot =
  bt_pings :: nat
  bt_slept :: nat
  bt_open :: "resource list"

definition boot_open :: "resource \<Rightarrow> boot \<Rightarrow> boot" where
  "boot_open x b = b\<lparr>bt_open := x # bt_open b\<rparr>"

definition boot_close :: "resource \<Rightarrow> boot \<Rightarrow> boot" where
  "boot_close x b = b\<lparr>bt_open := remove1 x (bt_open b)\<rparr>"

record pool_config =
  po_ConnString :: string
  po_MaxConns :: nat
  po_MinConns :: nat
  po_MaxConnLifetime :: Duration
  po_MaxConnIdleTime :: Duration
  po_TrimSQLInSpanName :: bool
  po_SpanNameFunc :: "string \<Rightarrow> string"

text \<open>The pgx library: it parses a DSN, makes a pool, and answers the n-th ping or says why not.\<close>

record pgx =
  pgx_ParseConfig :: "string \<Rightarrow> string + pool_config"
  pgx_NewWithConfig :: "pool_config \<Rightarrow> string option"
  pgx_Ping :: "nat \<Rightarrow> string option"

definition maxAttempts :: nat where "maxAttempts = 10"
definition retryDelay :: nat where "retryDelay = 2 * 10 ^ 9"

text \<open>\<open>for i := 1; i < maxAttempts; i++\<close>, with the turns that are left.\<close>

fun ping_loop :: "pgx \<Rightarrow> nat \<Rightarrow> string \<Rightarrow> boot \<Rightarrow> string option \<times> boot" where
  "ping_loop L 0 pingErr b = (Some pingErr, b)"
| "ping_loop L (Suc turns) pingErr b =
     (let b1 = b\<lparr>bt_pings := bt_pings b + 1\<rparr> in
      case pgx_Ping L (bt_pings b) of
        None \<Rightarrow> (None, b1)
      | Some err \<Rightarrow> ping_loop L turns err (b1\<lparr>bt_slept := bt_slept b1 + retryDelay\<rparr>))"

definition pool_settings :: "pool_config \<Rightarrow> pool_config" where
  "pool_settings cfg = cfg\<lparr>po_MaxConns := 10, po_MinConns := 2, po_MaxConnLifetime := 3600 * 1000000000,
     po_MaxConnIdleTime := 30 * 60 * 1000000000, po_TrimSQLInSpanName := True, po_SpanNameFunc := spanNameFromSQL\<rparr>"

definition database_New :: "pgx \<Rightarrow> string \<Rightarrow> boot \<Rightarrow> (string + pool_config) \<times> boot" where
  "database_New L dsn b =
     (case pgx_ParseConfig L dsn of
        Inl err \<Rightarrow> (Inl err, b)
      | Inr parsed \<Rightarrow>
          let cfgPool = pool_settings parsed in
          case pgx_NewWithConfig L cfgPool of
            Some err \<Rightarrow> (Inl err, b)
          | None \<Rightarrow>
              (case ping_loop L (maxAttempts - 1) [] (boot_open DBPool b) of
                 (None, b1) \<Rightarrow> (Inr cfgPool, b1)
               | (Some pingErr, b1) \<Rightarrow>
                   (Inl (''db not ready after '' @ Itoa (word_of_nat maxAttempts) @ '' retries: '' @ pingErr),
                    boot_close DBPool b1)))"

section \<open>Wiring\<close>

text \<open>
  The libraries the application is built on. A time to live goes to Redis in milliseconds, at least one;
  an expiry is kept here in microseconds.
\<close>

definition ttl_of :: "Duration \<Rightarrow> time" where
  "ttl_of d = (let n = sint d in if n \<le> 0 then 0 else if n < 1000000 then 1000 else n div 1000000 * 1000)"

record libraries =
  li_pgx :: pgx
  li_redis :: "redis redis_client"
  li_InstrumentTracing :: "string option"
  li_runtime_metrics :: "Desc list"
  li_bcrypt :: bcrypt_lib
  li_jwt :: jwt_lib
  li_text :: text_lib
  li_valid :: validator
  li_driver_text :: "go_error \<Rightarrow> string"
  li_chi :: chi

definition NewRateLimiter :: "redis redis_client \<Rightarrow> goint \<Rightarrow> Duration \<Rightarrow> redis RateLimiter" where
  "NewRateLimiter rdb limit window = \<lparr>rl_rdb = rdb, rl_limit = limit, rl_window = ttl_of window\<rparr>"

definition NewJWTManager :: "string \<Rightarrow> Duration \<Rightarrow> JWTManager" where
  "NewJWTManager secret expiry = \<lparr>jm_Secret = secret, jm_Expiry = sint expiry div 1000\<rparr>"

definition wire :: "libraries \<Rightarrow> 'f Config \<Rightarrow> api" where
  "wire L cfg = \<lparr>
     ap_libs = \<lparr>lib_bcrypt = li_bcrypt L, lib_jwt = li_jwt L, lib_manager = NewJWTManager (JwtSecret cfg) (JwtExpiry cfg)\<rparr>,
     ap_text = li_text L,
     ap_valid = li_valid L,
     ap_limiter = limiter_of (NewRateLimiter (li_redis L) (LoginRateLimit cfg) (LoginRateWindow cfg)),
     ap_driver_text = li_driver_text L\<rparr>"

record App =
  app_Router :: "route list"
  app_DB :: pool_config
  app_RedisAddr :: string
  app_Metrics :: "Desc list"

text \<open>
  The deferred functions close, when \<open>err\<close> is set at the end, first Redis and then the pool. A panic
  of \<open>metrics.New\<close> ends the process (\<open>None\<close>).
\<close>

definition BuildApp :: "libraries \<Rightarrow> 'f Config \<Rightarrow> boot \<Rightarrow> ((string + App) \<times> boot) option" where
  "BuildApp L cfg b =
     (case database_New (li_pgx L) (DatabaseURL cfg) b of
        (Inl err, b1) \<Rightarrow> Some (Inl err, b1)
      | (Inr dbPool, b1) \<Rightarrow>
          let b2 = boot_open RedisClient b1; closed = boot_close DBPool (boot_close RedisClient b2) in
          case li_InstrumentTracing L of
            Some err \<Rightarrow> Some (Inl err, closed)
          | None \<Rightarrow>
          case metrics_New (li_runtime_metrics L) of
            None \<Rightarrow> None
          | Some registry \<Rightarrow>
          case RegisterPool registry of
            Inl err \<Rightarrow> Some (Inl err, closed)
          | Inr appMetrics \<Rightarrow>
              Some (Inr \<lparr>app_Router = NewRouter (wire L cfg) (li_chi L), app_DB = dbPool,
                      app_RedisAddr = RedisHost cfg @ '':'' @ RedisPort cfg, app_Metrics = appMetrics\<rparr>, b2))"

section \<open>The process\<close>

text \<open>
  What \<open>main\<close> does to the outside, in order. \<open>outcome\<close> is what the select statement gets first: the
  error of a listener or a signal; errors of a shutdown are only logged.
\<close>

datatype action =
  Listen string | ListenMetrics string | ShutdownServer | ShutdownMetrics | ShutdownTracing
| CloseDB | CloseRedis

datatype outcome = ListenFailed string | Signalled

text \<open>The exit status and the actions; 2 is the status of a panic.\<close>

definition main ::
  "(string \<Rightarrow> 'f option) \<Rightarrow> 'f \<Rightarrow> environ \<Rightarrow> environ \<Rightarrow>
   (string \<Rightarrow> string + 'x) \<Rightarrow> (string \<Rightarrow> string option) \<Rightarrow> ('x, 'f) otel_globals \<Rightarrow>
   libraries \<Rightarrow> outcome \<Rightarrow> boot \<Rightarrow> nat \<times> action list \<times> boot" where
  "main ParseFloat one dotenv process exporter_New resource_New ot L outcome b =
     (case Load ParseFloat one dotenv process of
        Inl err \<Rightarrow> (1, [], b)
      | Inr cfg \<Rightarrow>
          let (tp, ot1) = tracing_New exporter_New resource_New cfg ot in
          case BuildApp L cfg b of
            None \<Rightarrow> (2, [], b)
          | Some (Inl err, b1) \<Rightarrow> (1, [], b1)
          | Some (Inr app, b1) \<Rightarrow>
              let started = [Listen ('':'' @ Port cfg), ListenMetrics ('':'' @ MetricsPort cfg)] in
              case outcome of
                ListenFailed err \<Rightarrow> (0, started, b1)
              | Signalled \<Rightarrow>
                  (0, started @ [ShutdownServer, ShutdownMetrics] @
                      (case tp of Inl _ \<Rightarrow> [] | Inr _ \<Rightarrow> [ShutdownTracing]) @ [CloseDB, CloseRedis],
                   boot_close RedisClient (boot_close DBPool b1)))"

section \<open>Waiting for the database\<close>

lemma ping_loop_up:
  "\<forall>i<k. pgx_Ping L (bt_pings b + i) \<noteq> None \<Longrightarrow> pgx_Ping L (bt_pings b + k) = None \<Longrightarrow> k < turns \<Longrightarrow>
   ping_loop L turns err b = (None, b\<lparr>bt_pings := bt_pings b + k + 1, bt_slept := bt_slept b + k * retryDelay\<rparr>)"
proof (induction k arbitrary: turns err b)
  case 0
  then show ?case by (cases turns) simp_all
next
  case (Suc k)
  then obtain t e where t: "turns = Suc t" "pgx_Ping L (bt_pings b) = Some e"
    by (cases turns) (auto dest: spec [of _ 0])
  define b1 where "b1 = b\<lparr>bt_pings := bt_pings b + 1, bt_slept := bt_slept b + retryDelay\<rparr>"
  have "\<forall>i<k. pgx_Ping L (bt_pings b1 + i) \<noteq> None"
    using Suc.prems(1) by (auto simp: b1_def dest: spec [of _ "Suc _"])
  then have "ping_loop L t e b1 = (None, b1\<lparr>bt_pings := bt_pings b1 + k + 1, bt_slept := bt_slept b1 + k * retryDelay\<rparr>)"
    using Suc.prems(2,3) t(1) by (intro Suc.IH) (simp_all add: b1_def)
  with t show ?case by (simp add: b1_def)
qed

lemma ping_loop_down:
  "\<forall>i<turns. pgx_Ping L (bt_pings b + i) \<noteq> None \<Longrightarrow>
   ping_loop L turns err b =
     (Some (if turns = 0 then err else the (pgx_Ping L (bt_pings b + (turns - 1)))),
      b\<lparr>bt_pings := bt_pings b + turns, bt_slept := bt_slept b + turns * retryDelay\<rparr>)"
proof (induction turns arbitrary: err b)
  case (Suc t)
  from Suc.prems obtain e where e: "pgx_Ping L (bt_pings b) = Some e" by (auto dest: spec [of _ 0])
  define b1 where "b1 = b\<lparr>bt_pings := bt_pings b + 1, bt_slept := bt_slept b + retryDelay\<rparr>"
  have "\<forall>i<t. pgx_Ping L (bt_pings b1 + i) \<noteq> None"
    using Suc.prems by (auto simp: b1_def dest: spec [of _ "Suc _"])
  from Suc.IH [OF this, of e] e show ?case by (cases t) (simp_all add: b1_def)
qed simp

lemma database_New_open:
  assumes "database_New L dsn b = (r, b')"
  shows "bt_open b' = (if isl r then bt_open b else DBPool # bt_open b)"
proof -
  have keep: "bt_open (snd (ping_loop L n err b)) = bt_open b" for n err and b :: boot
    by (induction n arbitrary: err b) (auto simp: Let_def split: option.splits)
  show ?thesis
  proof (cases "ping_loop L (maxAttempts - 1) [] (boot_open DBPool b)")
    case (Pair e b1)
    with keep [of "maxAttempts - 1" "[]" "boot_open DBPool b"] have "bt_open b1 = DBPool # bt_open b"
      by (simp add: boot_open_def)
    with assms Pair show ?thesis
      by (cases "pgx_ParseConfig L dsn"; cases r) (auto simp: database_New_def boot_close_def Let_def split: option.splits)
  qed
qed

lemma BuildApp_open:
  assumes "BuildApp L cfg b = Some (r, b')"
  shows "bt_open b' = (if isl r then bt_open b else RedisClient # DBPool # bt_open b)"
proof (cases "database_New (li_pgx L) (DatabaseURL cfg) b")
  case (Pair d b1)
  with database_New_open [OF Pair] assms show ?thesis
    by (auto simp: BuildApp_def boot_open_def boot_close_def Let_def split: sum.splits option.splits)
qed

section \<open>A sample start\<close>

text \<open>A database that answers from the third ping on, and an environment with the required variables.\<close>

definition sample_pgx :: pgx where
  "sample_pgx = \<lparr>
     pgx_ParseConfig = (\<lambda>dsn. Inr \<lparr>po_ConnString = dsn, po_MaxConns = 4, po_MinConns = 0, po_MaxConnLifetime = 0,
       po_MaxConnIdleTime = 0, po_TrimSQLInSpanName = False, po_SpanNameFunc = (\<lambda>s. s)\<rparr>),
     pgx_NewWithConfig = (\<lambda>cfg. None),
     pgx_Ping = (\<lambda>n. if n < 2 then Some ''refused'' else None)\<rparr>"

definition sample_libraries :: libraries where
  "sample_libraries = \<lparr>li_pgx = sample_pgx, li_redis = redis_server, li_InstrumentTracing = None,
     li_runtime_metrics = [desc ''go_goroutines'' []], li_bcrypt = sample_bcrypt, li_jwt = sample_jwt,
     li_text = sample_text, li_valid = sample_valid, li_driver_text = (\<lambda>e. ''driver''), li_chi = sample_chi\<rparr>"

definition sample_process :: environ where
  "sample_process = [''DATABASE_URL'' \<mapsto> ''postgres://db'', ''JWT_SECRET'' \<mapsto> ''key'', ''JWT_EXPIRY'' \<mapsto> ''0'']"

definition sample_boot :: boot where
  "sample_boot = \<lparr>bt_pings = 0, bt_slept = 0, bt_open = []\<rparr>"

lemma sample_database:
  "\<exists>pool. database_New sample_pgx dsn sample_boot =
     (Inr pool, \<lparr>bt_pings = 3, bt_slept = 4000000000, bt_open = [DBPool]\<rparr>)"
proof -
  have "ping_loop sample_pgx 9 [] (boot_open DBPool sample_boot) =
      (None, \<lparr>bt_pings = 3, bt_slept = 4000000000, bt_open = [DBPool]\<rparr>)"
    using ping_loop_up [of 2 sample_pgx "boot_open DBPool sample_boot" 9 "[]"]
    by (simp add: sample_pgx_def boot_open_def sample_boot_def retryDelay_def)
  moreover have "pgx_ParseConfig sample_pgx dsn = Inr c \<Longrightarrow> pgx_NewWithConfig sample_pgx (pool_settings c) = None"
    "\<exists>c. pgx_ParseConfig sample_pgx dsn = Inr c" for c by (simp_all add: sample_pgx_def)
  ultimately show ?thesis unfolding database_New_def maxAttempts_def by auto
qed

lemma sample_BuildApp:
  "\<exists>app b. BuildApp sample_libraries cfg sample_boot = Some (Inr app, b)"
proof -
  have "RegisterPool (http_metrics @ [desc ''go_goroutines'' []]) =
      Inr (http_metrics @ [desc ''go_goroutines'' []] @ Describe newPoolCollector)"
    "metrics_New [desc ''go_goroutines'' []] = Some (http_metrics @ [desc ''go_goroutines'' []])"
    by code_simp+
  with sample_database [of "DatabaseURL cfg"] show ?thesis
    by (auto simp: BuildApp_def sample_libraries_def Let_def)
qed

lemma sample_Load:
  "\<exists>cfg. Load (\<lambda>s. None) () Map.empty sample_process = Inr cfg \<and> Port cfg = ''8080'' \<and> MetricsPort cfg = ''9100''"
  by (simp add: Load_def sample_process_def Getenv_def getEnvTimeDuration_def ParseDuration_def Let_def getEnv_def)

section \<open>Properties\<close>

text \<open>
  C34. \<open>database.New\<close> ends: it returns the pool after the first of its nine pings that is answered,
  having slept two seconds after each before it, and gives up after the ninth and 18 seconds with the last
  error, nothing left open. (The message speaks of 10 retries.)
\<close>

theorem database_New_waits:
  assumes "pgx_ParseConfig L dsn = Inr parsed" and "pgx_NewWithConfig L (pool_settings parsed) = None"
  shows "database_New L dsn b =
    (case find (\<lambda>i. pgx_Ping L (bt_pings b + i) = None) [0..<9] of
       Some k \<Rightarrow> (Inr (pool_settings parsed),
         b\<lparr>bt_pings := bt_pings b + k + 1, bt_slept := bt_slept b + k * 2000000000, bt_open := DBPool # bt_open b\<rparr>)
     | None \<Rightarrow> (Inl (''db not ready after 10 retries: '' @ the (pgx_Ping L (bt_pings b + 8))),
         b\<lparr>bt_pings := bt_pings b + 9, bt_slept := bt_slept b + 18000000000\<rparr>))"
proof -
  have ten: "Itoa 10 = ''10''" by code_simp
  show ?thesis
  proof (cases "find (\<lambda>i. pgx_Ping L (bt_pings b + i) = None) [0..<9]")
    case None
    then have "\<forall>i<9. pgx_Ping L (bt_pings (boot_open DBPool b) + i) \<noteq> None"
      by (auto simp: find_None_iff boot_open_def)
    from ping_loop_down [OF this, of "[]"] None assms show ?thesis
      by (simp add: database_New_def maxAttempts_def ten boot_open_def boot_close_def retryDelay_def)
  next
    case (Some k)
    then have "k < 9" "pgx_Ping L (bt_pings (boot_open DBPool b) + k) = None"
      "\<forall>i<k. pgx_Ping L (bt_pings (boot_open DBPool b) + i) \<noteq> None"
      by (auto simp: find_Some_iff boot_open_def)
    from ping_loop_up [OF this(3,2,1), of "[]"] Some assms show ?thesis
      by (simp add: database_New_def maxAttempts_def boot_open_def retryDelay_def)
  qed
qed

theorem database_New_waits_witness:
  "(\<exists>pool. database_New sample_pgx ''db'' sample_boot =
      (Inr pool, \<lparr>bt_pings = 3, bt_slept = 4000000000, bt_open = [DBPool]\<rparr>)) \<and>
   (\<exists>b. database_New (sample_pgx\<lparr>pgx_Ping := (\<lambda>n. Some ''refused'')\<rparr>) ''db'' sample_boot =
      (Inl ''db not ready after 10 retries: refused'', b) \<and> bt_pings b = 9 \<and> bt_open b = [])"
proof -
  have nine: "[0..<9] = [0, 1, 2, 3, 4, 5, 6, 7, 8 :: nat]" by code_simp
  obtain c where c: "pgx_ParseConfig sample_pgx ''db'' = Inr c" by (simp add: sample_pgx_def)
  have "pgx_NewWithConfig sample_pgx (pool_settings c) = None" by (simp add: sample_pgx_def)
  with c database_New_waits [of sample_pgx "''db''" c sample_boot]
    database_New_waits [of "sample_pgx\<lparr>pgx_Ping := (\<lambda>n. Some ''refused'')\<rparr>" "''db''" c sample_boot]
  show ?thesis by (simp add: nine sample_boot_def sample_pgx_def)
qed





end
