(* ===== verification/Spec2Isabelle.thy ===== *)
theory Spec2Isabelle
  imports Lock_Order Concurrent Claims Answers Http_Safety Startup
begin

text \<open>
  A verification development for the distributed order processing API, a Go service that takes orders
  over HTTP, keeps products, orders, payments, users and idempotency keys in PostgreSQL, counts failed
  logins in Redis and charges a payment provider.

  \<^bold>\<open>The program and its model.\<close> A request goes through the router and its middleware to a handler, which
  decodes it, calls a service, and writes the result. A service runs SQL statements through its
  repository, several of them in one transaction where the code does. The theories follow this:

  \<^item> \<open>Prelude\<close>: operations with state and errors (\<open>op\<close>, \<open>and_then\<close>), Go maps and sorting, row lookups.
  \<^item> \<open>Database\<close>: the tables of \<open>migrations/\<close> with their constraints (\<open>schema_ok\<close>), the errors, and the
    \<open>world\<close>: tables, an open transaction, the row locks it holds, the charges the provider has made, and
    an environment. The environment says, per statement, whether it works, fails, or takes effect with
    its acknowledgement lost; it gives clocks, generated identifiers and the provider's draws, and the
    order in which a statement visits rows. The properties hold for every environment.
  \<^item> \<open>Order_Store\<close> (\<open>order_store.go\<close>, \<open>orders.sql.go\<close>) and \<open>Order_Service\<close> (\<open>order_service.go\<close>): placing,
    cancelling and reading orders. The service is verified against the locale of the store's contract,
    interpreted on the SQL store.
  \<^item> \<open>Payment\<close> (\<open>payment_repository.go\<close>, \<open>fake_provider.go\<close>): the transaction that charges and settles.
  \<^item> \<open>Idempotency\<close> (\<open>idempotency_service.go\<close>, \<open>idempotency_repository.go\<close>): claiming a key, taking over a
    stale claim, storing a response.
  \<^item> \<open>Product_Catalog\<close>, \<open>Users\<close>, \<open>Auth\<close>, \<open>Rate_Limiter\<close>: the catalog, registration and login, JSON web
    tokens, and the login limiter over the commands of Redis it uses (locale \<open>counter_store\<close>).
  \<^item> \<open>Text\<close>, \<open>Json\<close>, \<open>Sha256\<close>, \<open>Payloads\<close>: what the code uses of Go's library: decimal numbers, trimming,
    \<open>encoding/json\<close> in both directions, SHA-256, RFC 3339 times; and the request and response structs.
  \<^item> \<open>Http\<close>, \<open>Handlers\<close>, \<open>Router\<close>: requests and responses, the middleware, every handler with the errors
    it answers, the table of routes, the health checks and the metrics middleware.
  \<^item> \<open>Config\<close>, \<open>Observability\<close>, \<open>Startup\<close>: the environment variables and \<open>time.ParseDuration\<close>, log lines
    and metrics, opening the pool, \<open>BuildApp\<close> and \<open>main\<close>.

  \<^item> \<open>Lock_Order\<close>, \<open>Isolation\<close>, \<open>Concurrent\<close>: the transactions of the order and payment services among
    concurrent ones. \<open>Isolation\<close> runs each statement on what others have committed by then, as \<open>READ
    COMMITTED\<close> does, and interprets the contracts of the store (\<open>order_store\<close>) and of the payment queries
    (\<open>payment_store\<close>) on such runs too.
  \<^item> \<open>Claims\<close>: the service of the idempotency keys among concurrent requests, whose statements come between
    its own, as no transaction holds them together.
  \<^item> \<open>Order_System\<close>, \<open>Server\<close>, \<open>Answers\<close>, \<open>Order_Once\<close>, \<open>Http_Safety\<close>: the composition, below.

  \<^bold>\<open>What is shown.\<close> Per component: placing, cancelling and paying are atomic whatever statement fails, never
  oversell, add up, and charge only for a pending order of the caller (\<open>Order_Service\<close>, \<open>Payment\<close>); every
  transaction takes its row locks in one order, so concurrent ones do not deadlock (\<open>Lock_Order\<close>), and
  does to the state committed last, whatever others committed between its statements, what it does
  alone, so that every history of them is a serial one (\<open>Concurrent\<close>); what a claim does in every state
  of its key (\<open>Idempotency\<close>), and that requests with one key, their statements interleaved in any way, are let
  through only more than 30 seconds apart (\<open>Claims\<close>); the behaviour of the catalog, of accounts and
  tokens, and of the limiter. \<open>Order_System\<close> composes the services into a transition system and shows its
  invariants: the books balance, units are conserved, a paid order is backed by a charge, and once only
  while no commit of a payment is lost. \<open>Server\<close> shows that every request over HTTP is a sequence of such
  steps, on behalf of the user it authenticates as only, and \<open>Answers\<close> gives its answers a type; \<open>Order_Once\<close> and \<open>Http_Safety\<close> draw the
  conclusions: a repeated order is not placed twice, nobody touches the orders of others, requests
  without a token are refused, no answer depends on the text of an internal error, the login limit holds,
  and the metrics count what was answered. \<open>Startup\<close> shows when a start succeeds, what a failed one leaves
  open, and the order of the shutdown.

  \<^bold>\<open>Assumptions.\<close> Requests are served one after another in \<open>Order_System\<close> and \<open>Server\<close>; concurrency is
  treated where the code treats it, by row locks in transactions (\<open>Lock_Order\<close>, \<open>Concurrent\<close>) and by the
  single statements that claim a key (\<open>Claims\<close>) or take stock. Of PostgreSQL it is assumed that a locked row stays as
  it is until the transaction ends, that a locked order gets no items, and that no commit breaks a
  constraint together with rows another transaction has inserted (\<open>isolated\<close>). Parameters of the model are what is not in the repository: the JWT and bcrypt
  libraries (\<open>jwt_laws\<close>, \<open>bcrypt_laws\<close>), the tags of the validator, the matching of paths by chi, the
  text of UUIDs (\<open>text_laws\<close>), the texts of driver errors, pgx, OpenTelemetry and the metrics of the Go
  runtime; the laws are documented behaviour and have instances (\<open>sample_jwt\<close>, \<open>sample_text\<close>, ...).

  \<^bold>\<open>Bounds.\<close> Integers are kept at their width: Go's \<open>int\<close> as 64-bit words, columns as 32- and 64-bit words, with
  Go's conversions. Loops are structural recursion on the list or the number of turns they have. The JSON
  parser takes fuel of twice the length of the text, which \<open>parse_fuel\<close> shows to be enough; a duration takes
  its length, as each part takes a character.

  \<^bold>\<open>Not modelled.\<close> The spans and the export of traces and metrics, which no result depends on; timeouts and
  the cancellation of contexts, except as failing statements; the locks foreign keys take; the generated
  \<open>db.go\<close> files, which hand a statement to the pool or a transaction; and the parsing of the float of the
  sampling ratio.
\<close>

end
